(* ===== verification/Prelude.thy ===== *)
theory Prelude
  imports Main "HOL-Library.Word" "HOL-Library.Char_ord" "HOL-Library.List_Lexorder"
    "HOL-Library.Product_Lexorder" "HOL-Library.Multiset" "HOL-Library.AList"
begin

text \<open>
  What the component theories share: Go's three-way comparison of ordered values
  (\<open>cmp3\<close>) and of strings (\<open>strings_Compare\<close>), \<open>sort.Slice\<close>/\<open>sort.Sort\<close> as a
  sorting function over a comparison, Go errors and panics as values of a sum type, and the
  locale \<open>keyed_cmp\<close>: a comparison that orders the elements of a carrier set by a key in a
  linear order.  Every comparison of the agent (OpenFlow flows, tc qdiscs, classes and
  filters) is an interpretation of that locale, and the lemmas on sorted lists are proved
  once inside it.
\<close>

section \<open>Named collections\<close>

named_theorems go_simps \<open>unfolding rules for the Go library functions of the model\<close>

section \<open>Errors and panics\<close>

text \<open>
  A Go function that returns \<open>(T, error)\<close> is modelled by \<open>go_error + T\<close>.  The error
  carries its message where the code tests it, otherwise the place that raised it.  A panic
  (failed type assertion, index out of range, division by zero) is the separate constructor
  \<open>Panic\<close>, because no code of the agent recovers from it.
\<close>

datatype go_error = Err string | Panic string

type_synonym 'a result = "go_error + 'a"

fun res_bind :: "'a result \<Rightarrow> ('a \<Rightarrow> 'b result) \<Rightarrow> 'b result" where
  "res_bind (Inl e) f = Inl e"
| "res_bind (Inr x) f = f x"

lemma res_bind_Inr_iff:
  "res_bind r f = Inr y \<longleftrightarrow> (\<exists>x. r = Inr x \<and> f x = Inr y)"
  by (cases r) auto

lemma res_bind_cong [fundef_cong]:
  "r = r' \<Longrightarrow> (\<And>x. r' = Inr x \<Longrightarrow> f x = g x) \<Longrightarrow> res_bind r f = res_bind r' g"
  by (cases r') auto

definition is_ok :: "'a result \<Rightarrow> bool" where
  "is_ok r = (case r of Inl _ \<Rightarrow> False | Inr _ \<Rightarrow> True)"

lemma is_ok_simps [simp]: "is_ok (Inr x)" "\<not> is_ok (Inl e)"
  by (simp_all add: is_ok_def)

section \<open>Go maps\<close>

text \<open>
  A Go map is an association list with distinct keys; its order is one order in which a
  \<open>range\<close> loop may visit the map.  Lookup is \<open>map_of\<close>, \<open>len\<close> is \<open>length\<close>.
\<close>

type_synonym ('k, 'v) gomap = "('k \<times> 'v) list"

definition gm_wf :: "('k, 'v) gomap \<Rightarrow> bool" where
  "gm_wf m \<longleftrightarrow> distinct (map fst m)"

abbreviation gm_get :: "('k, 'v) gomap \<Rightarrow> 'k \<Rightarrow> 'v option" where
  "gm_get m k \<equiv> map_of m k"

abbreviation gm_set :: "('k, 'v) gomap \<Rightarrow> 'k \<Rightarrow> 'v \<Rightarrow> ('k, 'v) gomap" where
  "gm_set m k v \<equiv> AList.update k v m"

abbreviation gm_del :: "('k, 'v) gomap \<Rightarrow> 'k \<Rightarrow> ('k, 'v) gomap" where
  "gm_del m k \<equiv> AList.delete k m"

lemma gm_wf_Nil [simp]: "gm_wf []"
  by (simp add: gm_wf_def)

lemma gm_wf_set [simp]: "gm_wf m \<Longrightarrow> gm_wf (gm_set m k v)"
  by (simp add: gm_wf_def distinct_update)

lemma gm_wf_del [simp]: "gm_wf m \<Longrightarrow> gm_wf (gm_del m k)"
  by (simp add: gm_wf_def distinct_delete)

lemma gm_get_set [simp]: "gm_get (gm_set m k v) = (map_of m)(k \<mapsto> v)"
  by (auto simp: fun_eq_iff update_conv')

lemma gm_get_del [simp]: "gm_get (gm_del m k) = (map_of m)(k := None)"
  by (auto simp: fun_eq_iff delete_conv')

lemma gm_len: "gm_wf m \<Longrightarrow> length m = card (dom (map_of m))"
  by (metis dom_map_of_conv_image_fst gm_wf_def distinct_card length_map list.set_map)

section \<open>Three-way comparison\<close>

definition cmp3 :: "'k::linorder \<Rightarrow> 'k \<Rightarrow> int" where
  "cmp3 a b = (if a < b then - 1 else if a > b then 1 else 0)"

lemma cmp3_simps [simp]:
  "cmp3 a b < 0 \<longleftrightarrow> a < b" "0 < cmp3 a b \<longleftrightarrow> b < a" "cmp3 a b = 0 \<longleftrightarrow> a = b"
  "cmp3 a b \<le> 0 \<longleftrightarrow> a \<le> b" "0 \<le> cmp3 a b \<longleftrightarrow> b \<le> a" "cmp3 a a = 0"
  by (auto simp: cmp3_def)

text \<open>Comparing two fields one after the other is comparing the pair.\<close>

lemma cmp3_pair:
  "cmp3 (a, b) (c, d) = (if cmp3 a c \<noteq> 0 then cmp3 a c else cmp3 b d)"
  by (auto simp: cmp3_def less_prod_def)

lemma cmp3_pair_if:
  "(if a < c then - 1 else if a > c then 1 else cmp3 b d) = cmp3 (a, b) (c, d)"
  by (auto simp: cmp3_def less_prod_def)

lemma cmp3_uminus:
  "cmp3 (- a) (- b) = cmp3 b (a :: 'k::linordered_ab_group_add)"
  by (simp add: cmp3_def)

text \<open>\<open>strings.Compare\<close>: bytewise lexicographic comparison.\<close>

definition strings_Compare :: "string \<Rightarrow> string \<Rightarrow> int" where
  "strings_Compare a b = (if a = b then 0 else if a < b then - 1 else 1)"

lemma strings_Compare_cmp3 [go_simps]: "strings_Compare = cmp3"
  by (auto simp: strings_Compare_def cmp3_def fun_eq_iff)

section \<open>Sorting\<close>

text \<open>
  \<open>sort.Sort\<close> and \<open>sort.Slice\<close> with the order \<open>cmp x y < 0\<close>.  Go's sort is an insertion
  sort up to twelve elements and is not stable beyond; the lemmas below only use that the
  result is a sorted permutation.
\<close>

fun go_insort :: "('a \<Rightarrow> 'a \<Rightarrow> int) \<Rightarrow> 'a \<Rightarrow> 'a list \<Rightarrow> 'a list" where
  "go_insort cmp x [] = [x]"
| "go_insort cmp x (y # ys) = (if cmp y x < 0 then y # go_insort cmp x ys else x # y # ys)"

fun go_sort :: "('a \<Rightarrow> 'a \<Rightarrow> int) \<Rightarrow> 'a list \<Rightarrow> 'a list" where
  "go_sort cmp [] = []"
| "go_sort cmp (x # xs) = go_insort cmp x (go_sort cmp xs)"

lemma mset_go_insort [simp]: "mset (go_insort cmp x ys) = add_mset x (mset ys)"
  by (induction ys) auto

lemma mset_go_sort [simp]: "mset (go_sort cmp xs) = mset xs"
  by (induction xs) auto

lemma set_go_insort [simp]: "set (go_insort cmp x ys) = insert x (set ys)"
  by (induction ys) auto

lemma set_go_sort [simp]: "set (go_sort cmp xs) = set xs"
  by (induction xs) auto

lemma length_go_sort [simp]: "length (go_sort cmp xs) = length xs"
  by (metis mset_go_sort size_mset)

lemma go_insort_cong:
  "(\<And>y. y \<in> set ys \<Longrightarrow> cmp y x < 0 \<longleftrightarrow> cmp' y x < 0) \<Longrightarrow>
   go_insort cmp x ys = go_insort cmp' x ys"
  by (induction ys) auto

section \<open>Comparison by a key\<close>

text \<open>
  The contract that the sorted-list algorithms of the agent rely on: on the carrier \<open>A\<close>
  the comparison is the comparison of keys taken from a linear order.  Two elements are the
  same to the program exactly if their keys agree.
\<close>

locale keyed_cmp =
  fixes cmp :: "'a \<Rightarrow> 'a \<Rightarrow> int"
    and key :: "'a \<Rightarrow> 'k::linorder"
    and A :: "'a set"
  assumes cmp_key: "x \<in> A \<Longrightarrow> y \<in> A \<Longrightarrow> cmp x y = cmp3 (key x) (key y)"
begin

lemma cmp_less: "x \<in> A \<Longrightarrow> y \<in> A \<Longrightarrow> cmp x y < 0 \<longleftrightarrow> key x < key y"
  and cmp_greater: "x \<in> A \<Longrightarrow> y \<in> A \<Longrightarrow> 0 < cmp x y \<longleftrightarrow> key y < key x"
  and cmp_zero: "x \<in> A \<Longrightarrow> y \<in> A \<Longrightarrow> cmp x y = 0 \<longleftrightarrow> key x = key y"
  by (simp_all add: cmp_key)

lemmas cmp_signs = cmp_less cmp_greater cmp_zero

lemma insort_sorted:
  assumes "x \<in> A" "set ys \<subseteq> A" "sorted (map key ys)"
  shows "sorted (map key (go_insort cmp x ys))"
  using assms by (induction ys) (auto simp: cmp_less)

lemma sort_sorted:
  assumes "set xs \<subseteq> A"
  shows "sorted (map key (go_sort cmp xs))"
  using assms by (induction xs) (auto intro!: insort_sorted)

lemma sort_strict:
  assumes "set xs \<subseteq> A" "distinct (map key xs)"
  shows "sorted_wrt (<) (map key (go_sort cmp xs))"
proof -
  have "mset (map key (go_sort cmp xs)) = mset (map key xs)"
    by (simp add: mset_map)
  then have "distinct (map key (go_sort cmp xs))"
    using assms(2) by (metis mset_eq_imp_distinct_iff)
  with sort_sorted [OF assms(1)] show ?thesis
    by (simp add: strict_sorted_iff)
qed

end

section \<open>A set of elements known by their keys\<close>

text \<open>
  The interface that the flow manager uses of a flow set: elements are identified by a key,
  \<open>keys\<close> is the abstract set, \<open>invar\<close> the representation invariant.
\<close>

locale key_set =
  fixes empty :: 's
    and add :: "'s \<Rightarrow> 'a \<Rightarrow> 's"
    and remove :: "'s \<Rightarrow> 'a \<Rightarrow> 's"
    and contains :: "'s \<Rightarrow> 'a \<Rightarrow> bool"
    and key :: "'a \<Rightarrow> 'k"
    and keys :: "'s \<Rightarrow> 'k set"
    and invar :: "'s \<Rightarrow> bool"
  assumes keys_empty: "keys empty = {}"
    and invar_empty: "invar empty"
    and keys_add: "invar s \<Longrightarrow> keys (add s x) = insert (key x) (keys s)"
    and invar_add: "invar s \<Longrightarrow> invar (add s x)"
    and keys_remove: "invar s \<Longrightarrow> keys (remove s x) = keys s - {key x}"
    and invar_remove: "invar s \<Longrightarrow> invar (remove s x)"
    and contains_keys: "invar s \<Longrightarrow> contains s x \<longleftrightarrow> key x \<in> keys s"
begin

lemma contains_add: "invar s \<Longrightarrow> contains (add s x) y \<longleftrightarrow> key x = key y \<or> contains s y"
  by (auto simp: contains_keys keys_add invar_add)

lemma contains_remove:
  "invar s \<Longrightarrow> contains (remove s x) y \<longleftrightarrow> key x \<noteq> key y \<and> contains s y"
  by (auto simp: contains_keys keys_remove invar_remove)

lemma add_all:
  assumes "invar s"
  shows "invar (foldl add s xs) \<and> keys (foldl add s xs) = keys s \<union> key ` set xs"
  using assms
proof (induction xs arbitrary: s)
  case (Cons x xs)
  from Cons.IH [OF invar_add [OF Cons.prems]] Cons.prems show ?case
    by (auto simp: keys_add)
qed simp

text \<open>Adding the elements of several lists one after the other, starting from the empty set:
  only the union of the keys matters, not the order of the lists.\<close>

lemma add_all_lists:
  "invar (foldl (foldl add) empty xss) \<and>
   keys (foldl (foldl add) empty xss) = key ` (\<Union>xs\<in>set xss. set xs)"
proof -
  have "invar s \<Longrightarrow> invar (foldl (foldl add) s xss) \<and>
      keys (foldl (foldl add) s xss) = keys s \<union> key ` (\<Union>xs\<in>set xss. set xs)" for s
  proof (induction xss arbitrary: s)
    case (Cons xs xss)
    from add_all [OF Cons.prems, of xs] Cons.IH [of "foldl add s xs"] show ?case
      by auto
  qed simp
  from this [OF invar_empty] show ?thesis by (simp add: keys_empty)
qed

end

section \<open>An allocator of unique ids\<close>

text \<open>
  What the guests rely on when they allocate conntrack zones: an id belongs to one name,
  allocating changes nothing for other names, and freeing gives the id back.
\<close>

locale id_allocator =
  fixes alloc :: "'s \<Rightarrow> 'n \<Rightarrow> 's \<times> 'i result"
    and free :: "'s \<Rightarrow> 'n \<Rightarrow> 's"
    and owner :: "'s \<Rightarrow> 'n \<Rightarrow> 'i option"
    and invar :: "'s \<Rightarrow> bool"
  assumes alloc_invar: "invar s \<Longrightarrow> invar (fst (alloc s n))"
    and free_invar: "invar s \<Longrightarrow> invar (free s n)"
    and alloc_ok: "invar s \<Longrightarrow> alloc s n = (s', Inr i) \<Longrightarrow> owner s' = (owner s)(n \<mapsto> i)"
    and alloc_err: "invar s \<Longrightarrow> alloc s n = (s', Inl e) \<Longrightarrow> s' = s"
    and alloc_known: "invar s \<Longrightarrow> owner s n = Some i \<Longrightarrow> alloc s n = (s, Inr i)"
    and free_owner: "invar s \<Longrightarrow> owner (free s n) = (owner s)(n := None)"
    and owner_inj: "invar s \<Longrightarrow> owner s n = Some i \<Longrightarrow> owner s m = Some i \<Longrightarrow> m = n"
begin

text \<open>Allocating again returns the same id, and a freed name owns nothing.\<close>

lemma alloc_stable:
  assumes "invar s" "alloc s n = (s', Inr i)"
  shows "alloc s' n = (s', Inr i)"
proof -
  have "invar s'" using alloc_invar [OF assms(1), of n] assms(2) by simp
  moreover have "owner s' n = Some i" using alloc_ok [OF assms] by simp
  ultimately show ?thesis by (rule alloc_known)
qed

lemma alloc_distinct:
  assumes "invar s" "alloc s n = (s', Inr i)" "owner s m = Some j" "m \<noteq> n"
  shows "i \<noteq> j"
proof -
  have s': "invar s'" using alloc_invar [OF assms(1), of n] assms(2) by simp
  have "owner s' m = Some j" "owner s' n = Some i"
    using alloc_ok [OF assms(1,2)] assms(3,4) by auto
  with owner_inj [OF s', of n i m] assms(4) show ?thesis by auto
qed

lemma foldl_free_invar: "invar s \<Longrightarrow> invar (foldl free s ns)"
  by (induction ns arbitrary: s) (auto simp: free_invar)

lemma foldl_free_owner:
  "invar s \<Longrightarrow> owner (foldl free s ns) m = (if m \<in> set ns then None else owner s m)"
  by (induction ns arbitrary: s) (auto simp: free_invar free_owner)

end

section \<open>Keys of two parts\<close>

text \<open>A key that joins two names with a character: it determines both, if the first is without that
  character.\<close>

locale sep_key =
  fixes key :: "string \<Rightarrow> string \<Rightarrow> string"
    and c :: char
  assumes key_def: "key a b = a @ c # b"
begin

lemma key_fst: "c \<notin> set a \<Longrightarrow> takeWhile (\<lambda>x. x \<noteq> c) (key a b) = a"
  unfolding key_def by (induction a) auto

lemma key_inj:
  assumes "key a b = key a' b'" "c \<notin> set a" "c \<notin> set a'"
  shows "a = a' \<and> b = b'"
proof -
  have "a = a'" using key_fst [OF assms(2), of b] key_fst [OF assms(3), of b'] unfolding assms(1) by simp
  with assms(1) show ?thesis by (simp add: key_def)
qed

end

section \<open>Names of patch ports\<close>

text \<open>
  What the managers of VPC cards and elastic addresses rely on: a VPC gets its pair of port names
  once and keeps it.  The name of the first port is made of the beginning of the id, which has to
  be long enough; the peer has a suffix.
\<close>

locale patch_names =
  fixes names :: "'m \<Rightarrow> (string, string) gomap"
    and pair :: "string \<Rightarrow> 'm \<Rightarrow> ('m \<times> string \<times> string) result"
    and base :: "string \<Rightarrow> string"
    and len :: nat
    and suffix :: string
  assumes known: "gm_get (names m) v = Some b \<Longrightarrow> pair v m = Inr (m, b, b @ suffix)"
    and fresh: "gm_get (names m) v = None \<Longrightarrow> len \<le> length v \<Longrightarrow>
      \<exists>m'. pair v m = Inr (m', base v, base v @ suffix) \<and> names m' = gm_set (names m) v (base v)"
    and short: "gm_get (names m) v = None \<Longrightarrow> length v < len \<Longrightarrow> \<not> is_ok (pair v m)"
begin

lemma pair_names:
  assumes "pair v m = Inr (m', mine, peer)"
  shows "peer = mine @ suffix" "gm_get (names m') = (gm_get (names m))(v \<mapsto> mine)"
    "gm_wf (names m) \<Longrightarrow> gm_wf (names m')" "gm_get (names m) v = None \<Longrightarrow> mine = base v"
proof -
  have "peer = mine @ suffix \<and> gm_get (names m') = (gm_get (names m))(v \<mapsto> mine)
    \<and> (gm_wf (names m) \<longrightarrow> gm_wf (names m')) \<and> (gm_get (names m) v = None \<longrightarrow> mine = base v)"
  proof (cases "gm_get (names m) v")
    case None
    then have "len \<le> length v" using short [OF None] assms by (metis is_ok_simps(1) not_le)
    from fresh [OF None this] assms show ?thesis by auto
  next
    case (Some b)
    with known [OF Some] assms show ?thesis by auto
  qed
  then show "peer = mine @ suffix" "gm_get (names m') = (gm_get (names m))(v \<mapsto> mine)"
    "gm_wf (names m) \<Longrightarrow> gm_wf (names m')" "gm_get (names m) v = None \<Longrightarrow> mine = base v" by blast+
qed

text \<open>Asking again gives the same names and changes nothing.\<close>

lemma pair_stable: "pair v m = Inr (m', mine, peer) \<Longrightarrow> pair v m' = Inr (m', mine, peer)"
  using known [of m' v mine] pair_names(1,2) [of v m m' mine peer] by simp

text \<open>Two VPCs with the same beginning of their ids share their ports.\<close>

lemma pair_collision:
  assumes "base v = base w" "len \<le> length v" "len \<le> length w" "v \<noteq> w"
    and "gm_get (names m) v = None" "gm_get (names m) w = None"
  shows "\<exists>m1 m2 mine peer. pair v m = Inr (m1, mine, peer) \<and> pair w m1 = Inr (m2, mine, peer)"
proof -
  obtain m1 where 1: "pair v m = Inr (m1, base v, base v @ suffix)" "names m1 = gm_set (names m) v (base v)"
    using fresh [OF assms(5,2)] by blast
  have "gm_get (names m1) w = None" using assms(4,6) by (simp add: 1(2))
  from fresh [OF this assms(3)] 1(1) assms(1) show ?thesis by auto
qed

end

end
