(* ===== verification/FlowSet.thy ===== *)
theory FlowSet
  imports Prelude
begin

text \<open>
  OpenFlow flows and sorted flow sets: \<open>pkg/agent/utils/utils.go\<close> (the comparison of
  flows) and \<open>pkg/agent/utils/flowset.go\<close> (\<open>FlowSet\<close>: binary search, insertion, removal,
  merge and difference on a sorted slice).

  \<open>ovs.Flow\<close> is the vendored struct; its \<open>Match\<close> and \<open>Action\<close> values are interface
  values of which the agent only observes the methods \<open>MarshalText\<close> and \<open>GoString\<close>, so
  they are modelled by the record of those two observations.
\<close>

section \<open>Flows\<close>

record marshaler =
  MarshalText :: "string option"  \<comment> \<open>\<open>None\<close>: the method returned an error\<close>
  GoString :: string

record flow =
  Priority :: int
  Protocol :: string
  InPort :: int
  Matches :: "marshaler list"
  Table :: int
  IdleTimeout :: int
  Cookie :: "64 word"
  Actions :: "marshaler list"

definition ovsMatchString :: "marshaler \<Rightarrow> string" where
  "ovsMatchString m =
     (case MarshalText m of
        None \<Rightarrow> GoString m
      | Some str \<Rightarrow>
          if str \<in> set [''nw_src=0.0.0.0/0'', ''nw_dst=0.0.0.0/0'',
                        ''ipv6_src=::/0'', ''ipv6_dst=::/0'']
          then '''' else str)"

definition ovsMatchStrings :: "marshaler list \<Rightarrow> string list" where
  "ovsMatchStrings matches =
     go_sort strings_Compare (filter (\<lambda>s. length s > 0) (map ovsMatchString matches))"

text \<open>The \<open>for i := range s1\<close> loop of both comparisons: the first difference decides.\<close>

fun cmp_strs :: "string list \<Rightarrow> string list \<Rightarrow> int" where
  "cmp_strs (x # xs) (y # ys) =
     (let cmp = strings_Compare x y in if cmp \<noteq> 0 then cmp else cmp_strs xs ys)"
| "cmp_strs _ _ = 0"

definition cmpOvsMatches :: "marshaler list \<Rightarrow> marshaler list \<Rightarrow> int" where
  "cmpOvsMatches m1 m2 =
     (let s1 = ovsMatchStrings m1; s2 = ovsMatchStrings m2
      in if length s1 < length s2 then - 1
         else if length s1 > length s2 then 1
         else cmp_strs s1 s2)"

definition ovsActionString :: "marshaler \<Rightarrow> string" where
  "ovsActionString a = (case MarshalText a of None \<Rightarrow> GoString a | Some str \<Rightarrow> str)"

definition ovsActionStrings :: "marshaler list \<Rightarrow> string list" where
  "ovsActionStrings actions = filter (\<lambda>s. length s > 0) (map ovsActionString actions)"

definition cmpOvsActions :: "marshaler list \<Rightarrow> marshaler list \<Rightarrow> int" where
  "cmpOvsActions m1 m2 =
     (let s1 = ovsActionStrings m1; s2 = ovsActionStrings m2
      in if length s1 < length s2 then - 1
         else if length s1 > length s2 then 1
         else cmp_strs s1 s2)"

definition CompareOVSFlow :: "flow \<Rightarrow> flow \<Rightarrow> int" where
  "CompareOVSFlow flow1 flow2 =
     (if Table flow1 < Table flow2 then - 1 else if Table flow1 > Table flow2 then 1
      else if Priority flow1 > Priority flow2 then - 1
      else if Priority flow1 < Priority flow2 then 1
      else if InPort flow1 < InPort flow2 then - 1 else if InPort flow1 > InPort flow2 then 1
      else let protoCmp = strings_Compare (Protocol flow1) (Protocol flow2)
      in if protoCmp \<noteq> 0 then protoCmp
      else let matchCmp = cmpOvsMatches (Matches flow1) (Matches flow2)
      in if matchCmp \<noteq> 0 then matchCmp
      else let actionCmp = cmpOvsActions (Actions flow1) (Actions flow2)
      in if actionCmp \<noteq> 0 then actionCmp
      else if IdleTimeout flow1 < IdleTimeout flow2 then - 1
      else if IdleTimeout flow1 > IdleTimeout flow2 then 1
      else if Cookie flow1 < Cookie flow2 then - 1
      else if Cookie flow1 > Cookie flow2 then 1
      else 0)"

definition OVSFlowEqual :: "flow \<Rightarrow> flow \<Rightarrow> bool" where
  "OVSFlowEqual of0 of1 \<longleftrightarrow> CompareOVSFlow of0 of1 = 0"

section \<open>Flow sets\<close>

text \<open>\<open>FlowSet\<close> is its slice \<open>flows\<close>; the methods that assign the field return the new
  slice.\<close>

type_synonym flow_set = "flow list"

definition NewFlowSet :: flow_set where
  "NewFlowSet = []"

definition NewFlowSetFromList :: "flow list \<Rightarrow> flow_set" where
  "NewFlowSetFromList flows = go_sort CompareOVSFlow flows"

text \<open>
  The binary search of \<open>findFlowIndex\<close>, with \<open>i\<close> and \<open>j\<close> as the Go \<open>int\<close>s they are
  (\<open>j\<close> starts at \<open>len - 1\<close>, which is \<open>-1\<close> for the empty set).
\<close>

function findFlowIndex_loop :: "flow list \<Rightarrow> flow \<Rightarrow> int \<Rightarrow> int \<Rightarrow> int \<times> bool" where
  "findFlowIndex_loop flows f i j =
     (if i \<le> j then
        let m = (i + j) div 2;
            result = CompareOVSFlow (flows ! nat m) f
        in if result < 0 then findFlowIndex_loop flows f (m + 1) j
           else if result > 0 then findFlowIndex_loop flows f i (m - 1)
           else (m, True)
      else (j + 1, False))"
  by pat_completeness auto
termination
  by (relation "measure (\<lambda>(flows, f, i, j). nat (j - i + 1))") auto

declare findFlowIndex_loop.simps [simp del]

definition findFlowIndex :: "flow_set \<Rightarrow> flow \<Rightarrow> int \<times> bool" where
  "findFlowIndex fs f = findFlowIndex_loop fs f 0 (int (length fs) - 1)"

text \<open>\<open>append(fs.flows, f); copy(fs.flows[i+1:], fs.flows[i:]); fs.flows[i] = f\<close>, with
  \<open>copy\<close> moving \<open>min\<close> of both lengths.\<close>

definition go_copy_within :: "'a list \<Rightarrow> nat \<Rightarrow> nat \<Rightarrow> 'a list" where
  "go_copy_within xs d s =
     (let n = min (length xs - d) (length xs - s)
      in take d xs @ take n (drop s xs) @ drop (d + n) xs)"

definition Add :: "flow_set \<Rightarrow> flow \<Rightarrow> flow_set \<times> bool" where
  "Add fs f =
     (let (i, find) = findFlowIndex fs f
      in if \<not> find then
           ((go_copy_within (fs @ [f]) (nat i + 1) (nat i))[nat i := f], True)
         else (fs, False))"

definition Remove :: "flow_set \<Rightarrow> flow \<Rightarrow> flow_set \<times> bool" where
  "Remove fs f =
     (let (i, find) = findFlowIndex fs f
      in if find then (take (nat i) fs @ drop (nat i + 1) fs, True) else (fs, False))"

definition Contains :: "flow_set \<Rightarrow> flow \<Rightarrow> bool" where
  "Contains fs f = snd (findFlowIndex fs f)"

fun Merge :: "flow_set \<Rightarrow> flow list \<Rightarrow> flow_set" where
  "Merge fs [] = fs"
| "Merge fs (f # fs1) = Merge (fst (Add fs f)) fs1"

text \<open>\<open>Diff\<close>: the two-index merge loop over \<open>fs0.flows[i:]\<close> and \<open>fs1.flows[j:]\<close>; the
  result is \<open>(flowsAdd, flowsDel)\<close>.\<close>

fun Diff :: "flow_set \<Rightarrow> flow_set \<Rightarrow> flow list \<times> flow list" where
  "Diff (x # xs) (y # ys) =
     (let cmp = CompareOVSFlow x y
      in if cmp < 0 then let (a, d) = Diff xs (y # ys) in (a, x # d)
         else if cmp > 0 then let (a, d) = Diff (x # xs) ys in (y # a, d)
         else Diff xs ys)"
| "Diff xs [] = ([], xs)"
| "Diff [] ys = (ys, [])"

text \<open>\<open>DumpFlows\<close>, over the vendored \<open>Flow.MarshalText\<close>.\<close>

fun DumpFlows :: "(flow \<Rightarrow> string result) \<Rightarrow> flow_set \<Rightarrow> string result" where
  "DumpFlows marshal [] = Inr ''''"
| "DumpFlows marshal (f # fs) =
     (case marshal f of
        Inl e \<Rightarrow> Inl e
      | Inr strf \<Rightarrow> res_bind (DumpFlows marshal fs) (\<lambda>rest. Inr (strf @ [CHR 10] @ rest)))"

section \<open>The comparison orders flows by a canonical key\<close>

definition strs_key :: "string list \<Rightarrow> nat \<times> string list" where
  "strs_key s = (length s, s)"

lemma strs_key_eq: "strs_key s = strs_key t \<longleftrightarrow> s = t"
  by (auto simp: strs_key_def)

type_synonym flow_key =
  "int \<times> int \<times> int \<times> string \<times> (nat \<times> string list) \<times> (nat \<times> string list) \<times> int \<times> 64 word"

definition flow_key :: "flow \<Rightarrow> flow_key" where
  "flow_key f = (Table f, - Priority f, InPort f, Protocol f,
     strs_key (ovsMatchStrings (Matches f)), strs_key (ovsActionStrings (Actions f)),
     IdleTimeout f, Cookie f)"

lemma cmp_strs_cmp3: "length s1 = length s2 \<Longrightarrow> cmp_strs s1 s2 = cmp3 s1 s2"
  by (induction s1 s2 rule: cmp_strs.induct)
     (auto simp: go_simps cmp3_def Let_def split: if_splits)

lemma cmpOvsMatches_cmp3:
  "cmpOvsMatches m1 m2 = cmp3 (strs_key (ovsMatchStrings m1)) (strs_key (ovsMatchStrings m2))"
  by (auto simp: cmpOvsMatches_def Let_def strs_key_def cmp_strs_cmp3 cmp3_pair cmp3_def)

lemma cmpOvsActions_cmp3:
  "cmpOvsActions m1 m2 = cmp3 (strs_key (ovsActionStrings m1)) (strs_key (ovsActionStrings m2))"
  by (auto simp: cmpOvsActions_def Let_def strs_key_def cmp_strs_cmp3 cmp3_pair cmp3_def)

lemma CompareOVSFlow_key: "CompareOVSFlow f g = cmp3 (flow_key f) (flow_key g)"
  unfolding CompareOVSFlow_def flow_key_def cmpOvsMatches_cmp3 cmpOvsActions_cmp3
    cmp3_pair Let_def go_simps
  by (simp add: cmp3_def)

interpretation flows: keyed_cmp CompareOVSFlow flow_key UNIV
  by unfold_locales (rule CompareOVSFlow_key)

lemmas flow_cmp = flows.cmp_signs [OF UNIV_I UNIV_I]

interpretation strs: keyed_cmp strings_Compare "\<lambda>s. s" UNIV
  by unfold_locales (simp add: go_simps)

text \<open>Two lists of strings sort to the same list exactly if they have the same elements.\<close>

lemma strings_sort_eq_iff:
  "go_sort strings_Compare xs = go_sort strings_Compare ys \<longleftrightarrow> mset xs = mset ys"
proof
  assume "mset xs = mset ys"
  moreover have "sorted (go_sort strings_Compare zs)" for zs
    using strs.sort_sorted [of zs] by simp
  ultimately show "go_sort strings_Compare xs = go_sort strings_Compare ys"
    by (metis mset_go_sort properties_for_sort)
qed (metis mset_go_sort)

section \<open>Correctness of the sorted-slice operations\<close>

definition fs_sorted :: "flow_set \<Rightarrow> bool" where
  "fs_sorted fs \<longleftrightarrow> sorted (map flow_key fs)"

definition fs_strict :: "flow_set \<Rightarrow> bool" where
  "fs_strict fs \<longleftrightarrow> sorted_wrt (<) (map flow_key fs)"

definition fs_keys :: "flow_set \<Rightarrow> flow_key set" where
  "fs_keys fs = flow_key ` set fs"

lemma fs_strict_sorted: "fs_strict fs \<Longrightarrow> fs_sorted fs"
  by (simp add: fs_strict_def fs_sorted_def strict_sorted_iff)

text \<open>What the search loop promises of its result, from any bracket \<open>[i, j]\<close> outside of
  which every flow is known to be smaller or greater.\<close>

definition search_ok :: "flow list \<Rightarrow> flow \<Rightarrow> int \<times> bool \<Rightarrow> bool" where
  "search_ok fs f r \<longleftrightarrow> (case r of
     (m, True) \<Rightarrow> 0 \<le> m \<and> m < int (length fs) \<and> flow_key (fs ! nat m) = flow_key f
   | (p, False) \<Rightarrow> 0 \<le> p \<and> p \<le> int (length fs)
       \<and> (\<forall>x \<in> set (take (nat p) fs). flow_key x < flow_key f)
       \<and> (\<forall>x \<in> set (drop (nat p) fs). flow_key f < flow_key x))"

lemma sorted_take_less:
  assumes "sorted (map g xs)" "m < length xs" "g (xs ! m) < (k :: 'k::linorder)"
  shows "\<forall>x \<in> set (take (Suc m) xs). g x < k"
proof
  fix x assume "x \<in> set (take (Suc m) xs)"
  then obtain i where i: "i \<le> m" "x = xs ! i" using assms(2)
    by (auto simp: in_set_conv_nth less_Suc_eq_le)
  have "g (xs ! i) \<le> g (xs ! m)"
    using sorted_nth_mono [OF assms(1) i(1)] assms(2) i(1) by simp
  with i assms(3) show "g x < k" by auto
qed

lemma sorted_drop_greater:
  assumes "sorted (map g xs)" "m < length xs" "(k :: 'k::linorder) < g (xs ! m)"
  shows "\<forall>x \<in> set (drop m xs). k < g x"
proof
  fix x assume "x \<in> set (drop m xs)"
  then obtain i where "i < length (drop m xs)" "x = drop m xs ! i"
    by (auto simp: in_set_conv_nth)
  then have i: "m + i < length xs" "x = xs ! (m + i)" by auto
  have "g (xs ! m) \<le> g (xs ! (m + i))"
    using sorted_nth_mono [OF assms(1), of m "m + i"] i(1) by simp
  with i assms(3) show "k < g x" by auto
qed

lemma findFlowIndex_loop_ok:
  assumes "sorted (map flow_key fs)" "0 \<le> i" "i \<le> j + 1" "j < int (length fs)"
    and "\<forall>x \<in> set (take (nat i) fs). flow_key x < flow_key f"
    and "\<forall>x \<in> set (drop (nat (j + 1)) fs). flow_key f < flow_key x"
  shows "search_ok fs f (findFlowIndex_loop fs f i j)"
  using assms
proof (induction fs f i j rule: findFlowIndex_loop.induct)
  case (1 fs f i j)
  define m where "m = (i + j) div 2"
  show ?case
  proof (cases "i \<le> j")
    case True
    with "1.prems" have m: "i \<le> m" "m \<le> j" "0 \<le> m" "nat m < length fs"
      by (auto simp: m_def)
    consider "flow_key (fs ! nat m) < flow_key f" | "flow_key f < flow_key (fs ! nat m)"
      | "flow_key (fs ! nat m) = flow_key f" by fastforce
    then show ?thesis
    proof cases
      case 1
      have "\<forall>x \<in> set (take (nat (m + 1)) fs). flow_key x < flow_key f"
        using sorted_take_less [OF "1.prems"(1) m(4) 1] m(3) by (simp add: nat_add_distrib)
      then have "search_ok fs f (findFlowIndex_loop fs f (m + 1) j)"
        using "1.IH"(1) [OF True m_def refl] 1 "1.prems" m by (simp add: flow_cmp)
      with True 1 show ?thesis
        by (simp add: findFlowIndex_loop.simps [of fs f i j] m_def [symmetric] flow_cmp Let_def)
    next
      case 2
      have "\<forall>x \<in> set (drop (nat (m - 1 + 1)) fs). flow_key f < flow_key x"
        using sorted_drop_greater [OF "1.prems"(1) m(4) 2] by simp
      then have "search_ok fs f (findFlowIndex_loop fs f i (m - 1))"
        using "1.IH"(2) [OF True m_def refl] 2 "1.prems" m by (simp add: flow_cmp)
      with True 2 show ?thesis
        by (auto simp: findFlowIndex_loop.simps [of fs f i j] m_def [symmetric] flow_cmp Let_def)
    next
      case 3
      with True m show ?thesis
        by (simp add: findFlowIndex_loop.simps [of fs f i j] m_def [symmetric] flow_cmp Let_def
            search_ok_def)
    qed
  next
    case False
    with "1.prems" have "i = j + 1" by simp
    with "1.prems" show ?thesis
      by (simp add: findFlowIndex_loop.simps [of fs f "j + 1" j] search_ok_def)
  qed
qed

lemma findFlowIndex_ok: "fs_sorted fs \<Longrightarrow> search_ok fs f (findFlowIndex fs f)"
  unfolding findFlowIndex_def fs_sorted_def by (rule findFlowIndex_loop_ok) auto

lemma findFlowIndex_found:
  assumes "fs_sorted fs"
  shows "snd (findFlowIndex fs f) \<longleftrightarrow> flow_key f \<in> fs_keys fs"
proof (cases "findFlowIndex fs f")
  case (Pair i found)
  with findFlowIndex_ok [OF assms, of f] have ok: "search_ok fs f (i, found)" by simp
  show ?thesis
  proof (cases found)
    case True
    with ok have "fs ! nat i \<in> set fs" "flow_key (fs ! nat i) = flow_key f"
      by (auto simp: search_ok_def)
    then have "flow_key f \<in> fs_keys fs" unfolding fs_keys_def by (metis imageI)
    with Pair True show ?thesis by simp
  next
    case False
    have "set fs = set (take (nat i) fs) \<union> set (drop (nat i) fs)"
      by (metis append_take_drop_id set_append)
    with ok False have "\<forall>x \<in> set fs. flow_key x \<noteq> flow_key f"
      by (fastforce simp: search_ok_def)
    with Pair False show ?thesis by (auto simp: fs_keys_def)
  qed
qed

lemma go_copy_insert:
  assumes "i \<le> length fs"
  shows "(go_copy_within (fs @ [f]) (i + 1) i)[i := f] = take i fs @ f # drop i fs"
proof -
  let ?xs = "fs @ [f]"
  have n: "min (length ?xs - (i + 1)) (length ?xs - i) = length fs - i" by simp
  have "go_copy_within ?xs (i + 1) i = take (i + 1) ?xs @ drop i fs"
    using assms by (simp add: go_copy_within_def n)
  also have "take (i + 1) ?xs = take i fs @ [?xs ! i]"
    using assms take_Suc_conv_app_nth [of i ?xs] by simp
  finally show ?thesis
    using assms by (simp add: list_update_append)
qed

text \<open>\<open>Add\<close> in terms of the list: nothing when the key is present, otherwise an insertion at
  the unique place that keeps the order.\<close>

lemma Add_cases:
  assumes "fs_sorted fs"
  obtains (present) "flow_key f \<in> fs_keys fs" "Add fs f = (fs, False)"
  | (inserted) us vs where "flow_key f \<notin> fs_keys fs" "fs = us @ vs"
      "Add fs f = (us @ f # vs, True)"
      "\<forall>x \<in> set us. flow_key x < flow_key f" "\<forall>x \<in> set vs. flow_key f < flow_key x"
proof (cases "findFlowIndex fs f")
  case (Pair i found)
  from findFlowIndex_ok [OF assms, of f] Pair have ok: "search_ok fs f (i, found)" by simp
  from findFlowIndex_found [OF assms, of f] Pair have iff: "found \<longleftrightarrow> flow_key f \<in> fs_keys fs"
    by simp
  show thesis
  proof (cases found)
    case True
    with iff Pair show thesis by (intro present) (auto simp: Add_def)
  next
    case False
    with ok have "nat i \<le> length fs" by (simp add: search_ok_def nat_le_iff)
    from go_copy_insert [OF this, of f] False Pair
    have "Add fs f = (take (nat i) fs @ f # drop (nat i) fs, True)" by (simp add: Add_def)
    with False iff ok show thesis
      by (intro inserted [of "take (nat i) fs" "drop (nat i) fs"]) (auto simp: search_ok_def)
  qed
qed

lemma Remove_cases:
  assumes "fs_sorted fs"
  obtains (absent) "flow_key f \<notin> fs_keys fs" "Remove fs f = (fs, False)"
  | (removed) us x vs where "fs = us @ x # vs" "flow_key x = flow_key f"
      "Remove fs f = (us @ vs, True)"
proof (cases "findFlowIndex fs f")
  case (Pair i found)
  from findFlowIndex_ok [OF assms, of f] Pair have ok: "search_ok fs f (i, found)" by simp
  from findFlowIndex_found [OF assms, of f] Pair have iff: "found \<longleftrightarrow> flow_key f \<in> fs_keys fs"
    by simp
  show thesis
  proof (cases found)
    case True
    with ok have m: "nat i < length fs" "flow_key (fs ! nat i) = flow_key f"
      by (auto simp: search_ok_def)
    with True Pair show thesis
      by (intro removed [of "take (nat i) fs" "fs ! nat i" "drop (nat i + 1) fs"])
         (auto simp: Remove_def id_take_nth_drop [symmetric])
  next
    case False
    with iff Pair show thesis by (intro absent) (auto simp: Remove_def)
  qed
qed

lemma Add_sorted:
  assumes "fs_sorted fs"
  shows "fs_sorted (fst (Add fs f))" "fs_keys (fst (Add fs f)) = insert (flow_key f) (fs_keys fs)"
    "snd (Add fs f) \<longleftrightarrow> flow_key f \<notin> fs_keys fs"
  using assms
  by (cases rule: Add_cases [OF assms, of f];
      force simp: fs_sorted_def fs_keys_def sorted_append less_imp_le)+

lemma Add_strict: "fs_strict fs \<Longrightarrow> fs_strict (fst (Add fs f))"
  by (cases rule: Add_cases [OF fs_strict_sorted, of fs f])
     (auto simp: fs_strict_def sorted_wrt_append)

lemma Remove_strict:
  assumes "fs_strict fs"
  shows "fs_strict (fst (Remove fs f))" "fs_keys (fst (Remove fs f)) = fs_keys fs - {flow_key f}"
    "snd (Remove fs f) \<longleftrightarrow> flow_key f \<in> fs_keys fs"
  using assms
  by (cases rule: Remove_cases [OF fs_strict_sorted [OF assms], of f];
      force simp: fs_strict_def fs_keys_def sorted_wrt_append)+

text \<open>The sorted slice implements the set interface.\<close>

interpretation flow_sets: key_set NewFlowSet "\<lambda>fs f. fst (Add fs f)" "\<lambda>fs f. fst (Remove fs f)"
  Contains flow_key fs_keys fs_strict
  by unfold_locales
     (auto simp: NewFlowSet_def fs_keys_def [of "[]"] fs_strict_def [of "[]"] Contains_def
        Add_sorted Add_strict Remove_strict findFlowIndex_found fs_strict_sorted)

lemma Merge_foldl: "Merge fs fs1 = foldl (\<lambda>fs f. fst (Add fs f)) fs fs1"
  by (induction fs fs1 rule: Merge.induct) auto

lemma Merge_strict:
  "fs_strict fs \<Longrightarrow> fs_strict (Merge fs fs1)"
  "fs_strict fs \<Longrightarrow> fs_keys (Merge fs fs1) = fs_keys fs \<union> fs_keys fs1"
  using flow_sets.add_all [of fs fs1] by (auto simp: Merge_foldl fs_keys_def [of fs1])

lemma NewFlowSetFromList_sorted:
  "fs_sorted (NewFlowSetFromList flows)" "fs_keys (NewFlowSetFromList flows) = fs_keys flows"
  by (simp_all add: NewFlowSetFromList_def fs_sorted_def fs_keys_def flows.sort_sorted)

lemma NewFlowSetFromList_strict:
  "distinct (map flow_key flows) \<Longrightarrow> fs_strict (NewFlowSetFromList flows)"
  by (simp add: NewFlowSetFromList_def fs_strict_def flows.sort_strict)

text \<open>A strictly sorted list is determined by its keys.\<close>

lemma fs_strict_keys_unique:
  assumes "fs_strict fs" "fs_strict fs'" "fs_keys fs = fs_keys fs'"
  shows "map flow_key fs = map flow_key fs'"
  by (rule sorted_distinct_set_unique)
     (use assms in \<open>simp_all add: fs_strict_def fs_keys_def strict_sorted_iff\<close>)

lemma Diff_Cons_less:
  "flow_key x < flow_key y \<Longrightarrow>
   Diff (x # xs) (y # ys) = (fst (Diff xs (y # ys)), x # snd (Diff xs (y # ys)))"
  by (simp add: flow_cmp Let_def case_prod_unfold)

lemma Diff_Cons_greater:
  assumes "flow_key y < flow_key x"
  shows "Diff (x # xs) (y # ys) = (y # fst (Diff (x # xs) ys), snd (Diff (x # xs) ys))"
proof -
  from assms have "\<not> CompareOVSFlow x y < 0" "CompareOVSFlow x y > 0"
    using flow_cmp(1) [of x y] flow_cmp(2) [of x y] by auto
  then show ?thesis by (simp add: Let_def case_prod_unfold del: Diff.simps(2,3))
qed

lemma Diff_Cons_same:
  "flow_key x = flow_key y \<Longrightarrow> Diff (x # xs) (y # ys) = Diff xs ys"
  using flow_cmp(3) [of x y] by simp

lemmas Diff_Cons = Diff_Cons_less Diff_Cons_greater Diff_Cons_same

declare Diff.simps(1) [simp del]

lemma fs_keys_filter: "fs_keys (filter (\<lambda>f. flow_key f \<notin> K) fs) = fs_keys fs - K"
  unfolding fs_keys_def set_filter by blast

lemma fs_keys_filter_in: "fs_keys (filter (\<lambda>f. flow_key f \<in> K) fs) = fs_keys fs \<inter> K"
  unfolding fs_keys_def set_filter by blast

lemma filter_keys_Nil: "fs_keys fs \<subseteq> K \<Longrightarrow> filter (\<lambda>f. flow_key f \<notin> K) fs = []"
  by (auto simp: filter_empty_conv fs_keys_def)

lemma Diff_filter:
  assumes "fs_strict fs0" "fs_strict fs1"
  shows "Diff fs0 fs1 = (filter (\<lambda>f. flow_key f \<notin> fs_keys fs0) fs1,
                         filter (\<lambda>f. flow_key f \<notin> fs_keys fs1) fs0)"
  using assms
proof (induction fs0 fs1 rule: Diff.induct)
  case (1 x xs y ys)
  from "1.prems" have strict: "fs_strict xs" "fs_strict ys"
    "\<forall>z \<in> set xs. flow_key x < flow_key z" "\<forall>z \<in> set ys. flow_key y < flow_key z"
    by (auto simp: fs_strict_def)
  consider (less) "flow_key x < flow_key y" | (greater) "flow_key y < flow_key x"
    | (same) "flow_key x = flow_key y" by fastforce
  then show ?case
  proof cases
    case less
    with "1.IH"(1) [OF refl] "1.prems" strict
    have "Diff xs (y # ys) = (filter (\<lambda>f. flow_key f \<notin> fs_keys xs) (y # ys),
        filter (\<lambda>f. flow_key f \<notin> fs_keys (y # ys)) xs)"
      by (simp add: flow_cmp)
    moreover have "flow_key x \<notin> fs_keys (y # ys)"
      using less strict by (force simp: fs_keys_def)
    moreover have "filter (\<lambda>f. flow_key f \<notin> fs_keys xs) (y # ys)
        = filter (\<lambda>f. flow_key f \<notin> fs_keys (x # xs)) (y # ys)"
      using less strict by (intro filter_cong) (force simp: fs_keys_def)+
    ultimately show ?thesis by (simp add: Diff_Cons less)
  next
    case greater
    with "1.IH"(2) [OF refl] "1.prems" strict
    have "Diff (x # xs) ys = (filter (\<lambda>f. flow_key f \<notin> fs_keys (x # xs)) ys,
        filter (\<lambda>f. flow_key f \<notin> fs_keys ys) (x # xs))"
      by (force simp: flow_cmp)
    moreover have "flow_key y \<notin> fs_keys (x # xs)"
      using greater strict by (force simp: fs_keys_def)
    moreover have "filter (\<lambda>f. flow_key f \<notin> fs_keys ys) (x # xs)
        = filter (\<lambda>f. flow_key f \<notin> fs_keys (y # ys)) (x # xs)"
      using greater strict by (intro filter_cong) (force simp: fs_keys_def)+
    ultimately show ?thesis by (simp add: Diff_Cons greater)
  next
    case same
    with "1.IH"(3) [OF refl] strict
    have "Diff xs ys = (filter (\<lambda>f. flow_key f \<notin> fs_keys xs) ys,
        filter (\<lambda>f. flow_key f \<notin> fs_keys ys) xs)"
      by (simp add: flow_cmp)
    moreover have "filter (\<lambda>f. flow_key f \<notin> fs_keys xs) ys
        = filter (\<lambda>f. flow_key f \<notin> fs_keys (x # xs)) ys"
      using same strict by (intro filter_cong) (force simp: fs_keys_def)+
    moreover have "filter (\<lambda>f. flow_key f \<notin> fs_keys ys) xs
        = filter (\<lambda>f. flow_key f \<notin> fs_keys (y # ys)) xs"
      using same strict by (intro filter_cong) (force simp: fs_keys_def)+
    ultimately show ?thesis by (simp add: Diff_Cons same fs_keys_def)
  qed
qed (auto simp: fs_keys_def)

lemma Diff_set:
  assumes "fs_strict fs0" "fs_strict fs1"
  shows "fs_keys (fst (Diff fs0 fs1)) = fs_keys fs1 - fs_keys fs0"
    "fs_keys (snd (Diff fs0 fs1)) = fs_keys fs0 - fs_keys fs1"
    "set (fst (Diff fs0 fs1)) \<subseteq> set fs1" "set (snd (Diff fs0 fs1)) \<subseteq> set fs0"
  unfolding Diff_filter [OF assms] fst_conv snd_conv fs_keys_filter by (rule refl | simp)+

section \<open>The properties of flow sets\<close>

text \<open>Three flows in increasing order, the last two in the same table.\<close>

definition demo_flow :: "int \<Rightarrow> int \<Rightarrow> flow" where
  "demo_flow t p = \<lparr>Priority = p, Protocol = ''ip'', InPort = 0, Matches = [], Table = t,
     IdleTimeout = 0, Cookie = 0, Actions = []\<rparr>"

lemma demo_strict: "fs_strict [demo_flow 0 5, demo_flow 1 9, demo_flow 1 3]"
  by (simp add: fs_strict_def demo_flow_def flow_key_def)

text \<open>C4: \<open>CompareOVSFlow\<close> is a total preorder: antisymmetric in its sign and transitive; and
  two flows compare equal exactly if they agree on table, priority, port, protocol, idle
  timeout and cookie, on the multiset of their match strings without the match-all ones, and on
  the sequence of their non-empty action strings.\<close>

theorem CompareOVSFlow_order:
  "CompareOVSFlow f g = - CompareOVSFlow g f \<and>
   (CompareOVSFlow f g \<le> 0 \<and> CompareOVSFlow g h \<le> 0 \<longrightarrow> CompareOVSFlow f h \<le> 0) \<and>
   (CompareOVSFlow f g = 0 \<longleftrightarrow>
      Table f = Table g \<and> Priority f = Priority g \<and> InPort f = InPort g
      \<and> Protocol f = Protocol g \<and> IdleTimeout f = IdleTimeout g \<and> Cookie f = Cookie g
      \<and> mset (filter (\<lambda>s. s \<noteq> '''') (map ovsMatchString (Matches f)))
        = mset (filter (\<lambda>s. s \<noteq> '''') (map ovsMatchString (Matches g)))
      \<and> ovsActionStrings (Actions f) = ovsActionStrings (Actions g))"
proof -
  have "ovsMatchStrings m = ovsMatchStrings m' \<longleftrightarrow>
      mset (filter (\<lambda>s. s \<noteq> '''') (map ovsMatchString m)) =
      mset (filter (\<lambda>s. s \<noteq> '''') (map ovsMatchString m'))" for m m'
    unfolding ovsMatchStrings_def length_greater_0_conv by (rule strings_sort_eq_iff)
  then have "flow_key f = flow_key g \<longleftrightarrow>
      Table f = Table g \<and> Priority f = Priority g \<and> InPort f = InPort g
      \<and> Protocol f = Protocol g \<and> IdleTimeout f = IdleTimeout g \<and> Cookie f = Cookie g
      \<and> mset (filter (\<lambda>s. s \<noteq> '''') (map ovsMatchString (Matches f)))
        = mset (filter (\<lambda>s. s \<noteq> '''') (map ovsMatchString (Matches g)))
      \<and> ovsActionStrings (Actions f) = ovsActionStrings (Actions g)"
    by (auto simp: flow_key_def strs_key_eq)
  moreover have "CompareOVSFlow f g = - CompareOVSFlow g f"
    unfolding CompareOVSFlow_key by (auto simp: cmp3_def dest: less_asym)
  moreover have "CompareOVSFlow f g \<le> 0 \<and> CompareOVSFlow g h \<le> 0 \<longrightarrow> CompareOVSFlow f h \<le> 0"
    unfolding CompareOVSFlow_key cmp3_simps by (blast intro: order_trans)
  ultimately show ?thesis unfolding flow_cmp(3) by blast
qed

theorem CompareOVSFlow_order_witness:
  "CompareOVSFlow (demo_flow 0 5) (demo_flow 1 9) \<le> 0 \<and>
   CompareOVSFlow (demo_flow 1 9) (demo_flow 1 3) \<le> 0 \<and>
   CompareOVSFlow (demo_flow 0 5) (demo_flow 1 3) \<le> 0"
proof -
  have "CompareOVSFlow (demo_flow 0 5) (demo_flow 1 9) \<le> 0"
    "CompareOVSFlow (demo_flow 1 9) (demo_flow 1 3) \<le> 0"
    by (simp_all add: CompareOVSFlow_def demo_flow_def)
  with CompareOVSFlow_order [of "demo_flow 0 5" "demo_flow 1 9" "demo_flow 1 3"] show ?thesis by blast
qed

text \<open>C2: the operations of a sorted flow slice are the set operations: \<open>Contains\<close> decides
  membership, \<open>Add\<close> inserts and reports whether the flow is new, \<open>Remove\<close> deletes and reports
  whether it was there; both keep the slice strictly sorted.\<close>

theorem FlowSet_is_set:
  assumes "fs_strict fs"
  shows "(Contains fs f \<longleftrightarrow> flow_key f \<in> fs_keys fs)
    \<and> fs_strict (fst (Add fs f)) \<and> fs_keys (fst (Add fs f)) = insert (flow_key f) (fs_keys fs)
    \<and> (snd (Add fs f) \<longleftrightarrow> flow_key f \<notin> fs_keys fs)
    \<and> fs_strict (fst (Remove fs f)) \<and> fs_keys (fst (Remove fs f)) = fs_keys fs - {flow_key f}
    \<and> (snd (Remove fs f) \<longleftrightarrow> flow_key f \<in> fs_keys fs)
    \<and> (Contains (fst (Add fs g)) f \<longleftrightarrow> OVSFlowEqual g f \<or> Contains fs f)
    \<and> (Contains (fst (Remove fs g)) f \<longleftrightarrow> \<not> OVSFlowEqual g f \<and> Contains fs f)"
  using flow_sets.contains_keys [OF assms, of f] flow_sets.contains_add [OF assms, of g f]
    flow_sets.contains_remove [OF assms, of g f]
  by (simp add: assms Add_strict Add_sorted fs_strict_sorted Remove_strict OVSFlowEqual_def flow_cmp)

theorem FlowSet_is_set_witness:
  "(Contains [demo_flow 0 5, demo_flow 1 9, demo_flow 1 3] (demo_flow 1 9) \<longleftrightarrow>
      flow_key (demo_flow 1 9) \<in> fs_keys [demo_flow 0 5, demo_flow 1 9, demo_flow 1 3])"
  using FlowSet_is_set [OF demo_strict, of "demo_flow 1 9"] by blast

text \<open>C3: \<open>Diff\<close> of two strictly sorted sets is the smallest patch from the first to the
  second: it deletes only flows of the first that the second lacks, adds only flows of the
  second that the first lacks, and applying it gives the flows of the second.\<close>

theorem Diff_minimal_patch:
  assumes "fs_strict fs0" "fs_strict fs1" "Diff fs0 fs1 = (flowsAdd, flowsDel)"
  shows "set flowsAdd \<subseteq> set fs1 \<and> set flowsDel \<subseteq> set fs0
    \<and> fs_keys flowsAdd \<inter> fs_keys fs0 = {} \<and> fs_keys flowsDel \<inter> fs_keys fs1 = {}
    \<and> (fs_keys fs0 - fs_keys flowsDel) \<union> fs_keys flowsAdd = fs_keys fs1
    \<and> fs_strict flowsAdd \<and> fs_strict flowsDel"
proof -
  have "sorted_wrt (<) (map flow_key (filter P fs))" if "sorted_wrt (<) (map flow_key fs)" for P fs
    using that by (simp add: sorted_wrt_map sorted_wrt_filter)
  then have "fs_strict flowsAdd" "fs_strict flowsDel"
    using assms Diff_filter [OF assms(1,2)] by (auto simp: fs_strict_def)
  with Diff_set [OF assms(1,2)] assms(3) show ?thesis by auto
qed

theorem Diff_minimal_patch_witness:
  "set [demo_flow 1 9] \<subseteq> set [demo_flow 0 5, demo_flow 1 9, demo_flow 1 3]
    \<and> set [demo_flow 2 0] \<subseteq> set [demo_flow 0 5, demo_flow 1 3, demo_flow 2 0]
    \<and> fs_keys [demo_flow 1 9] \<inter> fs_keys [demo_flow 0 5, demo_flow 1 3, demo_flow 2 0] = {}
    \<and> fs_keys [demo_flow 2 0] \<inter> fs_keys [demo_flow 0 5, demo_flow 1 9, demo_flow 1 3] = {}
    \<and> (fs_keys [demo_flow 0 5, demo_flow 1 3, demo_flow 2 0] - fs_keys [demo_flow 2 0])
        \<union> fs_keys [demo_flow 1 9] = fs_keys [demo_flow 0 5, demo_flow 1 9, demo_flow 1 3]
    \<and> fs_strict [demo_flow 1 9] \<and> fs_strict [demo_flow 2 0]"
proof (rule Diff_minimal_patch)
  show "fs_strict [demo_flow 0 5, demo_flow 1 3, demo_flow 2 0]"
    "fs_strict [demo_flow 0 5, demo_flow 1 9, demo_flow 1 3]"
    by (simp_all add: fs_strict_def demo_flow_def flow_key_def)
  show "Diff [demo_flow 0 5, demo_flow 1 3, demo_flow 2 0]
      [demo_flow 0 5, demo_flow 1 9, demo_flow 1 3] = ([demo_flow 1 9], [demo_flow 2 0])"
    by (simp add: Diff_Cons demo_flow_def flow_key_def)
qed

end
