(* ===== verification/FlowMan.thy ===== *)
theory FlowMan
  imports FlowSet
begin

text \<open>
  The flow manager of a bridge, \<open>pkg/agent/server/flowman.go\<close>.  It keeps one flow set per
  client ("who"), merges them, compares the merge with the flows the switch has, and commits
  the difference as one bundle.

  The switch and the vendored \<open>go-openvswitch\<close> client are parameters: a record
  \<open>ovs_cli\<close> of the calls the manager makes, over a type \<open>'w\<close> of switch states.  What the
  convergence theorem relies on is the named hypothesis \<open>ovs_bundle_spec\<close>.
\<close>

section \<open>State\<close>

definition THEMAN :: string where "THEMAN = ''THEman''"

definition FAILSAFE :: string where "FAILSAFE = ''failSAFE''"

text \<open>
  A \<open>time.Timer\<close>: running; expired with its value not received yet; expired with the value
  received.
\<close>

datatype timer = Running | Expired | Drained

datatype flowManCmd =
    AddFlowCmd flow
  | DelFlowCmd flow
  | SyncFlowsCmd
  | UpdateFlowsCmd string "flow list"

record flow_man =
  bridge :: string
  flowSets :: "(string, flow_set) gomap"
  idleTimer :: timer
  waitCount :: "32 word"

record ('w, 'mf) ovs_cli =
  DbSockExists :: "'w \<Rightarrow> bool"
  DumpBridgeFlows :: "'w \<Rightarrow> string \<Rightarrow> flow list result"
  MatchFlowStrict :: "flow \<Rightarrow> 'mf"
  AddFlowBundle :: "'w \<Rightarrow> string \<Rightarrow> ('mf \<times> 64 word) list \<Rightarrow> flow list \<Rightarrow> 'w \<times> unit result"

section \<open>Operations\<close>

definition excludeOvsTables :: "int list" where
  "excludeOvsTables = [10, 12]"

text \<open>\<open>log.Fatalf\<close> ends the process: a panic of the model.\<close>

definition doDumpFlows ::
  "('w, 'mf) ovs_cli \<Rightarrow> 'w \<Rightarrow> flow_man \<Rightarrow> int list \<Rightarrow> flow_set result" where
  "doDumpFlows cli w fm excl =
     (if \<not> DbSockExists cli w then Inl (Panic ''/var/run/openvswitch/db.sock not exists!'')
      else res_bind (DumpBridgeFlows cli w (bridge fm))
        (\<lambda>flows. Inr (NewFlowSetFromList
           (filter (\<lambda>f. \<not> (length excl > 0 \<and> Table f \<in> set excl)) flows))))"

definition mergeFlows :: "flow_man \<Rightarrow> flow_set" where
  "mergeFlows fm = foldl (\<lambda>merge kv. Merge merge (snd kv)) NewFlowSet (flowSets fm)"

definition doCommitChange ::
  "('w, 'mf) ovs_cli \<Rightarrow> 'w \<Rightarrow> flow_man \<Rightarrow> flow list \<Rightarrow> flow list \<Rightarrow> 'w \<times> unit result" where
  "doCommitChange cli w fm flowsAdd flowsDel =
     AddFlowBundle cli w (bridge fm)
       (map (\<lambda>f. (MatchFlowStrict cli f, - 1)) flowsDel) flowsAdd"

text \<open>\<open>doCheck\<close> logs the errors of its calls and returns; only the process exit of
  \<open>doDumpFlows\<close> is visible to the caller.\<close>

definition doCheck :: "('w, 'mf) ovs_cli \<Rightarrow> 'w \<Rightarrow> flow_man \<Rightarrow> 'w result" where
  "doCheck cli w fm =
     (if waitCount fm \<noteq> 0 then Inr w
      else case doDumpFlows cli w fm excludeOvsTables of
        Inl (Panic e) \<Rightarrow> Inl (Panic e)
      | Inl (Err e) \<Rightarrow> Inr w
      | Inr fs0 \<Rightarrow>
          let merged = mergeFlows fm;
              (flowsAdd, flowsDel) = Diff fs0 merged
          in Inr (fst (doCommitChange cli w fm flowsAdd flowsDel)))"

text \<open>\<open>scheduleIdleCheck\<close>: the module's Go version is 1.24, where \<open>Stop\<close> discards a value that
  was not received yet and reports false only for a timer whose value was received;
  \<open><-idleTimer.C\<close> then has no value to receive and blocks the goroutine for good
  (\<open>None\<close>).\<close>

definition scheduleIdleCheck :: "bool \<Rightarrow> flow_man \<Rightarrow> flow_man option" where
  "scheduleIdleCheck drain fm =
     (case idleTimer fm of
        Running \<Rightarrow> Some (fm\<lparr>idleTimer := Running\<rparr>)
      | Expired \<Rightarrow> Some (fm\<lparr>idleTimer := Running\<rparr>)
      | Drained \<Rightarrow> if drain then None else Some (fm\<lparr>idleTimer := Running\<rparr>))"

text \<open>The result of one turn of the loop: the new manager and switch; the loop left by
  \<open>goto out\<close>; a process exit (\<open>log.Fatalf\<close> or a nil dereference); or a goroutine blocked for
  good.\<close>

datatype 'w outcome = Done flow_man 'w | Stopped 'w | Exit string | Blocked

definition check_and_schedule ::
  "('w, 'mf) ovs_cli \<Rightarrow> bool \<Rightarrow> 'w \<Rightarrow> flow_man \<Rightarrow> 'w outcome" where
  "check_and_schedule cli drain w fm =
     (case doCheck cli w fm of
        Inl (Panic e) \<Rightarrow> Exit e
      | Inl (Err e) \<Rightarrow> Exit e
      | Inr w' \<Rightarrow>
          (case scheduleIdleCheck drain fm of None \<Rightarrow> Blocked | Some fm' \<Rightarrow> Done fm' w'))"

fun doCmd :: "('w, 'mf) ovs_cli \<Rightarrow> 'w \<Rightarrow> flow_man \<Rightarrow> flowManCmd \<Rightarrow> 'w outcome" where
  "doCmd cli w fm (AddFlowCmd f) =
     (case gm_get (flowSets fm) THEMAN of
        None \<Rightarrow> Exit ''nil pointer dereference''
      | Some fs \<Rightarrow> Done (fm\<lparr>flowSets := gm_set (flowSets fm) THEMAN (fst (Add fs f))\<rparr>) w)"
| "doCmd cli w fm (DelFlowCmd f) =
     (case gm_get (flowSets fm) THEMAN of
        None \<Rightarrow> Exit ''nil pointer dereference''
      | Some fs \<Rightarrow> Done (fm\<lparr>flowSets := gm_set (flowSets fm) THEMAN (fst (Remove fs f))\<rparr>) w)"
| "doCmd cli w fm SyncFlowsCmd = check_and_schedule cli True w fm"
| "doCmd cli w fm (UpdateFlowsCmd who flows) =
     check_and_schedule cli True w
       (fm\<lparr>flowSets := gm_set (flowSets fm) who (NewFlowSetFromList flows)\<rparr>)"

text \<open>\<open>failsafeInit\<close>; \<open>F\<close> is the flow constructor of \<open>flowsource.go\<close>, which goes through
  the vendored parser and is passed in.\<close>

definition failsafeInit :: "(int \<Rightarrow> int \<Rightarrow> string \<Rightarrow> string \<Rightarrow> flow) \<Rightarrow> flow_man \<Rightarrow> flow_man" where
  "failsafeInit F fm =
     fm\<lparr>flowSets := gm_set (flowSets fm) FAILSAFE (NewFlowSetFromList [F 0 0 '''' ''normal''])\<rparr>"

text \<open>\<open>NewFlowMan\<close>; \<open>bridge_exists\<close> stands for \<open>ovsCli.Get.Bridge\<close>.  The timer is created
  by \<open>Start\<close>.\<close>

definition NewFlowMan :: "(string \<Rightarrow> unit result) \<Rightarrow> string \<Rightarrow> flow_man result" where
  "NewFlowMan bridge_exists br =
     (if length br = 0 then Inl (Err ''bridge name is empty'')
      else res_bind (bridge_exists br)
        (\<lambda>_. Inr \<lparr>bridge = br, flowSets = [(THEMAN, NewFlowSet), (FAILSAFE, NewFlowSet)],
                  idleTimer = Running, waitCount = 0\<rparr>))"

text \<open>
  One turn of the loop of \<open>Start\<close>: a command arrives, the command channel is closed, the
  timer value is received (then the check runs and the timer is reset without draining), or
  the context is cancelled (a last check, then the loop ends).  \<open>TimerExpire\<close> is not a turn:
  the timer expires by itself between turns.
\<close>

datatype fm_event = Cmd flowManCmd | CmdClosed | TimerRecv | CtxDone | TimerExpire

definition fm_turn :: "('w, 'mf) ovs_cli \<Rightarrow> 'w \<Rightarrow> flow_man \<Rightarrow> fm_event \<Rightarrow> 'w outcome option" where
  "fm_turn cli w fm ev =
     (case ev of
        Cmd c \<Rightarrow> Some (doCmd cli w fm c)
      | CmdClosed \<Rightarrow> Some (Stopped w)
      | CtxDone \<Rightarrow> Some (case doCheck cli w fm of
            Inl (Panic e) \<Rightarrow> Exit e | Inl (Err e) \<Rightarrow> Exit e | Inr w' \<Rightarrow> Stopped w')
      | TimerRecv \<Rightarrow>
          if idleTimer fm = Expired
          then Some (check_and_schedule cli False w (fm\<lparr>idleTimer := Drained\<rparr>)) else None
      | TimerExpire \<Rightarrow>
          if idleTimer fm = Running then Some (Done (fm\<lparr>idleTimer := Expired\<rparr>) w) else None)"

text \<open>
  \<open>updateFlows\<close> of a caller inside \<open>withWait\<close>: it counts the update per bridge in the
  wait data and raises the wait count, which \<open>waitDecr\<close> lowers again at the end.  The command
  itself is returned.
\<close>

definition updateFlows ::
  "flow_man \<Rightarrow> (string, 32 word) gomap option \<Rightarrow> string \<Rightarrow> flow list
   \<Rightarrow> flow_man \<times> (string, 32 word) gomap option \<times> flowManCmd" where
  "updateFlows fm waitData who ofs =
     (case waitData of
        None \<Rightarrow> (fm, None, UpdateFlowsCmd who ofs)
      | Some wdm \<Rightarrow>
          (fm\<lparr>waitCount := waitCount fm + 1\<rparr>,
           Some (case gm_get wdm (bridge fm) of
                   None \<Rightarrow> gm_set wdm (bridge fm) 1
                 | Some c \<Rightarrow> gm_set wdm (bridge fm) (c + 1)),
           UpdateFlowsCmd who ofs))"

definition waitDecr :: "flow_man \<Rightarrow> 32 word \<Rightarrow> flow_man" where
  "waitDecr fm n = fm\<lparr>waitCount := waitCount fm - n\<rparr>"

section \<open>Merging\<close>

lemma mergeFlows_foldl:
  "mergeFlows fm = foldl (foldl (\<lambda>fs f. fst (Add fs f))) NewFlowSet (map snd (flowSets fm))"
  by (simp add: mergeFlows_def Merge_foldl foldl_map)

lemma mergeFlows_strict: "fs_strict (mergeFlows fm)"
  and mergeFlows_keys: "fs_keys (mergeFlows fm) = (\<Union>fs\<in>snd ` set (flowSets fm). fs_keys fs)"
  using flow_sets.add_all_lists [of "map snd (flowSets fm)"]
  by (simp_all add: mergeFlows_foldl) (simp add: fs_keys_def image_UN)

lemma OVSFlowEqual_key: "OVSFlowEqual = (\<lambda>f g. flow_key f = flow_key g)"
  by (simp add: fun_eq_iff OVSFlowEqual_def flow_cmp)

text \<open>Flows that differ in their table only, for the examples.\<close>

definition ex_flow :: "int \<Rightarrow> flow" where
  "ex_flow t = \<lparr>Priority = 100, Protocol = '''', InPort = 0, Matches = [], Table = t,
     IdleTimeout = 0, Cookie = 0, Actions = [\<lparr>MarshalText = Some ''drop'', GoString = ''''\<rparr>]\<rparr>"

text \<open>The merge of the flow sets does not depend on the order in which the \<open>range\<close> loop
  visits the map of clients: any two orders give flow lists that agree flow by flow up to
  the comparison.\<close>

theorem mergeFlows_order_independent:
  assumes "mset (flowSets fm) = mset (flowSets fm')"
  shows "list_all2 OVSFlowEqual (mergeFlows fm) (mergeFlows fm')"
proof -
  have "fs_keys (mergeFlows fm) = fs_keys (mergeFlows fm')"
    unfolding mergeFlows_keys using mset_eq_setD [OF assms] by simp
  then have "map flow_key (mergeFlows fm) = map flow_key (mergeFlows fm')"
    by (intro fs_strict_keys_unique mergeFlows_strict)
  then have "list_all2 (=) (map flow_key (mergeFlows fm)) (map flow_key (mergeFlows fm'))"
    by (simp add: list.rel_eq)
  then show ?thesis
    by (simp add: list.rel_map OVSFlowEqual_key)
qed

theorem mergeFlows_order_independent_witness:
  "list_all2 OVSFlowEqual
     (mergeFlows \<lparr>bridge = ''br0'', flowSets = [(''a'', [ex_flow 0]), (''b'', [ex_flow 1])],
        idleTimer = Running, waitCount = 0\<rparr>)
     (mergeFlows \<lparr>bridge = ''br0'', flowSets = [(''b'', [ex_flow 1]), (''a'', [ex_flow 0])],
        idleTimer = Running, waitCount = 0\<rparr>)"
  by (rule mergeFlows_order_independent) simp

section \<open>Convergence of the check\<close>

text \<open>What identifies a flow inside a switch: adding a flow with the same table, priority and
  match replaces the old one, and a strict deletion removes exactly it.\<close>

definition flow_id :: "flow \<Rightarrow> int \<times> int \<times> int \<times> string \<times> string list" where
  "flow_id f = (Table f, Priority f, InPort f, Protocol f, ovsMatchStrings (Matches f))"

lemma flow_key_id: "flow_key f = flow_key g \<Longrightarrow> flow_id f = flow_id g"
  and flow_key_Table: "flow_key f = flow_key g \<Longrightarrow> Table f = Table g"
  and flow_id_Table: "flow_id f = flow_id g \<Longrightarrow> Table f = Table g"
  by (auto simp: flow_key_def flow_id_def strs_key_def)

text \<open>
  The documented behaviour of a flow bundle with strict deletions: it removes the flows that
  are listed for deletion (they are flows the switch has) and then adds the others, each
  replacing a flow of the same identity; nothing else changes.
\<close>

definition ovs_bundle_spec :: "('w, 'mf) ovs_cli \<Rightarrow> 'w \<Rightarrow> string \<Rightarrow> bool" where
  "ovs_bundle_spec cli w br \<longleftrightarrow>
     (\<forall>fl dels adds w'. DumpBridgeFlows cli w br = Inr fl \<longrightarrow> set dels \<subseteq> set fl \<longrightarrow>
        distinct (map flow_id adds) \<longrightarrow>
        AddFlowBundle cli w br (map (\<lambda>f. (MatchFlowStrict cli f, - 1)) dels) adds = (w', Inr ()) \<longrightarrow>
        DbSockExists cli w' \<and>
        (\<exists>fl'. DumpBridgeFlows cli w' br = Inr fl' \<and> distinct (map flow_id fl') \<and>
           fs_keys fl' = fs_keys (filter (\<lambda>f. flow_id f \<notin> flow_id ` (set dels \<union> set adds)) fl)
                         \<union> fs_keys adds))"

definition managed :: "flow list \<Rightarrow> flow list" where
  "managed fl = filter (\<lambda>f. Table f \<notin> set excludeOvsTables) fl"

definition unmanaged :: "flow list \<Rightarrow> flow list" where
  "unmanaged fl = filter (\<lambda>f. Table f \<in> set excludeOvsTables) fl"

lemma doDumpFlows_managed:
  "DbSockExists cli w \<Longrightarrow> DumpBridgeFlows cli w (bridge fm) = Inr fl \<Longrightarrow>
   doDumpFlows cli w fm excludeOvsTables = Inr (NewFlowSetFromList (managed fl))"
  by (simp add: doDumpFlows_def managed_def excludeOvsTables_def)

lemma distinct_id_key:
  assumes "distinct (map flow_id fl)"
  shows "distinct (map flow_key (managed fl))"
proof -
  have "inj_on flow_id (set fl)" "distinct fl" using assms by (auto simp: distinct_map)
  then have "inj_on flow_key (set fl)" by (meson flow_key_id inj_on_def)
  then have "inj_on flow_key (set (managed fl))" by (auto simp: managed_def inj_on_def)
  with \<open>distinct fl\<close> show ?thesis by (simp add: distinct_map managed_def)
qed

lemma fst_flow_key [simp]: "fst (flow_key f) = Table f"
  by (simp add: flow_key_def)

lemma keys_managed: "fs_keys (managed fl) = {k \<in> fs_keys fl. fst k \<notin> set excludeOvsTables}"
  and keys_unmanaged: "fs_keys (unmanaged fl) = {k \<in> fs_keys fl. fst k \<in> set excludeOvsTables}"
  by (auto simp: fs_keys_def managed_def unmanaged_def)

text \<open>
  The check's difference \<open>(adds, dels)\<close> between the switch's flows \<open>fl\<close> and the merged flows:
  a managed flow survives the bundle exactly if its key is merged, and no flow of an excluded
  table is touched.
\<close>

definition check_diff :: "flow list \<Rightarrow> flow list \<Rightarrow> flow list \<Rightarrow> flow list \<Rightarrow> bool" where
  "check_diff fl merged adds dels \<longleftrightarrow>
     distinct (map flow_id fl) \<and> distinct (map flow_id merged) \<and> fs_strict merged
     \<and> (\<forall>f \<in> set merged. Table f \<notin> set excludeOvsTables)
     \<and> Diff (NewFlowSetFromList (managed fl)) merged = (adds, dels)"

lemma check_diff_parts:
  assumes "check_diff fl merged adds dels"
  shows "adds = filter (\<lambda>f. flow_key f \<notin> fs_keys (managed fl)) merged"
  "set dels = {f \<in> set (managed fl). flow_key f \<notin> fs_keys merged}"
proof -
  have "fs_strict (NewFlowSetFromList (managed fl))"
    using assms by (simp add: NewFlowSetFromList_strict distinct_id_key check_diff_def)
  from Diff_filter [OF this, of merged] assms
  show "adds = filter (\<lambda>f. flow_key f \<notin> fs_keys (managed fl)) merged"
    "set dels = {f \<in> set (managed fl). flow_key f \<notin> fs_keys merged}"
    by (auto simp: check_diff_def NewFlowSetFromList_sorted) (auto simp: NewFlowSetFromList_def)
qed

lemma check_diff_ids:
  assumes "check_diff fl merged adds dels"
  shows "set dels \<subseteq> set fl" "distinct (map flow_id adds)"
    "inj_on flow_id (set fl)" "inj_on flow_id (set merged)"
  using assms check_diff_parts [OF assms]
  by (auto simp: check_diff_def distinct_map managed_def intro: inj_on_filter_key_eq)
     (auto intro: inj_on_subset)

lemma kept_managed:
  assumes cd: "check_diff fl merged adds dels" and f: "f \<in> set (managed fl)"
  shows "flow_id f \<notin> flow_id ` (set dels \<union> set adds) \<longleftrightarrow> flow_key f \<in> fs_keys merged"
proof
  assume "flow_id f \<notin> flow_id ` (set dels \<union> set adds)"
  then have "f \<notin> set dels" by blast
  with f show "flow_key f \<in> fs_keys merged" by (simp add: check_diff_parts [OF cd])
next
  assume "flow_key f \<in> fs_keys merged"
  then obtain m where m: "m \<in> set merged" "flow_key m = flow_key f" by (auto simp: fs_keys_def)
  have "flow_id f \<noteq> flow_id d" if "d \<in> set dels" for d
  proof
    assume "flow_id f = flow_id d"
    then have "f = d" using f that check_diff_ids(1,3) [OF cd] by (auto simp: inj_on_def managed_def)
    with that \<open>flow_key f \<in> fs_keys merged\<close> show False by (simp add: check_diff_parts [OF cd])
  qed
  moreover have "flow_id f \<noteq> flow_id a" if "a \<in> set adds" for a
  proof
    assume "flow_id f = flow_id a"
    then have "a = m" using flow_key_id [OF m(2)] that m(1) check_diff_ids(4) [OF cd] by (auto simp: check_diff_parts [OF cd] inj_on_def)
    with that f m show False by (auto simp: check_diff_parts [OF cd] fs_keys_def)
  qed
  ultimately show "flow_id f \<notin> flow_id ` (set dels \<union> set adds)" by blast
qed

lemma kept_unmanaged:
  assumes cd: "check_diff fl merged adds dels" and f: "f \<in> set (unmanaged fl)"
  shows "flow_id f \<notin> flow_id ` (set dels \<union> set adds)"
proof
  assume "flow_id f \<in> flow_id ` (set dels \<union> set adds)"
  then obtain g where "g \<in> set dels \<union> set adds" "Table f = Table g" using flow_id_Table by blast
  with f cd show False by (auto simp: check_diff_parts [OF cd] managed_def unmanaged_def check_diff_def)
qed

lemma check_diff_converges:
  assumes cd: "check_diff fl merged adds dels"
    and fl': "fs_keys fl' = fs_keys (filter (\<lambda>f. flow_id f \<notin> flow_id ` (set dels \<union> set adds)) fl)
                            \<union> fs_keys adds"
  shows "fs_keys (managed fl') = fs_keys merged" "fs_keys (unmanaged fl') = fs_keys (unmanaged fl)"
proof -
  let ?keep = "filter (\<lambda>f. flow_id f \<notin> flow_id ` (set dels \<union> set adds)) fl"
  have "\<forall>f \<in> set adds. Table f \<notin> set excludeOvsTables"
    using cd by (auto simp: check_diff_parts [OF cd] check_diff_def)
  then have "managed adds = adds" "unmanaged adds = []"
    by (auto simp: managed_def unmanaged_def filter_id_conv filter_empty_conv)
  moreover have "fs_keys adds = fs_keys merged - fs_keys (managed fl)"
    unfolding check_diff_parts(1) [OF cd] by (rule fs_keys_filter)
  ultimately have adds: "fs_keys (managed adds) = fs_keys merged - fs_keys (managed fl)"
    "fs_keys (unmanaged adds) = {}"
    by (simp_all add: fs_keys_def [of "[]"])
  have "managed ?keep = filter (\<lambda>f. flow_id f \<notin> flow_id ` (set dels \<union> set adds)) (managed fl)"
    by (simp add: managed_def conj_commute)
  also have "\<dots> = filter (\<lambda>f. flow_key f \<in> fs_keys merged) (managed fl)"
    by (intro filter_cong refl kept_managed [OF cd])
  finally have "fs_keys (managed ?keep) = fs_keys (managed fl) \<inter> fs_keys merged"
    by (simp only: fs_keys_filter_in)
  moreover have "fs_keys (managed fl') = fs_keys (managed ?keep) \<union> fs_keys (managed adds)"
    by (auto simp: keys_managed fl')
  ultimately show "fs_keys (managed fl') = fs_keys merged" using adds by auto
  have "unmanaged ?keep = unmanaged fl"
    using kept_unmanaged [OF cd] by (auto simp: unmanaged_def intro!: filter_cong)
  moreover have "fs_keys (unmanaged fl') = fs_keys (unmanaged ?keep) \<union> fs_keys (unmanaged adds)"
    by (auto simp: keys_unmanaged fl')
  ultimately show "fs_keys (unmanaged fl') = fs_keys (unmanaged fl)" using adds by simp
qed

text \<open>After a bundle that took effect, the next check finds nothing to do.\<close>

lemma next_diff_empty:
  assumes "distinct (map flow_id fl)" "fs_strict merged" "fs_keys (managed fl) = fs_keys merged"
  shows "Diff (NewFlowSetFromList (managed fl)) merged = ([], [])"
proof -
  have "fs_strict (NewFlowSetFromList (managed fl))"
    by (simp add: NewFlowSetFromList_strict distinct_id_key assms)
  from Diff_filter [OF this assms(2)] show ?thesis
    by (simp add: NewFlowSetFromList_sorted assms(3) filter_keys_Nil)
qed

lemma doCheck_switch:
  assumes "waitCount fm = 0" "DbSockExists cli w"
    and dump: "DumpBridgeFlows cli w (bridge fm) = Inr fl" "distinct (map flow_id fl)"
    and merged: "distinct (map flow_id (mergeFlows fm))"
      "\<forall>f \<in> set (mergeFlows fm). Table f \<notin> set excludeOvsTables"
    and spec: "ovs_bundle_spec cli w (bridge fm)"
    and commit: "\<forall>adds dels. \<exists>w'. doCommitChange cli w fm adds dels = (w', Inr ())"
  shows "\<exists>w' fl'. doCheck cli w fm = Inr w' \<and> DumpBridgeFlows cli w' (bridge fm) = Inr fl'
      \<and> fs_keys (managed fl') = fs_keys (mergeFlows fm)
      \<and> fs_keys (unmanaged fl') = fs_keys (unmanaged fl)
      \<and> Diff (NewFlowSetFromList (managed fl')) (mergeFlows fm) = ([], [])"
proof -
  obtain adds dels where diff: "Diff (NewFlowSetFromList (managed fl)) (mergeFlows fm) = (adds, dels)"
    by fastforce
  with merged dump have cd: "check_diff fl (mergeFlows fm) adds dels"
    by (simp add: check_diff_def mergeFlows_strict)
  from commit obtain w' where w': "doCommitChange cli w fm adds dels = (w', Inr ())" by blast
  with spec dump check_diff_ids [OF cd] obtain fl' where fl':
    "DumpBridgeFlows cli w' (bridge fm) = Inr fl'" "distinct (map flow_id fl')"
    "fs_keys fl' = fs_keys (filter (\<lambda>f. flow_id f \<notin> flow_id ` (set dels \<union> set adds)) fl)
                   \<union> fs_keys adds"
    unfolding ovs_bundle_spec_def doCommitChange_def by blast
  have "doCheck cli w fm = Inr w'"
    using assms(1,2) dump(1) diff w' by (simp add: doCheck_def doDumpFlows_managed)
  with fl' check_diff_converges [OF cd fl'(3)] show ?thesis
    by (auto intro!: next_diff_empty mergeFlows_strict)
qed

text \<open>The keys of the merge by client, and what the execution of an update does to the switch.\<close>

lemma mergeFlows_by_client:
  assumes "gm_wf (flowSets fm)"
  shows "fs_keys (mergeFlows fm) = (\<Union>(who, fs)\<in>Map.graph (map_of (flowSets fm)). fs_keys fs)"
proof -
  have "snd ` set (flowSets fm) = snd ` Map.graph (map_of (flowSets fm))"
    using assms by (simp add: gm_wf_def graph_map_of_if_distinct_dom)
  then show ?thesis unfolding mergeFlows_keys by (auto simp: case_prod_beta image_iff)
qed

lemma update_switch:
  fixes fm who flows
  defines "fm1 \<equiv> fm\<lparr>flowSets := gm_set (flowSets fm) who (NewFlowSetFromList flows)\<rparr>"
  assumes "idleTimer fm \<noteq> Drained" "waitCount fm = 0" "DbSockExists cli w"
    and "DumpBridgeFlows cli w (bridge fm) = Inr fl" "distinct (map flow_id fl)"
    and "distinct (map flow_id (mergeFlows fm1))" "\<forall>f \<in> set (mergeFlows fm1). Table f \<notin> set excludeOvsTables"
    and "ovs_bundle_spec cli w (bridge fm)" "\<forall>adds dels. \<exists>w'. doCommitChange cli w fm adds dels = (w', Inr ())"
  shows "\<exists>w' fl'. doCmd cli w fm (UpdateFlowsCmd who flows) = Done (fm1\<lparr>idleTimer := Running\<rparr>) w'
      \<and> DumpBridgeFlows cli w' (bridge fm) = Inr fl'
      \<and> fs_keys (managed fl') = fs_keys (mergeFlows fm1) \<and> fs_keys (unmanaged fl') = fs_keys (unmanaged fl)"
proof -
  have c: "doCommitChange cli w fm1 = doCommitChange cli w fm" by (simp add: fun_eq_iff fm1_def doCommitChange_def)
  have "bridge fm1 = bridge fm" "waitCount fm1 = waitCount fm" by (simp_all add: fm1_def)
  from doCheck_switch [of fm1 cli w fl, unfolded this c] assms(3-) obtain w' fl' where
    w': "doCheck cli w fm1 = Inr w'" "DumpBridgeFlows cli w' (bridge fm) = Inr fl'"
    "fs_keys (managed fl') = fs_keys (mergeFlows fm1)" "fs_keys (unmanaged fl') = fs_keys (unmanaged fl)" by blast
  have "scheduleIdleCheck True fm1 = Some (fm1\<lparr>idleTimer := Running\<rparr>)"
    using assms(2) by (cases "idleTimer fm") (simp_all add: scheduleIdleCheck_def fm1_def)
  with w' show ?thesis by (auto simp: check_and_schedule_def simp flip: fm1_def)
qed

text \<open>C1: convergence of the check.  Let no client be inside \<open>withWait\<close>, the dump succeed,
  the switch honour the bundle contract and accept the bundle, the merged flows have pairwise
  different table/priority/match and none of them be in an excluded table.  Then one check
  leaves the switch with exactly the merged flows in the managed tables, with the flows of the
  excluded tables 10 and 12 as they were, and the next check computes an empty difference.\<close>

theorem doCheck_converges:
  assumes "waitCount fm = 0" "DbSockExists cli w"
    and dump: "DumpBridgeFlows cli w (bridge fm) = Inr fl" "distinct (map flow_id fl)"
    and merged: "distinct (map flow_id (mergeFlows fm))"
      "\<forall>f \<in> set (mergeFlows fm). Table f \<notin> set excludeOvsTables"
    and spec: "ovs_bundle_spec cli w (bridge fm)"
    and commit: "\<forall>adds dels. \<exists>w'. doCommitChange cli w fm adds dels = (w', Inr ())"
  shows "\<exists>w' fl'. doCheck cli w fm = Inr w' \<and> DumpBridgeFlows cli w' (bridge fm) = Inr fl'
      \<and> fs_keys (managed fl') = fs_keys (mergeFlows fm)
      \<and> fs_keys (unmanaged fl') = fs_keys (unmanaged fl)
      \<and> Diff (NewFlowSetFromList (managed fl')) (mergeFlows fm) = ([], [])"
  by (rule doCheck_switch [OF assms])

text \<open>A switch that is the list of its flows, to show that the contract can be met.\<close>

definition list_switch :: "(flow list, int \<times> int \<times> int \<times> string \<times> string list) ovs_cli" where
  "list_switch = \<lparr>DbSockExists = \<lambda>w. True, DumpBridgeFlows = \<lambda>w br. Inr w,
     MatchFlowStrict = flow_id,
     AddFlowBundle = \<lambda>w br mfs adds.
       (filter (\<lambda>f. flow_id f \<notin> fst ` set mfs \<union> flow_id ` set adds) w @ adds, Inr ())\<rparr>"

lemma list_switch_spec: "distinct (map flow_id w) \<Longrightarrow> ovs_bundle_spec list_switch w br"
  unfolding ovs_bundle_spec_def list_switch_def
  by (auto simp: image_image image_Un fs_keys_def distinct_map_filter) (metis image_eqI)

definition ex_man :: flow_man where
  "ex_man = \<lparr>bridge = ''br0'', flowSets = [(''a'', [ex_flow 0]), (''b'', [ex_flow 1])],
     idleTimer = Running, waitCount = 0\<rparr>"

theorem doCheck_converges_witness:
  "\<exists>w' fl'. doCheck list_switch [ex_flow 1, ex_flow 2, ex_flow 10] ex_man = Inr w'
      \<and> DumpBridgeFlows list_switch w' (bridge ex_man) = Inr fl'
      \<and> fs_keys (managed fl') = fs_keys (mergeFlows ex_man)
      \<and> fs_keys (unmanaged fl') = fs_keys (unmanaged [ex_flow 1, ex_flow 2, ex_flow 10])
      \<and> Diff (NewFlowSetFromList (managed fl')) (mergeFlows ex_man) = ([], [])"
proof (rule doCheck_converges)
  show "waitCount ex_man = 0" by (simp add: ex_man_def)
  show "DbSockExists list_switch [ex_flow 1, ex_flow 2, ex_flow 10]"
    "DumpBridgeFlows list_switch [ex_flow 1, ex_flow 2, ex_flow 10] (bridge ex_man)
       = Inr [ex_flow 1, ex_flow 2, ex_flow 10]"
    "\<forall>adds dels. \<exists>w'. doCommitChange list_switch [ex_flow 1, ex_flow 2, ex_flow 10] ex_man adds dels
       = (w', Inr ())"
    by (simp_all add: list_switch_def doCommitChange_def)
  show "distinct (map flow_id [ex_flow 1, ex_flow 2, ex_flow 10])"
    by (simp add: ex_flow_def flow_id_def)
  then show "ovs_bundle_spec list_switch [ex_flow 1, ex_flow 2, ex_flow 10] (bridge ex_man)"
    by (rule list_switch_spec)
  show "distinct (map flow_id (mergeFlows ex_man))"
    "\<forall>f \<in> set (mergeFlows ex_man). Table f \<notin> set excludeOvsTables"
    by code_simp+
qed

text \<open>A flow that a client asks for in an excluded table is never seen as present: as long
  as it is in the merge, every check whose dump succeeds adds it again, whatever the switch
  has.\<close>

theorem excluded_flow_added_forever:
  assumes "DbSockExists cli w" "DumpBridgeFlows cli w (bridge fm) = Inr fl"
    and "distinct (map flow_id fl)"
    and "f \<in> set (mergeFlows fm)" "Table f \<in> set excludeOvsTables"
  shows "\<exists>fs0. doDumpFlows cli w fm excludeOvsTables = Inr fs0
               \<and> f \<in> set (fst (Diff fs0 (mergeFlows fm)))"
proof -
  let ?fs0 = "NewFlowSetFromList (managed fl)"
  have "fs_strict ?fs0" by (simp add: NewFlowSetFromList_strict distinct_id_key assms)
  moreover have "flow_key f \<notin> fs_keys ?fs0"
    using assms(5) fst_flow_key [of f] by (auto simp: NewFlowSetFromList_sorted keys_managed)
  ultimately have "f \<in> set (fst (Diff ?fs0 (mergeFlows fm)))"
    using assms(4) by (simp add: Diff_filter mergeFlows_strict)
  with doDumpFlows_managed [OF assms(1,2)] show ?thesis by blast
qed

theorem excluded_flow_added_forever_witness:
  "\<exists>fs0. doDumpFlows list_switch [ex_flow 10] (ex_man\<lparr>flowSets := [(''a'', [ex_flow 10])]\<rparr>)
      excludeOvsTables = Inr fs0
    \<and> ex_flow 10 \<in> set (fst (Diff fs0 (mergeFlows (ex_man\<lparr>flowSets := [(''a'', [ex_flow 10])]\<rparr>))))"
proof (rule excluded_flow_added_forever)
  show "DbSockExists list_switch [ex_flow 10]" by (simp add: list_switch_def)
  show "DumpBridgeFlows list_switch [ex_flow 10]
      (bridge (ex_man\<lparr>flowSets := [(''a'', [ex_flow 10])]\<rparr>)) = Inr [ex_flow 10]"
    by (simp add: list_switch_def)
  show "distinct (map flow_id [ex_flow 10])" by simp
  show "ex_flow 10 \<in> set (mergeFlows (ex_man\<lparr>flowSets := [(''a'', [ex_flow 10])]\<rparr>))"
    "Table (ex_flow 10) \<in> set excludeOvsTables"
    by code_simp+
qed

section \<open>Reachable states of the loop\<close>

text \<open>
  The states the loop of \<open>Start\<close> reaches: it begins with a new manager after
  \<open>failsafeInit\<close>; then come turns of the loop, changes of the switch by others, and changes of
  the wait count by callers in other goroutines.
\<close>

inductive fm_reach ::
  "('w, 'mf) ovs_cli \<Rightarrow> (int \<Rightarrow> int \<Rightarrow> string \<Rightarrow> string \<Rightarrow> flow) \<Rightarrow> 'w \<Rightarrow> flow_man \<Rightarrow> bool"
  for cli F where
  start: "NewFlowMan bridge_exists br = Inr fm \<Longrightarrow> fm_reach cli F w (failsafeInit F fm)"
| turn: "fm_reach cli F w fm \<Longrightarrow> fm_turn cli w fm ev = Some (Done fm' w') \<Longrightarrow> fm_reach cli F w' fm'"
| other: "fm_reach cli F w fm \<Longrightarrow> fm_reach cli F w' (fm\<lparr>waitCount := n\<rparr>)"

definition fm_inv :: "flow_man \<Rightarrow> bool" where
  "fm_inv fm \<longleftrightarrow> idleTimer fm \<noteq> Drained \<and> gm_get (flowSets fm) THEMAN \<noteq> None
     \<and> gm_wf (flowSets fm) \<and> (\<forall>who fs. gm_get (flowSets fm) who = Some fs \<longrightarrow> fs_sorted fs)"

lemma Remove_sorted: "fs_sorted fs \<Longrightarrow> fs_sorted (fst (Remove fs f))"
  by (cases rule: Remove_cases [of fs f]) (auto simp: fs_sorted_def sorted_append)

lemma check_and_schedule_Done:
  "check_and_schedule cli drain w fm = Done fm' w' \<Longrightarrow>
   doCheck cli w fm = Inr w' \<and> fm' = fm\<lparr>idleTimer := Running\<rparr>"
  by (auto simp: check_and_schedule_def scheduleIdleCheck_def split: sum.splits go_error.splits
      option.splits timer.splits if_splits)

lemma doCmd_inv: "fm_inv fm \<Longrightarrow> doCmd cli w fm c = Done fm' w' \<Longrightarrow> fm_inv fm'"
  by (cases c)
     (auto simp: fm_inv_def Add_sorted Remove_sorted NewFlowSetFromList_sorted
        split: option.splits if_splits dest!: check_and_schedule_Done)

lemma fm_turn_inv: "fm_inv fm \<Longrightarrow> fm_turn cli w fm ev = Some (Done fm' w') \<Longrightarrow> fm_inv fm'"
  by (cases ev)
     (auto simp: fm_turn_def doCmd_inv split: if_splits sum.splits go_error.splits
        dest!: check_and_schedule_Done, auto simp: fm_inv_def)

lemma fm_reach_inv: "fm_reach cli F w fm \<Longrightarrow> fm_inv fm"
proof (induction rule: fm_reach.induct)
  case (start bridge_exists br fm w)
  then show ?case
    by (auto simp: NewFlowMan_def res_bind_Inr_iff failsafeInit_def fm_inv_def gm_wf_def
        THEMAN_def FAILSAFE_def NewFlowSetFromList_sorted NewFlowSet_def split: if_splits)
       (simp_all add: fs_sorted_def)
next
  case (turn w fm ev fm' w')
  then show ?case by (blast intro: fm_turn_inv)
next
  case (other w fm w' n)
  then show ?case by (simp add: fm_inv_def)
qed

text \<open>What one check can do to the process.\<close>

lemma doCheck_Inl:
  "doCheck cli w fm = Inl e \<Longrightarrow>
   \<not> DbSockExists cli w \<or> (\<exists>p. DumpBridgeFlows cli w (bridge fm) = Inl (Panic p))"
  by (auto simp: doCheck_def doDumpFlows_def Let_def split: if_splits sum.splits go_error.splits
      prod.splits) (cases "DumpBridgeFlows cli w (bridge fm)"; auto)+

lemma check_and_schedule_outcome:
  assumes "DbSockExists cli w" "\<nexists>p. DumpBridgeFlows cli w (bridge fm) = Inl (Panic p)"
    and "idleTimer fm = Drained \<longrightarrow> \<not> drain"
  shows "\<exists>w'. check_and_schedule cli drain w fm = Done (fm\<lparr>idleTimer := Running\<rparr>) w'"
proof -
  obtain w' where "doCheck cli w fm = Inr w'"
    using doCheck_Inl [of cli w fm] assms by (cases "doCheck cli w fm") auto
  with assms(3) show ?thesis
    by (auto simp: check_and_schedule_def scheduleIdleCheck_def split: timer.splits)
qed

text \<open>No turn of a manager that satisfies the invariant goes wrong.\<close>

lemma fm_turn_outcome:
  assumes inv: "fm_inv fm" and "DbSockExists cli w"
    and "\<nexists>p. DumpBridgeFlows cli w (bridge fm) = Inl (Panic p)"
    and "fm_turn cli w fm ev = Some out"
  shows "(\<exists>fm' w'. out = Done fm' w' \<and> (ev = TimerRecv \<longrightarrow> idleTimer fm' = Running)) \<or>
         (ev = CmdClosed \<or> ev = CtxDone) \<and> (\<exists>w'. out = Stopped w')"
proof -
  from inv obtain fs where fs: "gm_get (flowSets fm) THEMAN = Some fs" by (auto simp: fm_inv_def)
  have upd: "\<exists>w'. check_and_schedule cli True w (fm\<lparr>flowSets := S\<rparr>)
      = Done (fm\<lparr>flowSets := S, idleTimer := Running\<rparr>) w'" for S
    using check_and_schedule_outcome [of cli w "fm\<lparr>flowSets := S\<rparr>" True] inv assms(2,3)
    by (simp add: fm_inv_def)
  show ?thesis
  proof (cases ev)
    case (Cmd c)
    with assms(4) fs upd upd [of "flowSets fm"] show ?thesis
      by (cases c) (auto simp: fm_turn_def, metis)
  next
    case CtxDone
    with assms(4) doCheck_Inl [of cli w fm] assms(2,3) show ?thesis
      by (cases "doCheck cli w fm") (auto simp: fm_turn_def)
  next
    case TimerRecv
    obtain w' where "check_and_schedule cli False w (fm\<lparr>idleTimer := Drained\<rparr>)
        = Done (fm\<lparr>idleTimer := Running\<rparr>) w'"
      using check_and_schedule_outcome [of cli w "fm\<lparr>idleTimer := Drained\<rparr>" False] assms(2,3) by auto
    with TimerRecv assms(4) have "out = Done (fm\<lparr>idleTimer := Running\<rparr>) w'"
      by (simp add: fm_turn_def split: if_splits)
    then show ?thesis by simp
  qed (use assms(4) in \<open>auto simp: fm_turn_def split: if_splits\<close>)
qed

text \<open>In every reachable state every turn of the loop ends well: as long as the database
  socket exists and the client library does not panic, no turn exits the process, dereferences
  a missing flow set or blocks on the timer channel, and after a check the idle timer runs
  again.\<close>

theorem loop_never_stuck:
  assumes "fm_reach cli F w fm" "DbSockExists cli w"
    and "\<nexists>p. DumpBridgeFlows cli w (bridge fm) = Inl (Panic p)"
    and "fm_turn cli w fm ev = Some out"
  shows "(\<exists>fm' w'. out = Done fm' w' \<and> (ev = TimerRecv \<longrightarrow> idleTimer fm' = Running)) \<or>
         (ev = CmdClosed \<or> ev = CtxDone) \<and> (\<exists>w'. out = Stopped w')"
  by (rule fm_turn_outcome [OF fm_reach_inv [OF assms(1)] assms(2-4)])

text \<open>A manager of a bridge that exists, right after \<open>Start\<close> set it up.\<close>

definition ex_started :: flow_man where
  "ex_started = failsafeInit (\<lambda>t p m a. ex_flow t)
     \<lparr>bridge = ''br0'', flowSets = [(THEMAN, NewFlowSet), (FAILSAFE, NewFlowSet)],
      idleTimer = Running, waitCount = 0\<rparr>"

lemma ex_started_reach: "fm_reach list_switch (\<lambda>t p m a. ex_flow t) w ex_started"
  unfolding ex_started_def
  by (rule fm_reach.start [of "\<lambda>_. Inr ()" "''br0''"]) (simp add: NewFlowMan_def)

theorem loop_never_stuck_witness:
  "\<exists>fm' w'. fm_turn list_switch [] ex_started (Cmd (UpdateFlowsCmd ''a'' [ex_flow 1]))
     = Some (Done fm' w')"
proof -
  obtain out where out: "fm_turn list_switch [] ex_started (Cmd (UpdateFlowsCmd ''a'' [ex_flow 1]))
      = Some out" by (simp add: fm_turn_def)
  from loop_never_stuck [OF ex_started_reach _ _ out] out show ?thesis
    by (auto simp: list_switch_def)
qed

section \<open>The commands refine operations on sets of flows\<close>

text \<open>The abstract state: for every client the set of the keys of its flows.\<close>

definition fm_abs :: "flow_man \<Rightarrow> string \<Rightarrow> flow_key set option" where
  "fm_abs fm who = map_option fs_keys (gm_get (flowSets fm) who)"

fun spec_cmd :: "flowManCmd \<Rightarrow> (string \<Rightarrow> flow_key set option) \<Rightarrow> string \<Rightarrow> flow_key set option" where
  "spec_cmd (AddFlowCmd f) A = A(THEMAN := map_option (insert (flow_key f)) (A THEMAN))"
| "spec_cmd (DelFlowCmd f) A = A(THEMAN := map_option (\<lambda>K. K - {flow_key f}) (A THEMAN))"
| "spec_cmd SyncFlowsCmd A = A"
| "spec_cmd (UpdateFlowsCmd who flows) A = A(who := Some (fs_keys flows))"

text \<open>The commands that the code sends: only \<open>AddFlow\<close> and \<open>DelFlow\<close> touch the set of
  \<open>THEMAN\<close>.\<close>

fun cmd_ok :: "flowManCmd \<Rightarrow> bool" where
  "cmd_ok (UpdateFlowsCmd who flows) \<longleftrightarrow> who \<noteq> THEMAN"
| "cmd_ok _ \<longleftrightarrow> True"

definition theman_strict :: "flow_man \<Rightarrow> bool" where
  "theman_strict fm \<longleftrightarrow> (\<exists>fs. gm_get (flowSets fm) THEMAN = Some fs \<and> fs_strict fs)"

fun run_cmds :: "('w, 'mf) ovs_cli \<Rightarrow> 'w \<Rightarrow> flow_man \<Rightarrow> flowManCmd list \<Rightarrow> 'w outcome" where
  "run_cmds cli w fm [] = Done fm w"
| "run_cmds cli w fm (c # cs) =
     (case doCmd cli w fm c of Done fm' w' \<Rightarrow> run_cmds cli w' fm' cs | out \<Rightarrow> out)"

lemma doCmd_refines:
  assumes "theman_strict fm" "cmd_ok c" "doCmd cli w fm c = Done fm' w'"
  shows "fm_abs fm' = spec_cmd c (fm_abs fm)" "theman_strict fm'"
  using assms
  by (cases c; auto simp: theman_strict_def fm_abs_def fun_eq_iff Add_sorted fs_strict_sorted
      Add_strict Remove_strict NewFlowSetFromList_sorted dest!: check_and_schedule_Done)+

lemma run_cmds_abs:
  assumes "theman_strict fm" "\<forall>c \<in> set cs. cmd_ok c" "run_cmds cli w fm cs = Done fm' w'"
  shows "fm_abs fm' = fold spec_cmd cs (fm_abs fm) \<and> theman_strict fm'"
  using assms
proof (induction cs arbitrary: w fm)
  case (Cons c cs)
  then obtain fm1 w1 where step: "doCmd cli w fm c = Done fm1 w1" "run_cmds cli w1 fm1 cs = Done fm' w'"
    by (auto split: outcome.splits)
  with Cons.prems doCmd_refines [of fm c cli w fm1 w1] Cons.IH [of fm1 w1] show ?case by simp
qed simp

text \<open>C6: any sequence of commands acts on the manager like the corresponding sequence of set
  operations on the flows of each client: added flows are inserted, deleted ones removed, an
  update replaces the flows of its client and touches no other client.\<close>

theorem run_cmds_refines:
  assumes "theman_strict fm" "\<forall>c \<in> set cs. cmd_ok c" "run_cmds cli w fm cs = Done fm' w'"
  shows "fm_abs fm' = fold spec_cmd cs (fm_abs fm) \<and> theman_strict fm'"
  by (rule run_cmds_abs [OF assms])

theorem run_cmds_refines_witness:
  "\<exists>fm' w'. run_cmds list_switch [] ex_started
        [AddFlowCmd (ex_flow 3), UpdateFlowsCmd ''a'' [ex_flow 1], DelFlowCmd (ex_flow 3)]
      = Done fm' w' \<and>
    fm_abs fm' = fold spec_cmd
        [AddFlowCmd (ex_flow 3), UpdateFlowsCmd ''a'' [ex_flow 1], DelFlowCmd (ex_flow 3)]
        (fm_abs ex_started) \<and> theman_strict fm'"
proof -
  let ?cs = "[AddFlowCmd (ex_flow 3), UpdateFlowsCmd ''a'' [ex_flow 1], DelFlowCmd (ex_flow 3)]"
  have strict: "theman_strict ex_started"
    by (simp add: theman_strict_def ex_started_def failsafeInit_def THEMAN_def FAILSAFE_def
        NewFlowSet_def fs_strict_def)
  obtain fm' w' where run: "run_cmds list_switch [] ex_started ?cs = Done fm' w'"
  proof -
    have "case run_cmds list_switch [] ex_started ?cs of Done fm' w' \<Rightarrow> True | _ \<Rightarrow> False"
      by code_simp
    with that show thesis by (auto split: outcome.splits)
  qed
  from run_cmds_refines [OF strict _ run] run show ?thesis
    by (simp add: THEMAN_def del: fold_simps)
qed

section \<open>Waiting\<close>

text \<open>
  \<open>withWait\<close> of \<open>watch.go\<close>, as one flow manager sees it: the function runs with an empty wait
  map and calls \<open>updateFlows\<close> some number of times, then the count is taken back and a
  \<open>SyncFlows\<close> command follows.
\<close>

fun updates_in_wait ::
  "flow_man \<Rightarrow> (string, 32 word) gomap option \<Rightarrow> (string \<times> flow list) list
   \<Rightarrow> flow_man \<times> (string, 32 word) gomap option \<times> flowManCmd list" where
  "updates_in_wait fm wd [] = (fm, wd, [])"
| "updates_in_wait fm wd ((who, ofs) # us) =
     (let (fm1, wd1, c) = updateFlows fm wd who ofs;
          (fm2, wd2, cs) = updates_in_wait fm1 wd1 us
      in (fm2, wd2, c # cs))"

definition withWait :: "flow_man \<Rightarrow> (string \<times> flow list) list \<Rightarrow> flow_man \<times> flow_man \<times> flowManCmd list" where
  "withWait fm us =
     (let (fm1, wd, cs) = updates_in_wait fm (Some []) us
      in case wd of
           None \<Rightarrow> (fm1, fm1, cs)
         | Some m \<Rightarrow>
             (case gm_get m (bridge fm) of
                None \<Rightarrow> (fm1, fm1, cs)
              | Some n \<Rightarrow> (fm1, waitDecr fm1 n, cs @ [SyncFlowsCmd])))"

lemma updates_in_wait_count:
  assumes "updates_in_wait fm (Some m) us = (fm', wd, cs)"
  shows "\<exists>m'. wd = Some m' \<and> bridge fm' = bridge fm
      \<and> fm' = fm\<lparr>waitCount := waitCount fm + of_nat (length us)\<rparr>
      \<and> (case gm_get m (bridge fm) of None \<Rightarrow> 0 | Some n \<Rightarrow> n) + of_nat (length us)
        = (case gm_get m' (bridge fm) of None \<Rightarrow> 0 | Some n \<Rightarrow> n)
      \<and> (us \<noteq> [] \<or> gm_get m (bridge fm) \<noteq> None \<longrightarrow> gm_get m' (bridge fm) \<noteq> None)
      \<and> cs = map (\<lambda>(who, ofs). UpdateFlowsCmd who ofs) us"
  using assms
proof (induction us arbitrary: fm m wd cs)
  case (Cons u us)
  obtain who ofs where u: "u = (who, ofs)" by fastforce
  define m1 where "m1 = (case gm_get m (bridge fm) of None \<Rightarrow> gm_set m (bridge fm) 1
      | Some c \<Rightarrow> gm_set m (bridge fm) (c + 1))"
  obtain cs' where r: "updates_in_wait (fm\<lparr>waitCount := waitCount fm + 1\<rparr>) (Some m1) us = (fm', wd, cs')"
      "cs = UpdateFlowsCmd who ofs # cs'"
    using Cons.prems by (auto simp: u updateFlows_def m1_def split: prod.splits)
  from Cons.IH [OF r(1)] r(2) show ?case
    by (auto simp: u m1_def add_ac split: option.splits)
qed auto

text \<open>Inside \<open>withWait\<close> the manager's wait count is raised by the number of updates (modulo
  $2^{32}$, the width of the counter), afterwards it is what it was before, for any number of
  updates, and if there was any update a \<open>SyncFlows\<close> follows after all of them.\<close>

theorem withWait_balanced:
  "\<exists>fm1 cs. withWait fm us = (fm1, fm, cs)
     \<and> waitCount fm1 = waitCount fm + of_nat (length us)
     \<and> cs = map (\<lambda>(who, ofs). UpdateFlowsCmd who ofs) us @ (if us = [] then [] else [SyncFlowsCmd])"
proof -
  obtain fm1 wd cs where r: "updates_in_wait fm (Some []) us = (fm1, wd, cs)"
    by (cases "updates_in_wait fm (Some []) us") auto
  from updates_in_wait_count [OF r] r show ?thesis
    by (cases us) (auto simp: withWait_def waitDecr_def split: option.splits)
qed

text \<open>While some caller waits, no command and no idle check touches the switch.\<close>

theorem no_commit_while_waiting:
  assumes "waitCount fm \<noteq> 0" "fm_turn cli w fm ev = Some out"
  shows "(\<forall>fm' w'. out = Done fm' w' \<longrightarrow> w' = w) \<and> (\<forall>w'. out = Stopped w' \<longrightarrow> w' = w)"
proof -
  have "doCheck cli w (fm\<lparr>flowSets := S\<rparr>) = Inr w" "doCheck cli w fm = Inr w"
    "doCheck cli w (fm\<lparr>idleTimer := t\<rparr>) = Inr w" for S t
    using assms(1) by (simp_all add: doCheck_def)
  then have "check_and_schedule cli d w (fm\<lparr>flowSets := S\<rparr>) = Done fm' w' \<Longrightarrow> w' = w"
    "check_and_schedule cli d w fm = Done fm' w' \<Longrightarrow> w' = w"
    "check_and_schedule cli d w (fm\<lparr>idleTimer := t\<rparr>) = Done fm' w' \<Longrightarrow> w' = w"
    "check_and_schedule cli d w fm \<noteq> Stopped w'" "check_and_schedule cli d w (fm\<lparr>flowSets := S\<rparr>) \<noteq> Stopped w'"
    "check_and_schedule cli d w (fm\<lparr>idleTimer := t\<rparr>) \<noteq> Stopped w'"
    for d S t fm' w'
    by (auto simp: check_and_schedule_def split: option.splits)
  with assms show ?thesis
    by (cases ev; cases "case ev of Cmd c \<Rightarrow> c | _ \<Rightarrow> SyncFlowsCmd")
       (auto simp: fm_turn_def doCheck_def split: option.splits if_splits)
qed

theorem no_commit_while_waiting_witness:
  "\<exists>fm'. doCmd list_switch [ex_flow 2] (ex_started\<lparr>waitCount := 1\<rparr>) SyncFlowsCmd
     = Done fm' [ex_flow 2]"
proof -
  let ?fm = "ex_started\<lparr>waitCount := 1\<rparr>"
  obtain fm' w' where r: "doCmd list_switch [ex_flow 2] ?fm SyncFlowsCmd = Done fm' w'"
    by (simp add: check_and_schedule_def doCheck_def scheduleIdleCheck_def ex_started_def
        failsafeInit_def)
  have "fm_turn list_switch [ex_flow 2] ?fm (Cmd SyncFlowsCmd) = Some (Done fm' w')"
    using r by (simp add: fm_turn_def)
  from no_commit_while_waiting [OF _ this] have "w' = [ex_flow 2]" by simp
  with r show ?thesis by blast
qed

end
