(* ===== verification/ZoneMan.thy ===== *)
theory ZoneMan
  imports Prelude
begin

unbundle bit_operations_syntax

text \<open>
  The allocator of conntrack zone ids, \<open>pkg/agent/utils/ct_zone.go\<close>: every MAC address
  gets a zone id of its own above \<open>base\<close>, chosen by hashing the address and probing
  linearly, and kept until it is freed.  The 16 and 32 bit integers of the source are words.
\<close>

section \<open>State and operations\<close>

record zone_man =
  zm :: "(string, 16 word) gomap"
  zmr :: "(16 word, string) gomap"
  base :: "16 word"

definition NewZoneMan :: "16 word \<Rightarrow> zone_man" where
  "NewZoneMan b = \<lparr>zm = [], zmr = [], base = b\<rparr>"

text \<open>\<open>fnv.New32\<close>, the 32 bit FNV-1 hash.\<close>

definition fnv32 :: "string \<Rightarrow> 32 word" where
  "fnv32 s = foldl (\<lambda>h c. (h * 16777619) XOR word_of_nat (of_char c)) 2166136261 s"

text \<open>\<open>total := (1 << 16) - uint32(zm.base)\<close>.\<close>

definition zone_total :: "zone_man \<Rightarrow> 32 word" where
  "zone_total z = push_bit 16 1 - ucast (base z)"

text \<open>
  The probing loop.  \<open>t16\<close> is \<open>uint16(total)\<close>; the remainder by it panics when it is 0,
  which is the case for base 0.  Each round uses one unit of fuel, and \<open>AllocateZoneId\<close>
  gives one unit per 16 bit value; \<open>probe_finds\<close> below shows that this is enough whenever
  a slot is free.
\<close>

datatype probe = Found "16 word" | Wrapped | DivZero | OutOfFuel

fun probe_loop :: "nat \<Rightarrow> (16 word, string) gomap \<Rightarrow> 16 word \<Rightarrow> 16 word \<Rightarrow> 16 word \<Rightarrow> probe" where
  "probe_loop fuel r t16 j i =
     (if fuel = 0 then OutOfFuel
      else case gm_get r i of
        None \<Rightarrow> Found i
      | Some _ \<Rightarrow>
          if t16 = 0 then DivZero
          else let i' = (i + 1) mod t16
               in if i' = j then Wrapped else probe_loop (fuel - 1) r t16 j i')"

declare probe_loop.simps [simp del]

definition AllocateZoneId :: "zone_man \<Rightarrow> string \<Rightarrow> zone_man \<times> 16 word result" where
  "AllocateZoneId z mac =
     (case gm_get (zm z) mac of
        Some i \<Rightarrow> (z, Inr (base z + i))
      | None \<Rightarrow>
          if length (zm z) \<ge> unat (zone_total z) then (z, Inl (Err ''id depleted''))
          else let i = ucast (fnv32 mac mod zone_total z)
               in case probe_loop (2 ^ 16) (zmr z) (ucast (zone_total z)) i i of
                    Found k \<Rightarrow>
                      (z\<lparr>zmr := gm_set (zmr z) k mac, zm := gm_set (zm z) mac k\<rparr>,
                       Inr (base z + k))
                  | Wrapped \<Rightarrow> (z, Inl (Err ''error that never returns''))
                  | DivZero \<Rightarrow> (z, Inl (Panic ''integer divide by zero''))
                  | OutOfFuel \<Rightarrow> (z, Inl (Panic ''probing does not return'')))"

definition FreeZoneId :: "zone_man \<Rightarrow> string \<Rightarrow> zone_man \<times> bool" where
  "FreeZoneId z mac =
     (case gm_get (zm z) mac of
        Some i \<Rightarrow> (z\<lparr>zm := gm_del (zm z) mac, zmr := gm_del (zmr z) i\<rparr>, True)
      | None \<Rightarrow> (z, False))"

section \<open>The invariant\<close>

definition ntotal :: "zone_man \<Rightarrow> nat" where
  "ntotal z = 2 ^ 16 - unat (base z)"

text \<open>The two maps are inverse to each other and every index stays below the total.\<close>

definition zone_inv :: "zone_man \<Rightarrow> bool" where
  "zone_inv z \<longleftrightarrow> gm_wf (zm z) \<and> gm_wf (zmr z)
     \<and> (\<forall>mac i. gm_get (zm z) mac = Some i \<longleftrightarrow> gm_get (zmr z) i = Some mac)
     \<and> (\<forall>mac i. gm_get (zm z) mac = Some i \<longrightarrow> unat i < ntotal z)"

lemma unat_base_less: "unat (base z) < 2 ^ 16"
  using unsigned_less [of "base z", where 'a = nat] by simp

lemma unat_total: "unat (zone_total z) = ntotal z"
proof -
  have "unat (ucast (base z) :: 32 word) = unat (base z)" 
    using unat_base_less [of z] by (simp add: unsigned_ucast_eq take_bit_nat_def)
  then show ?thesis
    using unat_base_less [of z]
    by (simp add: zone_total_def ntotal_def unat_sub_if_size word_size)
qed

lemma unat_total16:
  assumes "base z \<noteq> 0"
  shows "unat (ucast (zone_total z) :: 16 word) = ntotal z"
proof -
  have "0 < unat (base z)" using assms by (simp add: unat_gt_0)
  then show ?thesis
    using unat_total [of z] by (simp add: unsigned_ucast_eq take_bit_nat_def ntotal_def)
qed

lemma NewZoneMan_inv: "zone_inv (NewZoneMan b)"
  by (simp add: zone_inv_def NewZoneMan_def)

section \<open>Probing finds a free slot\<close>

text \<open>The position after \<open>k\<close> rounds, as a number.\<close>

definition pos :: "nat \<Rightarrow> nat \<Rightarrow> nat \<Rightarrow> nat" where
  "pos t j k = (j + k) mod t"

lemma unat_next:
  assumes "unat (i :: 16 word) < unat t"
  shows "unat ((i + 1) mod t) = (unat i + 1) mod unat t"
proof -
  have "unat i + 1 < 2 ^ 16" using assms unsigned_less [of t, where 'a = nat] by simp
  then have "unat (i + 1) = unat i + 1" by (simp add: unat_word_ariths)
  then show ?thesis by (simp add: unat_mod)
qed

lemma probe_finds:
  assumes "unat (j :: 16 word) < unat t" "m \<le> k" "k < unat t" "k - m < fuel"
    and "unat i = pos (unat t) (unat j) m"
    and "\<And>n w. n < k \<Longrightarrow> unat w = pos (unat t) (unat j) n \<Longrightarrow> gm_get r w \<noteq> None"
    and "\<And>w. unat w = pos (unat t) (unat j) k \<Longrightarrow> gm_get r w = None"
  shows "\<exists>w. probe_loop fuel r t j i = Found w \<and> unat w = pos (unat t) (unat j) k"
  using assms(2-5)
proof (induction "k - m" arbitrary: m fuel i)
  case 0
  then have "gm_get r i = None" using assms(7) by simp
  with 0 show ?case by (auto simp: probe_loop.simps [of fuel])
next
  case (Suc d)
  from Suc.hyps(2) have "m < k" by simp
  then obtain v where busy: "gm_get r i = Some v" using assms(6) [of m i] Suc.prems(4) by auto
  have t: "t \<noteq> 0" using assms(1) by auto
  have i: "unat i < unat t"
    using Suc.prems(4) assms(1) by (simp add: pos_def)
  define i' where "i' = (i + 1) mod t"
  have i': "unat i' = pos (unat t) (unat j) (Suc m)"
    using unat_next [OF i] Suc.prems(4) by (simp add: i'_def pos_def mod_Suc_eq)
  have "pos (unat t) (unat j) (Suc m) \<noteq> unat j"
  proof
    assume "pos (unat t) (unat j) (Suc m) = unat j"
    then have "(unat j + Suc m) mod unat t = (unat j + 0) mod unat t"
      using assms(1) by (simp add: pos_def)
    then have "unat t dvd Suc m"
      using mod_eq_dvd_iff_nat [of "unat j" "unat j + Suc m" "unat t"] by simp
    with \<open>m < k\<close> assms(3) show False by (auto dest: dvd_imp_le)
  qed
  then have ne: "i' \<noteq> j" using i' by auto
  have "\<exists>w. probe_loop (fuel - 1) r t j i' = Found w \<and> unat w = pos (unat t) (unat j) k"
    using Suc.hyps \<open>m < k\<close> Suc.prems assms(3) i' by (intro Suc.hyps(1)) auto
  then show ?case
    using busy t ne Suc.prems(3) by (simp add: probe_loop.simps [of fuel] i'_def [symmetric] Let_def)
qed

lemma ntotal_bounds: "0 < ntotal z" "ntotal z \<le> 2 ^ 16"
  using unat_base_less [of z] by (auto simp: ntotal_def)

text \<open>Below the total there are \<open>ntotal\<close> many indices, so fewer entries leave one free.\<close>

lemma free_index:
  assumes "zone_inv z" "length (zm z) < ntotal z"
  shows "\<exists>w. unat w < ntotal z \<and> gm_get (zmr z) w = None"
proof (rule ccontr)
  assume "\<not> ?thesis"
  then have busy: "{w. unat w < ntotal z} \<subseteq> dom (map_of (zmr z))" by auto
  have sub: "dom (map_of (zmr z)) \<subseteq> (\<lambda>m. the (gm_get (zm z) m)) ` dom (map_of (zm z))"
    using assms(1) by (force simp: zone_inv_def)
  have "(word_of_nat :: nat \<Rightarrow> 16 word) ` {..<ntotal z} \<subseteq> {w. unat w < ntotal z}"
    using ntotal_bounds [of z] by (auto simp: unat_of_nat le_less_trans [OF mod_less_eq_dividend])
  moreover have "inj_on (word_of_nat :: nat \<Rightarrow> 16 word) {..<ntotal z}"
    using ntotal_bounds [of z] by (intro inj_onI) (auto simp: word_of_nat_eq_iff take_bit_nat_def)
  ultimately have "ntotal z \<le> card {w :: 16 word. unat w < ntotal z}"
    by (metis card_image card_lessThan card_mono finite_code)
  also have "\<dots> \<le> card (dom (map_of (zmr z)))"
    using busy by (intro card_mono) (auto simp: finite_dom_map_of)
  also have "\<dots> \<le> card (dom (map_of (zm z)))"
    using sub by (meson card_image_le card_mono finite_dom_map_of finite_imageI order_trans)
  also have "\<dots> = length (zm z)"
    using assms(1) by (simp add: gm_len zone_inv_def)
  finally show False using assms(2) by simp
qed

lemma pos_onto:
  assumes "j < t" "w < t"
  shows "\<exists>k<t. pos t j k = w"
proof (intro exI conjI)
  show "(w + t - j) mod t < t" using assms by simp
  have "(j + (w + t - j) mod t) mod t = (j + (w + t - j)) mod t" by (simp add: mod_add_right_eq)
  also have "\<dots> = w" using assms by simp
  finally show "pos t j ((w + t - j) mod t) = w" by (simp add: pos_def)
qed

lemma pos_less: "0 < t \<Longrightarrow> pos t j k < t"
  by (simp add: pos_def)

text \<open>With a non-zero base the loop finds a free index within the total.\<close>

lemma probe_allocates:
  assumes "zone_inv z" "base z \<noteq> 0" "length (zm z) < ntotal z" "unat j < ntotal z"
  shows "\<exists>w. probe_loop (2 ^ 16) (zmr z) (ucast (zone_total z)) j j = Found w
    \<and> unat w < ntotal z \<and> gm_get (zmr z) w = None"
proof -
  let ?t = "ucast (zone_total z) :: 16 word"
  have t: "unat ?t = ntotal z" by (rule unat_total16 [OF assms(2)])
  define free where "free k \<longleftrightarrow> k < ntotal z \<and>
    gm_get (zmr z) (word_of_nat (pos (ntotal z) (unat j) k)) = None" for k
  from free_index [OF assms(1,3)] obtain w where w: "unat w < ntotal z" "gm_get (zmr z) w = None"
    by blast
  from pos_onto [OF assms(4) w(1)] obtain k0 where "k0 < ntotal z"
    "pos (ntotal z) (unat j) k0 = unat w" by blast
  with w have "free k0" by (simp add: free_def)
  define k where "k = (LEAST k. free k)"
  have k: "free k" "\<And>n. n < k \<Longrightarrow> \<not> free n"
    using \<open>free k0\<close> by (auto simp: k_def intro: LeastI dest: not_less_Least)
  have busy: "gm_get (zmr z) v \<noteq> None" if "n < k" "unat v = pos (ntotal z) (unat j) n" for n v
  proof -
    have "word_of_nat (pos (ntotal z) (unat j) n) = v" by (simp add: that(2) [symmetric])
    with k(2) [OF that(1)] k(1) that(1) show ?thesis by (auto simp: free_def)
  qed
  have idle: "gm_get (zmr z) v = None" if "unat v = pos (ntotal z) (unat j) k" for v
    using that k by (auto simp: free_def that [symmetric])
  have "k < ntotal z" "k < 2 ^ 16" using k(1) ntotal_bounds [of z] by (auto simp: free_def)
  then obtain v where v: "probe_loop (2 ^ 16) (zmr z) ?t j j = Found v"
      "unat v = pos (unat ?t) (unat j) k"
    using probe_finds [of j ?t 0 k "2 ^ 16" j "zmr z"] assms(4) t busy idle
    by (auto simp: pos_def)
  with idle t pos_less [OF ntotal_bounds(1), of z "unat j" k] show ?thesis by auto
qed

lemma hash_in_range: "unat (ucast (h mod zone_total z) :: 16 word) < ntotal z"
proof -
  have "unat (h mod zone_total z) < ntotal z"
    using ntotal_bounds [of z] by (simp add: unat_mod unat_total)
  then show ?thesis
    using ntotal_bounds(2) [of z]
    by (simp add: unsigned_ucast_eq take_bit_nat_def le_less_trans [OF mod_less_eq_dividend])
qed

section \<open>Allocation and release\<close>

lemma AllocateZoneId_known:
  "gm_get (zm z) mac = Some i \<Longrightarrow> AllocateZoneId z mac = (z, Inr (base z + i))"
  by (simp add: AllocateZoneId_def)

lemma AllocateZoneId_depleted:
  "gm_get (zm z) mac = None \<Longrightarrow> ntotal z \<le> length (zm z) \<Longrightarrow>
   AllocateZoneId z mac = (z, Inl (Err ''id depleted''))"
  by (simp add: AllocateZoneId_def unat_total)

lemma AllocateZoneId_fresh:
  assumes "zone_inv z" "base z \<noteq> 0" "gm_get (zm z) mac = None" "length (zm z) < ntotal z"
  obtains k where "unat k < ntotal z" "gm_get (zmr z) k = None"
    "AllocateZoneId z mac =
      (z\<lparr>zmr := gm_set (zmr z) k mac, zm := gm_set (zm z) mac k\<rparr>, Inr (base z + k))"
  using probe_allocates [OF assms(1,2,4) hash_in_range [of "fnv32 mac" z]] assms(3,4)
  by (auto simp: AllocateZoneId_def unat_total Let_def)

lemma zone_inv_insert:
  assumes "zone_inv z" "gm_get (zm z) mac = None" "gm_get (zmr z) k = None" "unat k < ntotal z"
  shows "zone_inv (z\<lparr>zmr := gm_set (zmr z) k mac, zm := gm_set (zm z) mac k\<rparr>)"
  using assms by (auto simp: zone_inv_def ntotal_def) (metis option.distinct(1))

lemma AllocateZoneId_inv:
  assumes "zone_inv z" "base z \<noteq> 0"
  shows "zone_inv (fst (AllocateZoneId z mac))" "base (fst (AllocateZoneId z mac)) = base z"
proof -
  consider i where "gm_get (zm z) mac = Some i"
    | "gm_get (zm z) mac = None" "ntotal z \<le> length (zm z)"
    | "gm_get (zm z) mac = None" "length (zm z) < ntotal z"
    by (metis linorder_not_le not_Some_eq)
  then have "zone_inv (fst (AllocateZoneId z mac)) \<and> base (fst (AllocateZoneId z mac)) = base z"
  proof cases
    case 3
    from AllocateZoneId_fresh [OF assms 3] show ?thesis
      using zone_inv_insert [OF assms(1) 3(1)] by fastforce
  qed (simp_all add: AllocateZoneId_known AllocateZoneId_depleted assms)
  then show "zone_inv (fst (AllocateZoneId z mac))" "base (fst (AllocateZoneId z mac)) = base z"
    by auto
qed

lemma FreeZoneId_inv:
  "zone_inv z \<Longrightarrow> zone_inv (fst (FreeZoneId z mac))" "base (fst (FreeZoneId z mac)) = base z"
  by (auto simp: FreeZoneId_def zone_inv_def ntotal_def split: option.splits)
     (metis option.inject)+

section \<open>The allocator interface\<close>

definition zone_of :: "zone_man \<Rightarrow> string \<Rightarrow> 16 word option" where
  "zone_of z mac = map_option (\<lambda>i. base z + i) (gm_get (zm z) mac)"

definition zone_ok :: "zone_man \<Rightarrow> bool" where
  "zone_ok z \<longleftrightarrow> zone_inv z \<and> base z \<noteq> 0"

lemma zone_of_inj:
  assumes "zone_inv z" "zone_of z m1 = Some a" "zone_of z m2 = Some a"
  shows "m1 = m2"
proof -
  from assms(2,3) obtain i j where "gm_get (zm z) m1 = Some i" "gm_get (zm z) m2 = Some j"
      "base z + i = base z + j"
    by (auto simp: zone_of_def)
  then have "gm_get (zmr z) i = Some m1" "gm_get (zmr z) i = Some m2"
    using assms(1) by (auto simp: zone_inv_def)
  then show ?thesis by simp
qed

lemma zone_of_bounds:
  assumes "zone_inv z" "zone_of z mac = Some a"
  shows "unat (base z) \<le> unat a"
proof -
  from assms obtain i where "a = base z + i" "unat i < ntotal z"
    by (auto simp: zone_of_def zone_inv_def)
  moreover from this have "unat (base z) + unat i < 2 ^ 16"
    using unat_base_less [of z] by (simp add: ntotal_def)
  ultimately show ?thesis by (simp add: unat_word_ariths)
qed

lemma AllocateZoneId_result:
  assumes "zone_ok z"
  shows "(\<exists>z' id. AllocateZoneId z mac = (z', Inr id) \<and> zone_of z' = (zone_of z)(mac \<mapsto> id)) \<or>
    (AllocateZoneId z mac = (z, Inl (Err ''id depleted'')) \<and> zone_of z mac = None
      \<and> ntotal z \<le> length (zm z))"
proof (cases "gm_get (zm z) mac")
  case (Some i)
  then have "zone_of z = (zone_of z)(mac \<mapsto> base z + i)" by (auto simp: zone_of_def)
  with AllocateZoneId_known [OF Some] show ?thesis by auto
next
  case None
  show ?thesis
  proof (cases "length (zm z) < ntotal z")
    case True
    obtain k where "AllocateZoneId z mac =
        (z\<lparr>zmr := gm_set (zmr z) k mac, zm := gm_set (zm z) mac k\<rparr>, Inr (base z + k))"
      using AllocateZoneId_fresh [of z mac] assms None True by (auto simp: zone_ok_def)
    then show ?thesis by (auto simp: zone_of_def fun_eq_iff)
  next
    case False
    with AllocateZoneId_depleted [OF None] None show ?thesis by (auto simp: zone_of_def)
  qed
qed

lemma FreeZoneId_zone_of: "zone_of (fst (FreeZoneId z mac)) = (zone_of z)(mac := None)"
  by (auto simp: FreeZoneId_def zone_of_def fun_eq_iff split: option.splits)

interpretation zones: id_allocator AllocateZoneId "\<lambda>z mac. fst (FreeZoneId z mac)" zone_of zone_ok
proof unfold_locales
  fix z mac z' i e
  assume ok: "zone_ok z"
  from ok show "zone_ok (fst (AllocateZoneId z mac))"
    by (simp add: zone_ok_def AllocateZoneId_inv)
  from ok show "zone_ok (fst (FreeZoneId z mac))"
    by (simp add: zone_ok_def FreeZoneId_inv)
  from AllocateZoneId_result [OF ok, of mac]
  show "AllocateZoneId z mac = (z', Inr i) \<Longrightarrow> zone_of z' = (zone_of z)(mac \<mapsto> i)"
    and "AllocateZoneId z mac = (z', Inl e) \<Longrightarrow> z' = z" by auto
  show "zone_of z mac = Some i \<Longrightarrow> AllocateZoneId z mac = (z, Inr i)"
    by (auto simp: zone_of_def AllocateZoneId_known)
  show "zone_of (fst (FreeZoneId z mac)) = (zone_of z)(mac := None)"
    by (rule FreeZoneId_zone_of)
next
  fix z n i m
  assume "zone_ok z" "zone_of z n = Some i" "zone_of z m = Some i"
  then show "m = n" by (auto simp: zone_ok_def intro: zone_of_inj)
qed

section \<open>Runs of the manager\<close>

inductive zone_step :: "zone_man \<Rightarrow> zone_man \<Rightarrow> bool" where
  allocate: "zone_step z (fst (AllocateZoneId z mac))"
| release: "zone_step z (fst (FreeZoneId z mac))"

inductive zone_reach :: "16 word \<Rightarrow> zone_man \<Rightarrow> bool" where
  new: "zone_reach b (NewZoneMan b)"
| step: "zone_reach b z \<Longrightarrow> zone_step z z' \<Longrightarrow> zone_reach b z'"

lemma zone_step_ok: "zone_step z z' \<Longrightarrow> zone_ok z \<Longrightarrow> zone_ok z' \<and> base z' = base z"
  by (induction rule: zone_step.induct)
     (auto simp: zone_ok_def AllocateZoneId_inv FreeZoneId_inv)

lemma zone_reach_ok: "zone_reach b z \<Longrightarrow> b \<noteq> 0 \<Longrightarrow> zone_ok z \<and> base z = b"
proof (induction rule: zone_reach.induct)
  case (new b)
  then show ?case by (simp add: zone_ok_def NewZoneMan_inv) (simp add: NewZoneMan_def)
next
  case (step b z z')
  then show ?case using zone_step_ok by metis
qed

text \<open>A manager that has served two addresses, for the witnesses.\<close>

definition zone_ex :: zone_man where
  "zone_ex = fst (AllocateZoneId (fst (AllocateZoneId (NewZoneMan 60000) ''m1'')) ''m2'')"

lemma fnv32_ex: "fnv32 ''m1'' = 1685527111" "fnv32 ''m2'' = 1685527108"
  by (simp_all add: fnv32_def)

lemma zone_ex_reach: "zone_reach 60000 zone_ex"
  unfolding zone_ex_def by (rule zone_reach.step [OF zone_reach.step [OF zone_reach.new]])
    (rule zone_step.allocate)+

lemma zone_ex_eq:
  "zone_ex = \<lparr>zm = [(''m1'', 3335), (''m2'', 3332)], zmr = [(3335, ''m1''), (3332, ''m2'')],
     base = 60000\<rparr>"
proof -
  have "fst (AllocateZoneId (NewZoneMan 60000) ''m1'') =
      \<lparr>zm = [(''m1'', 3335)], zmr = [(3335, ''m1'')], base = 60000\<rparr>"
    by (simp add: AllocateZoneId_def NewZoneMan_def zone_total_def probe_loop.simps [of 65536]
        fnv32_ex)
  then show ?thesis
    by (simp add: zone_ex_def AllocateZoneId_def zone_total_def probe_loop.simps [of 65536]
        fnv32_ex)
qed

lemma zone_ex_val: "zone_of zone_ex ''m1'' = Some 63335" "zone_of zone_ex ''m2'' = Some 63332"
  by (simp_all add: zone_ex_eq zone_of_def)

section \<open>Properties\<close>

text \<open>C39: in every state that a zone manager with a non-zero base can reach by allocating
  and freeing, two MAC addresses never share a conntrack zone id, and every id handed out is
  at least the base (the 16 bit addition of the base does not wrap).\<close>

theorem zone_ids_unique:
  assumes "zone_reach b z" "b \<noteq> 0" "zone_of z m1 = Some a" "zone_of z m2 = Some c"
  shows "(a = c \<longleftrightarrow> m1 = m2) \<and> unat b \<le> unat a"
proof -
  from zone_reach_ok [OF assms(1,2)] have z: "zone_ok z" "base z = b" by auto
  then have "unat b \<le> unat a" using zone_of_bounds [OF _ assms(3)] by (auto simp: zone_ok_def)
  moreover have "a = c \<longleftrightarrow> m1 = m2"
  proof
    show "a = c \<Longrightarrow> m1 = m2" using zones.owner_inj [OF z(1) assms(4), of m1] assms(3) by simp
    show "m1 = m2 \<Longrightarrow> a = c" using assms(3,4) by simp
  qed
  ultimately show ?thesis by blast
qed

theorem zone_ids_unique_witness:
  "zone_of zone_ex ''m1'' = Some 63335 \<and> zone_of zone_ex ''m2'' = Some 63332 \<and>
   ((63335 :: 16 word) = 63332 \<longleftrightarrow> ''m1'' = ''m2'') \<and> unat (60000 :: 16 word) \<le> unat (63335 :: 16 word)"
  using zone_ids_unique [OF zone_ex_reach _ zone_ex_val] zone_ex_val by simp

text \<open>C40: on a well-formed manager with a non-zero base, \<open>AllocateZoneId\<close> either returns an
  id that the address then owns, leaving every other address as it was, or reports "id
  depleted" without a change because all ids below \<open>2 ^ 16\<close> are in use; it never panics and
  never reaches "error that never returns".\<close>

theorem AllocateZoneId_total:
  assumes "zone_inv z" "base z \<noteq> 0"
  shows "(\<exists>z' id. AllocateZoneId z mac = (z', Inr id) \<and> zone_inv z' \<and> base z' = base z
            \<and> zone_of z' = (zone_of z)(mac \<mapsto> id)
            \<and> (\<forall>m. m \<noteq> mac \<longrightarrow> zone_of z m \<noteq> Some id)) \<or>
         (AllocateZoneId z mac = (z, Inl (Err ''id depleted'')) \<and> zone_of z mac = None
            \<and> 2 ^ 16 - unat (base z) \<le> card {m. zone_of z m \<noteq> None})"
proof -
  have ok: "zone_ok z" using assms by (simp add: zone_ok_def)
  have "{m. zone_of z m \<noteq> None} = dom (map_of (zm z))" by (auto simp: zone_of_def)
  then have card: "card {m. zone_of z m \<noteq> None} = length (zm z)"
    using assms(1) by (simp add: gm_len zone_inv_def)
  from AllocateZoneId_result [OF ok, of mac] show ?thesis
  proof (elim disjE exE conjE)
    fix z' id
    assume r: "AllocateZoneId z mac = (z', Inr id)" "zone_of z' = (zone_of z)(mac \<mapsto> id)"
    moreover have "zone_inv z'" "base z' = base z"
      using AllocateZoneId_inv [OF assms, of mac] r(1) by auto
    moreover have "\<forall>m. m \<noteq> mac \<longrightarrow> zone_of z m \<noteq> Some id"
      using zones.alloc_distinct [OF ok r(1)] by blast
    ultimately show ?thesis by blast
  qed (use card in \<open>simp add: ntotal_def\<close>)
qed

theorem AllocateZoneId_total_witness:
  "zone_inv zone_ex \<and> base zone_ex = 60000 \<and>
   (\<exists>z' id. AllocateZoneId zone_ex ''m1'' = (z', Inr id) \<and> zone_of z' ''m2'' = Some 63332)"
proof -
  from zone_reach_ok [OF zone_ex_reach] have ok: "zone_inv zone_ex" "base zone_ex = 60000"
    by (simp_all add: zone_ok_def)
  then have "base zone_ex \<noteq> 0" by simp
  from AllocateZoneId_total [OF ok(1) this, of "''m1''"] ok zone_ex_val show ?thesis by auto
qed

text \<open>With base 0 the total is \<open>2 ^ 16\<close>, its conversion to 16 bits is 0, and the first
  collision of the hash panics with a division by zero although ids are free.\<close>

theorem AllocateZoneId_base0_panics:
  assumes "base z = 0" "gm_get (zm z) mac = None" "length (zm z) < 2 ^ 16"
    and "gm_get (zmr z) (ucast (fnv32 mac mod 65536)) = Some other"
  shows "AllocateZoneId z mac = (z, Inl (Panic ''integer divide by zero''))"
  using assms
  by (simp add: AllocateZoneId_def zone_total_def probe_loop.simps [of "2 ^ 16"]
      probe_loop.simps [of 65536])

theorem AllocateZoneId_base0_panics_witness:
  "let z = \<lparr>zm = [(''x'', 6727)], zmr = [(6727, ''x'')], base = 0\<rparr>
   in zone_inv z \<and> AllocateZoneId z ''m1'' = (z, Inl (Panic ''integer divide by zero''))"
proof -
  let ?z = "\<lparr>zm = [(''x'', 6727)], zmr = [(6727, ''x'')], base = 0\<rparr>"
  have "zone_inv ?z" by (simp add: zone_inv_def gm_wf_def ntotal_def)
  moreover have "AllocateZoneId ?z ''m1'' = (?z, Inl (Panic ''integer divide by zero''))"
    by (rule AllocateZoneId_base0_panics [where other = "''x''"]) (simp_all add: fnv32_ex)
  ultimately show ?thesis by (simp add: Let_def)
qed

end
