(* ===== verification/GoStr.thy ===== *)
theory GoStr
  imports Prelude
begin

text \<open>
  The parts of Go's \<open>strings\<close>, \<open>strconv\<close> and \<open>fmt\<close> that the agent's parsers and printers
  use, as functions on byte strings: splitting, trimming, prefixes, decimal and hexadecimal
  numbers.  Text that is compared with ASCII letters or white space is ASCII in all the
  inputs of the agent (output of \<open>tc\<close>, \<open>ip\<close> and \<open>ovs-ofctl\<close>), so case and white space are
  the ASCII ones.
\<close>

section \<open>Splitting and joining\<close>

text \<open>\<open>strings.Split\<close> with a one-byte separator.\<close>

fun split_on :: "char \<Rightarrow> string \<Rightarrow> string list" where
  "split_on c [] = [[]]"
| "split_on c (x # xs) =
     (if x = c then [] # split_on c xs
      else case split_on c xs of [] \<Rightarrow> [[x]] | p # ps \<Rightarrow> (x # p) # ps)"

text \<open>\<open>strings.SplitN(s, sep, 2)\<close>.\<close>

fun split_first :: "char \<Rightarrow> string \<Rightarrow> string list" where
  "split_first c [] = [[]]"
| "split_first c (x # xs) =
     (if x = c then [[], xs]
      else case split_first c xs of [] \<Rightarrow> [[x]] | p # ps \<Rightarrow> (x # p) # ps)"

text \<open>\<open>strings.Join\<close>.\<close>

fun join :: "string \<Rightarrow> string list \<Rightarrow> string" where
  "join sep [] = []"
| "join sep [x] = x"
| "join sep (x # y # ys) = x @ sep @ join sep (y # ys)"

definition is_space :: "char \<Rightarrow> bool" where
  "is_space c \<longleftrightarrow> c \<in> set [CHR '' '', CHR 9, CHR 10, CHR 11, CHR 12, CHR 13]"

definition TrimSpace :: "string \<Rightarrow> string" where
  "TrimSpace s = rev (dropWhile is_space (rev (dropWhile is_space s)))"

definition HasPrefix :: "string \<Rightarrow> string \<Rightarrow> bool" where
  "HasPrefix s p \<longleftrightarrow> take (length p) s = p"

definition HasSuffix :: "string \<Rightarrow> string \<Rightarrow> bool" where
  "HasSuffix s p \<longleftrightarrow> length p \<le> length s \<and> drop (length s - length p) s = p"

definition lower_char :: "char \<Rightarrow> char" where
  "lower_char c = (let n = of_char c :: int in if 65 \<le> n \<and> n \<le> 90 then char_of (n + 32) else c)"

definition ToLower :: "string \<Rightarrow> string" where
  "ToLower s = map lower_char s"

definition is_letter :: "char \<Rightarrow> bool" where
  "is_letter c = (let n = of_char c :: int in (97 \<le> n \<and> n \<le> 122) \<or> (65 \<le> n \<and> n \<le> 90))"

lemma split_on_ne [simp]: "split_on c s \<noteq> []"
  by (induction s) (auto split: list.splits)

lemma split_first_ne [simp]: "split_first c s \<noteq> []"
  by (induction s) (auto split: list.splits)

lemma split_on_plain [simp]: "c \<notin> set s \<Longrightarrow> split_on c s = [s]"
  by (induction s) auto

lemma split_on_append: "c \<notin> set p \<Longrightarrow> split_on c (p @ c # s) = p # split_on c s"
  by (induction p) auto

lemma split_first_plain: "c \<notin> set s \<Longrightarrow> split_first c s = [s]"
  by (induction s) auto

lemma split_first_append: "c \<notin> set p \<Longrightarrow> split_first c (p @ c # s) = [p, s]"
  by (induction p) auto

text \<open>Splitting a joined list of separator-free words gives the words back.\<close>

lemma split_join:
  assumes "ws \<noteq> []" "\<forall>w \<in> set ws. c \<notin> set w"
  shows "split_on c (join [c] ws) = ws"
  using assms
  by (induction "[c]" ws rule: join.induct) (auto simp: split_on_append)

section \<open>Numbers\<close>

text \<open>Numbers are integers here (never negative in the unsigned functions), so that they are
  computed in binary.\<close>

definition digit_char :: "int \<Rightarrow> char" where
  "digit_char d = char_of (if d < 10 then 48 + d else 87 + d)"

definition digit_val :: "char \<Rightarrow> int option" where
  "digit_val c = (let n = of_char c :: int in
     if 48 \<le> n \<and> n \<le> 57 then Some (n - 48)
     else if 97 \<le> n \<and> n \<le> 122 then Some (n - 87)
     else if 65 \<le> n \<and> n \<le> 90 then Some (n - 55) else None)"

text \<open>\<open>Sprintf("%d")\<close> and \<open>Sprintf("%x")\<close> of an unsigned number.\<close>

function show_base :: "int \<Rightarrow> int \<Rightarrow> string" where
  "show_base b n =
     (if b < 2 \<or> n < b then [digit_char n] else show_base b (n div b) @ [digit_char (n mod b)])"
  by pat_completeness auto
termination
  by (relation "measure (\<lambda>(b, n). nat n)") (auto simp: nat_less_iff int_div_less_self)

declare show_base.simps [simp del]

abbreviation show_dec :: "int \<Rightarrow> string" where "show_dec \<equiv> show_base 10"
abbreviation show_hex :: "int \<Rightarrow> string" where "show_hex \<equiv> show_base 16"

definition show_int :: "int \<Rightarrow> string" where
  "show_int i = (if i < 0 then ''-'' @ show_dec (- i) else show_dec i)"

text \<open>
  \<open>strconv.ParseUint(s, base, bitSize)\<close> for a base other than 0: the value and the error.  A
  syntax error comes with the value 0, a range error with the largest value; the digits are
  read from the left, so the first of the two that is met is reported.
\<close>

datatype num_err = ErrSyntax | ErrRange

fun parse_digits :: "int \<Rightarrow> int \<Rightarrow> int \<Rightarrow> string \<Rightarrow> int \<times> num_err option" where
  "parse_digits b maxv n [] = (n, None)"
| "parse_digits b maxv n (c # cs) =
     (case digit_val c of
        None \<Rightarrow> (0, Some ErrSyntax)
      | Some d \<Rightarrow>
          if d \<ge> b then (0, Some ErrSyntax)
          else if n \<ge> (2 ^ 64 - 1) div b + 1 \<or> n * b + d > maxv then (maxv, Some ErrRange)
          else parse_digits b maxv (n * b + d) cs)"

definition ParseUint :: "string \<Rightarrow> int \<Rightarrow> nat \<Rightarrow> int \<times> num_err option" where
  "ParseUint s b bits =
     (if s = [] then (0, Some ErrSyntax) else parse_digits b (2 ^ bits - 1) 0 s)"

text \<open>\<open>strconv.Atoi\<close> and \<open>ParseInt\<close> in base 10: an optional sign, then digits.\<close>

definition ParseInt :: "string \<Rightarrow> nat \<Rightarrow> int \<times> num_err option" where
  "ParseInt s bits =
     (case s of
        [] \<Rightarrow> (0, Some ErrSyntax)
      | c # cs \<Rightarrow>
          let neg = (c = CHR ''-''); body = (if c = CHR ''-'' \<or> c = CHR ''+'' then cs else s);
              cutoff = 2 ^ (bits - 1)
          in case ParseUint body 10 bits of
               (_, Some ErrSyntax) \<Rightarrow> (0, Some ErrSyntax)
             | (un, _) \<Rightarrow>
                 if \<not> neg \<and> un \<ge> cutoff then (cutoff - 1, Some ErrRange)
                 else if neg \<and> un > cutoff then (- cutoff, Some ErrRange)
                 else (if neg then - un else un, None))"

lemma digit_val_char [simp]: "0 \<le> d \<Longrightarrow> d < 36 \<Longrightarrow> digit_val (digit_char d) = Some d"
  by (auto simp: digit_val_def digit_char_def Let_def)

lemma digit_val_nonneg: "digit_val c = Some d \<Longrightarrow> 0 \<le> d"
  by (auto simp: digit_val_def Let_def split: if_splits)

lemma parse_digits_append:
  "parse_digits b maxv n (xs @ ys) =
     (case parse_digits b maxv n xs of
        (m, None) \<Rightarrow> parse_digits b maxv m ys
      | (m, Some e) \<Rightarrow> (m, Some e))"
  by (induction xs arbitrary: n) (auto split: option.splits)

text \<open>Induction along the digits of a number, most significant first.\<close>

lemma digits_induct [consumes 2, case_names small large]:
  assumes "2 \<le> (b::int)" "0 \<le> n"
    and "\<And>n. 0 \<le> n \<Longrightarrow> n < b \<Longrightarrow> P n"
    and "\<And>n. b \<le> n \<Longrightarrow> P (n div b) \<Longrightarrow> P n"
  shows "P n"
  using assms(2)
proof (induction "nat n" arbitrary: n rule: less_induct)
  case less
  show ?case
  proof (cases "n < b")
    case False
    then have "nat (n div b) < nat n" "0 \<le> n div b"
      using assms(1) by (auto simp: int_div_less_self pos_imp_zdiv_nonneg_iff)
    with less.hyps False assms(4) show ?thesis by simp
  qed (use less.prems assms(3) in simp)
qed

lemma parse_show:
  assumes "2 \<le> b" "b \<le> 36" "0 \<le> n" "n \<le> maxv" "maxv < 2 ^ 64"
  shows "parse_digits b maxv 0 (show_base b n) = (n, None)"
  using assms(1,3,4)
proof (induction n rule: digits_induct)
  case (small n)
  moreover have "0 \<le> (2 ^ 64 - 1) div b"
    using assms(1) by (intro pos_imp_zdiv_nonneg_iff [THEN iffD2]) auto
  ultimately show ?case using assms by (simp add: show_base.simps [of b n])
next
  case (large n)
  have "n div b \<le> n" using large assms(1) by (simp add: int_div_less_self less_imp_le)
  with large have "parse_digits b maxv 0 (show_base b (n div b)) = (n div b, None)" by simp
  moreover have "n div b \<le> (2 ^ 64 - 1) div b"
    using large assms by (intro zdiv_mono1) auto
  moreover have "\<not> b \<le> n mod b" using assms(1) by (simp add: not_le)
  moreover have "digit_val (digit_char (n mod b)) = Some (n mod b)"
    using assms(1,2) pos_mod_bound [of b n] pos_mod_sign [of b n]
    by (intro digit_val_char) linarith+
  moreover have "n div b * b + n mod b = n" by simp
  ultimately show ?case using large assms
    by (simp add: show_base.simps [of b n] parse_digits_append)
qed

lemma show_base_ne [simp]: "show_base b n \<noteq> []"
  by (subst show_base.simps) simp

text \<open>Printing a number and parsing it gives it back, for every base and width used.\<close>

lemma ParseUint_show:
  assumes "2 \<le> b" "b \<le> 36" "0 \<le> n" "n < 2 ^ bits" "bits \<le> 64"
  shows "ParseUint (show_base b n) b bits = (n, None)"
proof -
  have "(2::int) ^ bits \<le> 2 ^ 64" using assms(5) by (intro power_increasing) auto
  then have "(2::int) ^ bits - 1 < 2 ^ 64" by linarith
  with parse_show [OF assms(1,2,3), of "2 ^ bits - 1"] assms(4) show ?thesis
    by (simp add: ParseUint_def)
qed

lemma parse_digits_bound:
  "0 \<le> b \<Longrightarrow> 0 \<le> n \<Longrightarrow> n \<le> maxv \<Longrightarrow>
   0 \<le> fst (parse_digits b maxv n s) \<and> fst (parse_digits b maxv n s) \<le> maxv"
proof (induction s arbitrary: n)
  case (Cons c s)
  then show ?case
    by (cases "digit_val c") (simp_all add: digit_val_nonneg)
qed simp

lemma ParseUint_bound:
  assumes "0 \<le> b"
  shows "0 \<le> fst (ParseUint s b bits)" "fst (ParseUint s b bits) < 2 ^ bits"
  using parse_digits_bound [OF assms, of 0 "2 ^ bits - 1" s] by (auto simp: ParseUint_def)

text \<open>The characters of a printed number.\<close>

lemma show_base_chars:
  assumes "2 \<le> b" "0 \<le> n"
  shows "set (show_base b n) \<subseteq> digit_char ` {0..<b}"
  using assms
proof (induction n rule: digits_induct)
  case (large n)
  have "show_base b n = show_base b (n div b) @ [digit_char (n mod b)]"
    using large assms by (simp add: show_base.simps [of b n])
  moreover have "0 \<le> n mod b" "n mod b < b" using assms(1) by simp_all
  ultimately show ?case using large by simp
qed (simp add: show_base.simps)

lemma show_base_no_char:
  assumes "2 \<le> b" "b \<le> 16" "0 \<le> n" "digit_val c = None"
  shows "c \<notin> set (show_base b n)"
proof
  assume "c \<in> set (show_base b n)"
  then obtain d where "0 \<le> d" "d < 16" "c = digit_char d"
    using show_base_chars [OF assms(1,3)] assms(2) by force
  with assms(4) show False by simp
qed

end
