(* ===== verification/TcUnits.thy ===== *)
theory TcUnits
  imports GoStr
begin

unbundle bit_operations_syntax

text \<open>
  Handles and units of the \<open>tc\<close> command line: \<open>pkg/tc/handle.go\<close> and \<open>pkg/tc/unit.go\<close>.

  \<open>strconv.ParseFloat\<close> is only called on text without letters, so it sees a sign, digits, a
  point and underscores.  Its result is kept as the exact decimal; the rounding to a
  \<open>float64\<close> (53 bits, half to even) happens where the code truncates the number to a
  \<open>uint64\<close>.  What Go leaves to the implementation, the conversion of a value outside the
  range of \<open>uint64\<close>, is the parameter \<open>oor\<close>.
\<close>

section \<open>Handles\<close>

definition TC_H_ROOT :: "32 word" where "TC_H_ROOT = 0xFFFFFFFF"
definition TC_H_UNSPEC :: "32 word" where "TC_H_UNSPEC = 0"

definition handle_part :: "string \<Rightarrow> 32 word result" where
  "handle_part v =
     (if length v = 0 then Inr 0
      else case ParseUint v 16 16 of
             (n, None) \<Rightarrow> Inr (of_int n)
           | (_, Some _) \<Rightarrow> Inl (Err ''bad value''))"

definition parseHandle :: "string \<Rightarrow> 32 word result" where
  "parseHandle s0 =
     (if s0 = ''root'' then Inr TC_H_ROOT
      else if s0 = ''none'' then Inr TC_H_UNSPEC
      else
        let s = (if CHR ''#'' \<in> set s0 then tl (dropWhile (\<lambda>c. c \<noteq> CHR ''#'') s0) else s0)
        in case split_first CHR '':'' s of
             [v0, v1] \<Rightarrow>
               res_bind (handle_part v0) (\<lambda>mm0.
               res_bind (handle_part v1) (\<lambda>mm1. Inr (push_bit 16 mm0 OR mm1)))
           | _ \<Rightarrow> Inl (Err ''invalid handle''))"

definition sprintHandle :: "32 word \<Rightarrow> string" where
  "sprintHandle h =
     show_hex (uint (drop_bit 16 h)) @ '':'' @
     (if h AND 0xffff \<noteq> 0 then show_hex (uint (h AND 0xffff)) else '''')"

section \<open>Decimal numbers as \<open>float64\<close>\<close>

datatype dec = Dec (dec_neg: bool) (dec_mant: int) (dec_scale: nat)

text \<open>The digit loop of \<open>readFloat\<close>: mantissa and number of digits after the point.\<close>

fun float_body :: "bool \<Rightarrow> bool \<Rightarrow> int \<Rightarrow> nat \<Rightarrow> string \<Rightarrow> (int \<times> nat) option" where
  "float_body dot digits m k [] = (if digits then Some (m, k) else None)"
| "float_body dot digits m k (c # cs) =
     (if c = CHR ''_'' then float_body dot digits m k cs
      else if c = CHR ''.'' then (if dot then None else float_body True digits m k cs)
      else case digit_val c of
             None \<Rightarrow> None
           | Some d \<Rightarrow> if d \<ge> 10 then None
                       else float_body dot True (m * 10 + d) (if dot then k + 1 else k) cs)"

text \<open>\<open>underscoreOK\<close>: an underscore stands between two digits.\<close>

fun underscoreOK :: "char \<Rightarrow> string \<Rightarrow> bool" where
  "underscoreOK saw [] \<longleftrightarrow> saw \<noteq> CHR ''_''"
| "underscoreOK saw (c # cs) \<longleftrightarrow>
     (if digit_val c \<noteq> None \<and> the (digit_val c) < 10 then underscoreOK (CHR ''0'') cs
      else if c = CHR ''_'' then saw = CHR ''0'' \<and> underscoreOK (CHR ''_'') cs
      else saw \<noteq> CHR ''_'' \<and> underscoreOK (CHR ''!'') cs)"

definition ParseFloat :: "string \<Rightarrow> dec result" where
  "ParseFloat s =
     (let sign = (s \<noteq> [] \<and> hd s \<in> set [CHR ''+'', CHR ''-'']);
          body = (if sign then tl s else s)
      in case float_body False False 0 0 body of
           None \<Rightarrow> Inl (Err ''invalid syntax'')
         | Some (m, k) \<Rightarrow>
             if CHR ''_'' \<in> set s \<and> \<not> underscoreOK (CHR ''^'') body
             then Inl (Err ''invalid syntax'')
             else if m \<ge> (2 ^ 1024 - 2 ^ 970) * 10 ^ k then Inl (Err ''value out of range'')
             else Inr (Dec (sign \<and> hd s = CHR ''-'') m k))"

text \<open>Rounding of \<open>a / d\<close> to the nearest integer, halves to even; the nearest \<open>float64\<close> of
  \<open>m / d\<close>, truncated, for \<open>m / d\<close> not negative and for decimals.\<close>

definition round_half_even :: "int \<Rightarrow> int \<Rightarrow> int" where
  "round_half_even a d =
     (let q = a div d; r = a mod d in if 2 * r < d \<or> (2 * r = d \<and> even q) then q else q + 1)"

function bit_len :: "int \<Rightarrow> nat" where
  "bit_len n = (if n \<le> 0 then 0 else Suc (bit_len (n div 2)))"
  by pat_completeness auto
termination by (relation "measure nat") auto

declare bit_len.simps [simp del]

definition float_frac :: "int \<Rightarrow> int \<Rightarrow> int" where
  "float_frac m d =
     (let b = bit_len (m div d)
      in if b \<le> 53 then round_half_even (m * 2 ^ (53 - b)) d div 2 ^ (53 - b)
         else round_half_even m (d * 2 ^ (b - 53)) * 2 ^ (b - 53))"

definition float_trunc :: "int \<Rightarrow> nat \<Rightarrow> int" where
  "float_trunc m k = float_frac m (10 ^ k)"

definition uint64_of :: "(dec \<Rightarrow> 64 word) \<Rightarrow> dec \<Rightarrow> 64 word" where
  "uint64_of oor x =
     (let t = float_trunc (dec_mant x) (dec_scale x)
      in if t < 2 ^ 64 \<and> (\<not> dec_neg x \<or> t = 0) then of_int t else oor x)"

section \<open>Rates, times and sizes\<close>

definition rateSuffixes_src :: "(string, 64 word) gomap" where
  "rateSuffixes_src =
     [(''bit'', 1), (''Kibit'', 1024), (''kbit'', 1000), (''mibit'', 1024 * 1024),
      (''mbit'', 1000000), (''gibit'', 1024 * 1024 * 1024), (''gbit'', 1000000000),
      (''tibit'', 1024 * 1024 * 1024 * 1024), (''tbit'', 1000000000000), (''Bps'', 8),
      (''KiBps'', 8 * 1024), (''KBps'', 8000), (''MiBps'', 8 * 1024 * 1024),
      (''MBps'', 8000000), (''GiBps'', 8 * 1024 * 1024 * 1024), (''GBps'', 8000000000),
      (''TiBps'', 8 * 1024 * 1024 * 1024 * 1024), (''TBps'', 8000000000000)]"

text \<open>The map after \<open>init\<close>: every suffix in lower case.\<close>

definition rateSuffixes :: "(string, 64 word) gomap" where
  "rateSuffixes = map (\<lambda>(suffix, scale). (ToLower suffix, scale)) rateSuffixes_src"

definition parseNumSuffix :: "string \<Rightarrow> (dec \<times> string) result" where
  "parseNumSuffix s =
     (if length s = 0 then Inl (Err ''zero length rate string'')
      else
        let num = takeWhile (\<lambda>c. \<not> is_letter c) s; suffix = dropWhile (\<lambda>c. \<not> is_letter c) s
        in if suffix = [] then Inl (Err ''missing unit suffix'')
           else res_bind (ParseFloat num) (\<lambda>n. Inr (n, suffix)))"

definition ParseRate :: "(dec \<Rightarrow> 64 word) \<Rightarrow> string \<Rightarrow> 64 word result" where
  "ParseRate oor s =
     res_bind (parseNumSuffix s) (\<lambda>(rate, suffix).
       case gm_get rateSuffixes (ToLower suffix) of
         None \<Rightarrow> Inl (Err ''unknown suffix'')
       | Some scale \<Rightarrow> Inr (uint64_of oor rate * scale))"

fun print_rate_loop :: "64 word \<Rightarrow> string list \<Rightarrow> 64 word \<times> string" where
  "print_rate_loop bps [] = (bps, '''')"
| "print_rate_loop bps [u] = (bps, u)"
| "print_rate_loop bps (u # v # us) =
     (if bps < 1000 then (bps, u)
      else if bps mod 1000 \<noteq> 0 \<and> bps < 1000 * 1000 then (bps, u)
      else print_rate_loop (bps div 1000) (v # us))"

definition PrintRate :: "64 word \<Rightarrow> string" where
  "PrintRate bytesPerSec =
     (let (bps, u) = print_rate_loop bytesPerSec ['''', ''K'', ''M'', ''G'', ''T'']
      in show_dec (uint bps) @ u @ ''bit'')"

definition TIME_UNIT_PER_SECOND :: "64 word" where "TIME_UNIT_PER_SECOND = 1000000"

definition ParseTime :: "(dec \<Rightarrow> 64 word) \<Rightarrow> string \<Rightarrow> 64 word result" where
  "ParseTime oor s =
     res_bind (parseNumSuffix s) (\<lambda>(num, suffix).
       let us = uint64_of oor num; u = ToLower suffix
       in if u \<in> set [''s'', ''sec''] then Inr (us * TIME_UNIT_PER_SECOND)
          else if u \<in> set [''ms'', ''msec'', ''msecs''] then Inr (us * TIME_UNIT_PER_SECOND div 1000)
          else if u \<in> set [''us'', ''usec'', ''usecs'']
          then Inr (us * TIME_UNIT_PER_SECOND div 1000000)
          else Inl (Err ''unknown time unit''))"

definition PrintTime :: "64 word \<Rightarrow> string" where
  "PrintTime us =
     (let scales = [(1000 * 1000, ''s''), (1000, ''ms''), (1, ''us'')] :: (64 word \<times> string) list;
          i = (if us \<ge> fst (scales ! 0) then 0 else if us \<ge> fst (scales ! 1) then 1 else 2);
          (nus, unit) = scales ! i
      in if i = 2 then show_dec (uint us) @ unit
         else if us mod nus \<noteq> 0 \<and> us < nus * 1000
         then show_dec (uint (us div fst (scales ! (i + 1)))) @ snd (scales ! (i + 1))
         else show_dec (uint (us div nus)) @ unit)"

definition ParseSize :: "(dec \<Rightarrow> 64 word) \<Rightarrow> string \<Rightarrow> 64 word result" where
  "ParseSize oor s =
     res_bind (parseNumSuffix s) (\<lambda>(num, suffix).
       let bytes = uint64_of oor num; u = ToLower suffix
       in if u \<in> set [''b'', ''''] then Inr bytes
          else if u \<in> set [''kb'', ''k''] then Inr (bytes * 1000)
          else if u \<in> set [''mb'', ''m''] then Inr (bytes * (1000 * 1000))
          else if u \<in> set [''gb'', ''g''] then Inr (bytes * (1000 * 1000 * 1000))
          else if u \<in> set [''tb'', ''t''] then Inr (bytes * (1000 * 1000 * 1000 * 1000))
          else if u = ''kbit'' then Inr (bytes * 125)
          else if u = ''mbit'' then Inr (bytes * 125000)
          else if u = ''gbit'' then Inr (bytes * 125000000)
          else if u = ''tbit'' then Inr (bytes * 125000000000)
          else Inl (Err ''unknown size suffix''))"

definition PrintSize :: "64 word \<Rightarrow> string" where
  "PrintSize bytes =
     (let tbase = 1000 * 1000 * 1000 * 1000; gbase = 1000 * 1000 * 1000; mbase = 1000 * 1000;
          kbase = 1000
      in if bytes \<ge> tbase \<and> bytes div tbase * tbase = bytes
         then show_dec (uint (bytes div tbase)) @ ''Tb''
         else if bytes \<ge> gbase \<and> bytes div gbase * gbase = bytes
         then show_dec (uint (bytes div gbase)) @ ''Gb''
         else if bytes \<ge> mbase \<and> bytes div mbase * mbase = bytes
         then show_dec (uint (bytes div mbase)) @ ''Mb''
         else if bytes \<ge> kbase \<and> bytes div kbase * kbase = bytes
         then show_dec (uint (bytes div kbase)) @ ''Kb''
         else show_dec (uint bytes) @ ''b'')"

section \<open>Handles round trip\<close>

lemma handle_part_show: "0 \<le> n \<Longrightarrow> n < 65536 \<Longrightarrow> handle_part (show_hex n) = Inr (of_int n)"
  using ParseUint_show [of 16 n 16] by (simp add: handle_part_def)

lemma half_words:
  fixes h :: "32 word"
  shows "push_bit 16 (drop_bit 16 h) OR (h AND 0xffff) = h"
    "uint (drop_bit 16 h) < 65536" "uint (h AND 0xffff) < 65536"
proof -
  have mask: "(0xffff :: 32 word) = mask 16" by (simp add: mask_eq_exp_minus_1)
  show "push_bit 16 (drop_bit 16 h) OR (h AND 0xffff) = h"
    unfolding mask by (rule bit_word_eqI) (auto simp: bit_simps)
  show "uint (drop_bit 16 h) < 65536"
    using uint_lt2p [of h] by (simp add: drop_bit_eq_div uint_div)
  show "uint (h AND 0xffff) < 65536"
    unfolding mask by (simp add: take_bit_eq_mask [symmetric] take_bit_eq_mod uint_mod)
qed

lemma show_hex_no: "0 \<le> n \<Longrightarrow> CHR '':'' \<notin> set (show_hex n)" "0 \<le> n \<Longrightarrow> CHR ''#'' \<notin> set (show_hex n)"
  by (rule show_base_no_char; simp add: digit_val_def)+

text \<open>C35: every 32-bit handle is printed to text that parses back to it.\<close>

theorem parseHandle_sprintHandle: "parseHandle (sprintHandle h) = Inr h"
proof -
  define a where "a = show_hex (uint (drop_bit 16 h))"
  define t where "t = (if h AND 0xffff \<noteq> 0 then show_hex (uint (h AND 0xffff)) else '''')"
  have no: "CHR '':'' \<notin> set a" "CHR ''#'' \<notin> set a" "CHR ''#'' \<notin> set t"
    by (auto simp: a_def t_def show_hex_no)
  have "sprintHandle h = a @ CHR '':'' # t" by (simp add: sprintHandle_def a_def t_def)
  moreover have "a @ CHR '':'' # t \<noteq> ''root''" "a @ CHR '':'' # t \<noteq> ''none''"
    by (auto simp: append_eq_Cons_conv)
  moreover have "handle_part a = Inr (drop_bit 16 h)"
    using handle_part_show [of "uint (drop_bit 16 h)"] half_words(2) [of h] by (simp add: a_def)
  moreover have "handle_part t = Inr (h AND 0xffff)"
    using handle_part_show [of "uint (h AND 0xffff)"] half_words(3) [of h]
    by (simp add: t_def handle_part_def [of "''''"])
  ultimately show ?thesis
    using no by (simp add: parseHandle_def split_first_append half_words(1))
qed

section \<open>Decimal integers survive \<open>ParseFloat\<close>\<close>

definition dec_digit :: "char \<Rightarrow> bool" where
  "dec_digit c \<longleftrightarrow> digit_val c \<noteq> None \<and> the (digit_val c) < 10"

lemma show_dec_digits: "0 \<le> n \<Longrightarrow> \<forall>c \<in> set (show_dec n). dec_digit c"
  using show_base_chars [of 10 n] by (auto simp: dec_digit_def)

lemma dec_digit_cases:
  assumes "dec_digit c"
  shows "c \<noteq> CHR ''_''" "c \<noteq> CHR ''.''" "c \<noteq> CHR ''+''" "c \<noteq> CHR ''-''" "\<not> is_letter c"
    "c \<noteq> CHR ''/''" "c \<noteq> CHR '' ''"
  using assms by (auto simp: dec_digit_def digit_val_def is_letter_def Let_def split: if_splits)

lemma float_body_digits:
  assumes "\<forall>c \<in> set xs. dec_digit c"
  shows "float_body False g m 0 (xs @ ys) =
    float_body False (g \<or> xs \<noteq> []) (foldl (\<lambda>m c. m * 10 + the (digit_val c)) m xs) 0 ys"
  using assms
proof (induction xs arbitrary: g m)
  case (Cons c xs)
  then have "dec_digit c" by simp
  with dec_digit_cases [OF this] obtain d where "digit_val c = Some d" "d < 10"
    "c \<noteq> CHR ''_''" "c \<noteq> CHR ''.''" by (auto simp: dec_digit_def)
  with Cons show ?case by simp
qed simp

lemma show_dec_value: "0 \<le> n \<Longrightarrow> foldl (\<lambda>m c. m * 10 + the (digit_val c)) 0 (show_dec n) = n"
proof -
  have "(2::int) \<le> 10" by simp
  then show "0 \<le> n \<Longrightarrow> foldl (\<lambda>m c. m * 10 + the (digit_val c)) 0 (show_dec n) = n"
  proof (induction n rule: digits_induct)
    case (large n)
    then show ?case by (subst show_base.simps) simp
  qed (simp add: show_base.simps)
qed

lemma ParseFloat_show:
  assumes "0 \<le> n" "n < 2 ^ 64"
  shows "ParseFloat (show_dec n) = Inr (Dec False n 0)"
proof -
  let ?s = "show_dec n"
  have hd: "dec_digit (hd ?s)" using show_dec_digits [OF assms(1)] by simp
  have "CHR ''_'' \<notin> set ?s" using show_dec_digits [OF assms(1)] dec_digit_cases(1) by blast
  moreover have "float_body False False 0 0 ?s = Some (n, 0)"
    using float_body_digits [OF show_dec_digits [OF assms(1)], of False 0 "[]"] show_dec_value [OF assms(1)]
    by simp
  moreover have "\<not> n \<ge> (2 ^ 1024 - 2 ^ 970) * 10 ^ 0" using assms(2) by simp
  ultimately show ?thesis
    using dec_digit_cases(3,4) [OF hd] by (simp add: ParseFloat_def Let_def)
qed

lemma bit_len_le: "n < 2 ^ k \<Longrightarrow> bit_len n \<le> k"
proof (induction k arbitrary: n)
  case (Suc k)
  then have "bit_len (n div 2) \<le> k" by (intro Suc.IH) simp
  then show ?case by (subst bit_len.simps) simp
qed (simp add: bit_len.simps)

lemma float_trunc_int: "0 \<le> n \<Longrightarrow> n < 2 ^ 53 \<Longrightarrow> float_trunc n 0 = n"
  using bit_len_le [of n 53] by (simp add: float_trunc_def float_frac_def Let_def round_half_even_def)

lemma uint64_of_int: "0 \<le> n \<Longrightarrow> n < 2 ^ 53 \<Longrightarrow> uint64_of oor (Dec False n 0) = of_int n"
  by (simp add: uint64_of_def float_trunc_int)

lemma parseNumSuffix_show:
  assumes "0 \<le> n" "n < 2 ^ 53" "is_letter c"
  shows "parseNumSuffix (show_dec n @ c # cs) = Inr (Dec False n 0, c # cs)"
proof -
  have nl: "\<forall>d \<in> set (show_dec n). \<not> is_letter d"
    using show_dec_digits [OF assms(1)] dec_digit_cases(5) by blast
  have "takeWhile (\<lambda>c. \<not> is_letter c) (show_dec n @ c # cs) = show_dec n"
    "dropWhile (\<lambda>c. \<not> is_letter c) (show_dec n @ c # cs) = c # cs"
    using nl assms(3) by simp_all
  with ParseFloat_show [of n] assms show ?thesis by (simp add: parseNumSuffix_def)
qed

section \<open>Printing and parsing units\<close>

lemma lower_suffixes:
  "ToLower ''b'' = ''b''" "ToLower ''Kb'' = ''kb''" "ToLower ''Mb'' = ''mb''" "ToLower ''Gb'' = ''gb''"
  "ToLower ''Tb'' = ''tb''" "ToLower ''bit'' = ''bit''" "ToLower ''Kbit'' = ''kbit''"
  "ToLower ''Mbit'' = ''mbit''" "ToLower ''Gbit'' = ''gbit''" "ToLower ''Tbit'' = ''tbit''"
  "ToLower ''s'' = ''s''" "ToLower ''ms'' = ''ms''" "ToLower ''us'' = ''us''"
  by (code_simp)+

lemma suffix_letters:
  "is_letter CHR ''b''" "is_letter CHR ''K''" "is_letter CHR ''M''" "is_letter CHR ''G''"
  "is_letter CHR ''T''" "is_letter CHR ''s''" "is_letter CHR ''m''" "is_letter CHR ''u''"
  by (code_simp)+

lemma num_suffix:
  fixes q :: "64 word"
  assumes "uint q < 2 ^ 53"
  shows "is_letter c \<Longrightarrow> parseNumSuffix (show_dec (uint q) @ c # cs) = Inr (Dec False (uint q) 0, c # cs)"
    "uint64_of oor (Dec False (uint q) 0) = q"
  using assms parseNumSuffix_show [of "uint q" c cs] uint64_of_int [of "uint q" oor] by simp_all

lemma ParseSize_show:
  assumes "uint q < 2 ^ 53"
  shows "ParseSize oor (show_dec (uint q) @ ''b'') = Inr q"
    "ParseSize oor (show_dec (uint q) @ ''Kb'') = Inr (q * 1000)"
    "ParseSize oor (show_dec (uint q) @ ''Mb'') = Inr (q * (1000 * 1000))"
    "ParseSize oor (show_dec (uint q) @ ''Gb'') = Inr (q * (1000 * 1000 * 1000))"
    "ParseSize oor (show_dec (uint q) @ ''Tb'') = Inr (q * (1000 * 1000 * 1000 * 1000))"
  by (simp_all add: ParseSize_def num_suffix [OF assms] suffix_letters lower_suffixes)

lemma uint_div_lt:
  fixes n d :: "64 word"
  assumes "uint n < B"
  shows "uint (n div d) < B"
proof -
  have "n div d \<le> n" by (simp add: word_le_nat_alt unat_div)
  with assms show ?thesis by (simp add: word_le_def)
qed

text \<open>Sizes below $2^{53}$ bytes survive printing and parsing exactly.\<close>

theorem ParseSize_PrintSize:
  assumes "n < 2 ^ 53"
  shows "ParseSize oor (PrintSize n) = Inr n"
proof -
  have "uint n < 2 ^ 53" using assms by (simp add: word_less_def)
  then have "uint (n div d) < 2 ^ 53" for d by (rule uint_div_lt)
  from ParseSize_show [OF this] ParseSize_show(1) [OF \<open>uint n < 2 ^ 53\<close>] show ?thesis
    by (simp add: PrintSize_def Let_def)
qed

theorem ParseSize_PrintSize_witness: "ParseSize (\<lambda>_. 0) (PrintSize 12500) = Inr 12500"
  by (rule ParseSize_PrintSize) simp

text \<open>What the rate loop loses: with \<open>k\<close> divisions by 1000, either nothing, or the part below
  some \<open>1000\<^sup>t\<close> of a number of at least \<open>1000 * 1000\<^sup>t\<close>.\<close>

definition rate_loss :: "int \<Rightarrow> int \<Rightarrow> nat \<Rightarrow> bool" where
  "rate_loss n q k \<longleftrightarrow> q * 1000 ^ k = n \<or>
     (\<exists>t. n div 1000 ^ t \<ge> 1000 \<and> q * 1000 ^ k = n div 1000 ^ t * 1000 ^ t)"

lemma rate_loss_step:
  assumes "rate_loss (n div 1000) q k" "n mod 1000 = 0 \<or> n \<ge> 1000000"
  shows "rate_loss n q (Suc k)"
proof -
  consider "q * 1000 ^ k = n div 1000" | t where "n div 1000 div 1000 ^ t \<ge> 1000"
      "q * 1000 ^ k = n div 1000 div 1000 ^ t * 1000 ^ t"
    using assms(1) by (auto simp: rate_loss_def)
  then show ?thesis
  proof cases
    case 1
    then have "q * 1000 ^ Suc k = n div 1000 ^ 1 * 1000 ^ 1" by simp
    with assms(2) show ?thesis
      unfolding rate_loss_def by (cases "n mod 1000 = 0") (auto intro!: exI [of _ 1])
  next
    case 2
    then have "n div 1000 ^ Suc t \<ge> 1000" "q * 1000 ^ Suc k = n div 1000 ^ Suc t * 1000 ^ Suc t"
      by (simp_all add: zdiv_zmult2_eq)
    then show ?thesis unfolding rate_loss_def by blast
  qed
qed

lemma rate_loss_bound:
  assumes "rate_loss n q k" "0 \<le> n"
  shows "q * 1000 ^ k \<le> n \<and> 1000 * (n - q * 1000 ^ k) \<le> n"
proof -
  consider "q * 1000 ^ k = n" | t where "n div 1000 ^ t \<ge> 1000" "q * 1000 ^ k = n div 1000 ^ t * 1000 ^ t"
    using assms(1) by (auto simp: rate_loss_def)
  then show ?thesis
  proof cases
    case 2
    define x p r where "x = n div 1000 ^ t * 1000 ^ t" and "p = (1000 :: int) ^ t" and "r = n mod p"
    have "n = x + r" unfolding x_def r_def p_def by (simp only: div_mult_mod_eq)
    moreover have "r < p" "0 \<le> r" by (simp_all add: r_def p_def)
    moreover have "1000 * p \<le> x" using 2(1) unfolding x_def p_def by (intro mult_right_mono) auto
    ultimately have "x \<le> n" "1000 * (n - x) = 1000 * r" "1000 * r \<le> 1000 * p" "1000 * p \<le> x"
      by simp_all
    then have "x \<le> n \<and> 1000 * (n - x) \<le> n" by (metis order_trans)
    then show ?thesis by (simp only: 2(2) x_def)
  qed (use assms in simp)
qed

lemma print_rate_loop_loss:
  assumes "print_rate_loop bps us = (q, u)" "us \<noteq> []"
  shows "\<exists>j < length us. u = us ! j \<and> rate_loss (uint bps) (uint q) j
      \<and> (uint q < 1000000 \<or> Suc j = length us \<and> uint q = uint bps div 1000 ^ j)"
  using assms
proof (induction bps us rule: print_rate_loop.induct)
  case (3 bps u0 v us)
  show ?case
  proof (cases "bps < 1000 \<or> bps mod 1000 \<noteq> 0 \<and> bps < 1000 * 1000")
    case True
    then have "uint bps < 1000000" by (auto simp: word_less_def)
    moreover from True "3.prems" have "q = bps" "u = u0" by (auto split: if_splits)
    ultimately show ?thesis by (intro exI [of _ 0]) (simp add: rate_loss_def)
  next
    case False
    then have div: "uint bps mod 1000 = 0 \<or> uint bps \<ge> 1000000"
      by (auto simp: word_less_def word_uint_eq_iff uint_mod)
    from False have "\<not> bps < 1000" "\<not> (bps mod 1000 \<noteq> 0 \<and> bps < 1000 * 1000)" by blast+
    moreover from this "3.prems" have "print_rate_loop (bps div 1000) (v # us) = (q, u)"
      by (simp only: print_rate_loop.simps if_False)
    ultimately obtain j where j: "j < length (v # us)" "u = (v # us) ! j"
      "rate_loss (uint bps div 1000) (uint q) j"
      "uint q < 1000000 \<or> Suc j = length (v # us) \<and> uint q = uint bps div 1000 div 1000 ^ j"
      using "3.IH" unfolding uint_div by (auto simp del: length_Cons)
    from rate_loss_step [OF j(3) div] j show ?thesis
      by (intro exI [of _ "Suc j"]) (auto simp: zdiv_zmult2_eq)
  qed
qed (auto simp: rate_loss_def)

lemma rate_lookup:
  "gm_get rateSuffixes ''bit'' = Some 1" "gm_get rateSuffixes ''kbit'' = Some 1000"
  "gm_get rateSuffixes ''mbit'' = Some (1000 * 1000)"
  "gm_get rateSuffixes ''gbit'' = Some (1000 * 1000 * 1000)"
  "gm_get rateSuffixes ''tbit'' = Some (1000 * 1000 * 1000 * 1000)"
  by (code_simp)+

lemma ParseRate_show:
  assumes "uint q < 2 ^ 53" "j < 5"
  shows "ParseRate oor (show_dec (uint q) @ ['''', ''K'', ''M'', ''G'', ''T''] ! j @ ''bit'')
    = Inr (q * 1000 ^ j)"
proof -
  consider "j = 0" | "j = 1" | "j = 2" | "j = 3" | "j = 4" using assms(2) by linarith
  then show ?thesis
    by cases (simp_all add: ParseRate_def num_suffix [OF assms(1)] suffix_letters lower_suffixes
        rate_lookup)
qed

text \<open>C36: parsing a printed rate gives back the rate rounded down, by less than one part in a
  thousand, for every 64-bit rate.\<close>

theorem ParseRate_PrintRate:
  "\<exists>m. ParseRate oor (PrintRate n) = Inr m \<and> m \<le> n \<and> 1000 * uint (n - m) \<le> uint n"
proof -
  obtain q u where r: "print_rate_loop n ['''', ''K'', ''M'', ''G'', ''T''] = (q, u)" by fastforce
  from print_rate_loop_loss [OF r] obtain j where j: "j < 5" "u = ['''', ''K'', ''M'', ''G'', ''T''] ! j"
    "rate_loss (uint n) (uint q) j" "uint q < 1000000 \<or> j = 4 \<and> uint q = uint n div 1000 ^ j"
    by (auto simp: numeral_eq_Suc)
  have "uint n < 2 ^ 64" using uint_lt2p [of n] by simp
  with j(4) have q: "uint q < 2 ^ 53" by auto
  from rate_loss_bound [OF j(3)] have b: "uint q * 1000 ^ j \<le> uint n"
    "1000 * (uint n - uint q * 1000 ^ j) \<le> uint n" by simp_all
  have "uint (q * 1000 ^ j) = uint q * 1000 ^ j"
  proof -
    have "q * 1000 ^ j = of_int (uint q * 1000 ^ j)" by simp
    then show ?thesis using b(1) \<open>uint n < 2 ^ 64\<close>
      by (simp only: uint_word_of_int) (simp add: zmod_trivial_iff)
  qed
  moreover have "ParseRate oor (PrintRate n) = Inr (q * 1000 ^ j)"
    using ParseRate_show [OF q j(1)] r j(2) by (simp add: PrintRate_def)
  ultimately show ?thesis using b by (auto simp: word_le_def uint_sub_if')
qed


lemma ParseTime_show:
  assumes "uint q < 2 ^ 53"
  shows "ParseTime oor (show_dec (uint q) @ ''s'') = Inr (q * 1000000)"
    "ParseTime oor (show_dec (uint q) @ ''ms'') = Inr (q * 1000000 div 1000)"
    "ParseTime oor (show_dec (uint q) @ ''us'') = Inr (q * 1000000 div 1000000)"
  by (simp_all add: ParseTime_def num_suffix [OF assms] suffix_letters lower_suffixes
      TIME_UNIT_PER_SECOND_def)

lemma uint_mult_small: "uint (a :: 64 word) * uint b < 2 ^ 64 \<Longrightarrow> uint (a * b) = uint a * uint b"
  by (simp add: uint_word_ariths zmod_trivial_iff)

lemma time_scaled:
  fixes q :: "64 word"
  assumes "uint q < 1000000"
  shows "q * 1000000 div 1000 = q * 1000" "q * 1000000 div 1000000 = q" "uint (q * 1000) = uint q * 1000"
proof -
  have "uint (q * 1000000) = uint q * 1000000" "uint (q * 1000) = uint q * 1000"
    using assms uint_mult_small [of q 1000000] uint_mult_small [of q 1000] by simp_all
  then show "q * 1000000 div 1000 = q * 1000" "q * 1000000 div 1000000 = q"
    "uint (q * 1000) = uint q * 1000"
    by (simp_all add: word_uint_eq_iff uint_div)
qed

lemma round_down_ok:
  fixes us m :: "64 word"
  assumes "uint m = uint us - uint us mod d" "0 < d" "uint us mod d = 0 \<or> 1000 * d \<le> uint us"
  shows "m \<le> us" "1000 * uint (us - m) \<le> uint us"
proof -
  define r where "r = uint us mod d"
  have r: "0 \<le> r" "r < d" "uint m = uint us - r" "r = 0 \<or> 1000 * d \<le> uint us"
    using assms by (simp_all add: r_def)
  then show "m \<le> us" by (simp add: word_le_def)
  with r show "1000 * uint (us - m) \<le> uint us" by (auto simp: uint_sub_if' word_le_def)
qed

text \<open>Parsing a printed duration gives it back rounded down, by at most one part in a
  thousand; durations below a second and whole seconds are exact.\<close>

theorem ParseTime_PrintTime:
  "\<exists>m. ParseTime oor (PrintTime us) = Inr m \<and> m \<le> us \<and> 1000 * uint (us - m) \<le> uint us
     \<and> (m = us \<or> 1000000 \<le> us \<and> 0 < us mod 1000000)"
proof -
  have lt: "uint us < 2 ^ 64" using uint_lt2p [of us] by simp
  consider (s) "us \<ge> 1000000" "us mod 1000000 = 0 \<or> us \<ge> 1000000000"
    | (ms) "us \<ge> 1000000" "us mod 1000000 \<noteq> 0" "us < 1000000000"
    | (ms2) "us < 1000000" "us \<ge> 1000" "us mod 1000 = 0"
    | (us) "us < 1000000" "us < 1000 \<or> us mod 1000 \<noteq> 0"
    by fastforce
  then show ?thesis
  proof cases
    case s
    define m where "m = us div 1000000 * 1000000"
    have "PrintTime us = show_dec (uint (us div 1000000)) @ ''s''"
      using s by (auto simp: PrintTime_def Let_def)
    moreover have "uint (us div 1000000) < 2 ^ 53" using lt by (simp add: uint_div)
    ultimately have "ParseTime oor (PrintTime us) = Inr m"
      using ParseTime_show(1) [of "us div 1000000" oor] by (simp add: m_def)
    moreover have um: "uint m = uint us - uint us mod 1000000"
      using lt uint_mult_small [of "us div 1000000" 1000000]
      by (simp add: m_def uint_div minus_mod_eq_div_mult)
    moreover have "uint us mod 1000000 = 0 \<or> uint us \<ge> 1000 * 1000000"
      using s(2) by (auto simp: word_le_def word_uint_eq_iff uint_mod)
    moreover have "us mod 1000000 = 0 \<longrightarrow> m = us"
      using um by (auto simp: word_uint_eq_iff uint_mod)
    ultimately show ?thesis using s(1) round_down_ok [OF um] by (intro exI [of _ m]) (auto simp: word_gt_0)
  next
    case ms
    define m where "m = us div 1000 * 1000"
    have "PrintTime us = show_dec (uint (us div 1000)) @ ''ms''"
      using ms by (auto simp: PrintTime_def Let_def)
    moreover have q: "uint (us div 1000) < 1000000" using ms by (simp add: uint_div word_less_def)
    ultimately have "ParseTime oor (PrintTime us) = Inr m"
      using ParseTime_show(2) [of "us div 1000" oor] time_scaled [OF q] by (simp add: m_def)
    moreover have um: "uint m = uint us - uint us mod 1000"
      using time_scaled(3) [OF q] by (simp add: m_def uint_div minus_mod_eq_div_mult)
    moreover have "uint us \<ge> 1000 * 1000" using ms(1) by (simp add: word_le_def)
    ultimately show ?thesis using ms(1,2) round_down_ok [OF um] by (intro exI [of _ m]) (auto simp: word_gt_0)
  next
    case ms2
    then have "PrintTime us = show_dec (uint (us div 1000)) @ ''ms''"
      by (auto simp: PrintTime_def Let_def)
    moreover have q: "uint (us div 1000) < 1000000" using ms2 by (simp add: uint_div word_less_def)
    moreover have "us div 1000 * 1000 = us"
      using ms2(3) time_scaled(3) [OF q] by (auto simp: word_uint_eq_iff uint_div uint_mod)
    ultimately show ?thesis using ms2 ParseTime_show(2) [of "us div 1000" oor] time_scaled [OF q]
      by simp
  next
    case us
    then have "PrintTime us = show_dec (uint us) @ ''us''"
      by (auto simp: PrintTime_def Let_def)
    moreover have q: "uint us < 1000000" using us by (simp add: word_less_def)
    ultimately show ?thesis using ParseTime_show(3) [of us oor] time_scaled [OF q] by simp
  qed
qed

end
