(* ===== verification/TcObjs.thy ===== *)
theory TcObjs
  imports TcUnits
begin

text \<open>
  The traffic control objects of \<open>pkg/tc\<close>: qdiscs (\<open>qdisc.go\<close>, \<open>qdisc_tbf.go\<close>,
  \<open>qdisc_htb.go\<close>, \<open>qdisc_ingress.go\<close>), classes (\<open>class.go\<close>) and filters (\<open>filter.go\<close>):
  their comparison, the command lines they print and the parsers of the output of
  \<open>tc ... show\<close>.

  A type assertion without \<open>ok\<close> panics when it fails, so the full comparisons return a
  \<open>result\<close>.  The pointers to embedded base structs are records inside the objects.
\<close>

section \<open>Class ids\<close>

definition convertClassId :: "string \<Rightarrow> int \<times> int" where
  "convertClassId classId =
     (let parts = split_on CHR '':'' classId
      in (if length parts > 0 then fst (ParseUint (parts ! 0) 16 64) else 0,
          if length parts > 1 then fst (ParseUint (parts ! 1) 16 64) else 0))"

definition compareClassId :: "string \<Rightarrow> string \<Rightarrow> int" where
  "compareClassId classId1 classId2 =
     (let (major1, minor1) = convertClassId classId1;
          (major2, minor2) = convertClassId classId2
      in if major1 < major2 then - 1 else if major1 > major2 then 1
         else if minor1 < minor2 then - 1 else if minor1 > minor2 then 1
         else 0)"

section \<open>Qdiscs\<close>

record SBaseTcQdisc =
  qKind :: string
  qHandle :: string
  qParent :: string
  qRoot :: bool

datatype qdisc =
    QdiscTbf SBaseTcQdisc (tbfRate: "64 word") (tbfBurst: "64 word") (tbfLatency: "64 word")
  | QdiscHtb SBaseTcQdisc (htbDefaultClass: "16 word")
  | QdiscIngress SBaseTcQdisc

fun qdisc_Base :: "qdisc \<Rightarrow> SBaseTcQdisc" where
  "qdisc_Base (QdiscTbf b _ _ _) = b"
| "qdisc_Base (QdiscHtb b _) = b"
| "qdisc_Base (QdiscIngress b) = b"

definition qdisc_Id :: "qdisc \<Rightarrow> string" where
  "qdisc_Id q = qHandle (qdisc_Base q)"

definition qdisc_IsRoot :: "qdisc \<Rightarrow> bool" where
  "qdisc_IsRoot q = qRoot (qdisc_Base q)"

definition SBaseTcQdisc_Compare :: "SBaseTcQdisc \<Rightarrow> SBaseTcQdisc \<Rightarrow> int" where
  "SBaseTcQdisc_Compare q q2 =
     (if qRoot q \<noteq> qRoot q2 then (if qRoot q then - 1 else 1)
      else if qHandle q \<noteq> qHandle q2 then compareClassId (qHandle q) (qHandle q2)
      else if qKind q \<noteq> qKind q2 then strings_Compare (qKind q) (qKind q2)
      else if qParent q \<noteq> qParent q2 then strings_Compare (qParent q) (qParent q2)
      else 0)"

definition qdisc_CompareBase :: "qdisc \<Rightarrow> qdisc \<Rightarrow> int" where
  "qdisc_CompareBase q qi = SBaseTcQdisc_Compare (qdisc_Base q) (qdisc_Base qi)"

definition type_assertion :: "'a result" where
  "type_assertion = Inl (Panic ''interface conversion'')"

text \<open>The parameters of a \<open>QdiscTbf\<close>: burst and latency with a tolerance.  The sums are only
  reached where they are compared to a larger number, but may wrap.\<close>

definition tbf_params :: "64 word \<Rightarrow> 64 word \<Rightarrow> 64 word \<Rightarrow> 64 word \<Rightarrow> 64 word \<Rightarrow> 64 word \<Rightarrow> int" where
  "tbf_params r b l r2 b2 l2 =
     (if r < r2 then - 1 else if r > r2 then 1
      else if b < b2 \<and> b + 500 < b2 then - 1 else if b > b2 \<and> b - 500 > b2 then 1
      else if l < l2 \<and> l + 70000 < l2 then - 1 else if l > l2 \<and> l - 70000 > l2 then 1
      else 0)"

definition QdiscHtb_Compare :: "SBaseTcQdisc \<Rightarrow> 16 word \<Rightarrow> qdisc \<Rightarrow> int result" where
  [simp]: "QdiscHtb_Compare q c itc =
     (let baseCmp = SBaseTcQdisc_Compare q (qdisc_Base itc)
      in if baseCmp \<noteq> 0 then Inr baseCmp
         else case itc of
                QdiscHtb q2 c2 \<Rightarrow> Inr (if c < c2 then - 1 else if c > c2 then 1 else 0)
              | _ \<Rightarrow> type_assertion)"

definition QdiscIngress_Compare :: "SBaseTcQdisc \<Rightarrow> qdisc \<Rightarrow> int result" where
  [simp]: "QdiscIngress_Compare q itc =
     (let baseCmp = SBaseTcQdisc_Compare q (qdisc_Base itc)
      in if baseCmp \<noteq> 0 then Inr baseCmp else Inr 0)"

fun qdisc_Compare :: "qdisc \<Rightarrow> qdisc \<Rightarrow> int result" where
  "qdisc_Compare (QdiscTbf q r b l) itc =
     (let baseCmp = SBaseTcQdisc_Compare q (qdisc_Base itc)
      in if baseCmp \<noteq> 0 then Inr baseCmp
         else case itc of
                QdiscTbf q2 r2 b2 l2 \<Rightarrow> Inr (tbf_params r b l r2 b2 l2)
              | _ \<Rightarrow> type_assertion)"
| "qdisc_Compare (QdiscHtb q c) itc = QdiscHtb_Compare q c itc"
| "qdisc_Compare (QdiscIngress q) itc = QdiscIngress_Compare q itc"

definition qdisc_Equals :: "qdisc \<Rightarrow> qdisc \<Rightarrow> bool result" where
  "qdisc_Equals q qi = res_bind (qdisc_Compare q qi) (\<lambda>c. Inr (c = 0))"

definition qdisc_basicLineElements :: "SBaseTcQdisc \<Rightarrow> string \<Rightarrow> string \<Rightarrow> string list" where
  "qdisc_basicLineElements q action ifname =
     [''qdisc'', action, ''dev'', ifname]
     @ (if qRoot q then [''root'']
        else if length (qParent q) > 0 \<and> qKind q \<noteq> ''ingress'' then [''parent'', qParent q]
        else [])
     @ [''handle'', qHandle q]"

definition qdisc_DeleteLine :: "qdisc \<Rightarrow> string \<Rightarrow> string list" where
  "qdisc_DeleteLine q ifname = qdisc_basicLineElements (qdisc_Base q) ''delete'' ifname"

definition QdiscHtb_basicLine :: "SBaseTcQdisc \<Rightarrow> 16 word \<Rightarrow> string \<Rightarrow> string \<Rightarrow> string list" where
  [simp]: "QdiscHtb_basicLine q defaultClass action ifname =
     qdisc_basicLineElements q action ifname
     @ [qKind q, ''default'', ''0x'' @ show_hex (uint defaultClass)]"

definition QdiscIngress_basicLine :: "SBaseTcQdisc \<Rightarrow> string \<Rightarrow> string \<Rightarrow> string list" where
  [simp]: "QdiscIngress_basicLine q action ifname = qdisc_basicLineElements q action ifname @ [qKind q]"

fun qdisc_basicLine :: "qdisc \<Rightarrow> string \<Rightarrow> string \<Rightarrow> string list" where
  "qdisc_basicLine (QdiscTbf q rate burst latency) action ifname =
     qdisc_basicLineElements q action ifname
     @ [qKind q, ''rate'', PrintRate rate, ''burst'', PrintSize burst]
     @ (if latency \<noteq> 0 then [''latency'', PrintTime latency] else [])"
| "qdisc_basicLine (QdiscHtb q defaultClass) action ifname = QdiscHtb_basicLine q defaultClass action ifname"
| "qdisc_basicLine (QdiscIngress q) action ifname = QdiscIngress_basicLine q action ifname"

definition qdisc_AddLine :: "qdisc \<Rightarrow> string \<Rightarrow> string list" where
  "qdisc_AddLine q ifname = qdisc_basicLine q ''add'' ifname"

definition qdisc_ReplaceLine :: "qdisc \<Rightarrow> string \<Rightarrow> string list" where
  "qdisc_ReplaceLine q ifname = qdisc_basicLine q ''replace'' ifname"

fun parseBaseQdisc_loop :: "SBaseTcQdisc \<Rightarrow> string list \<Rightarrow> SBaseTcQdisc result" where
  "parseBaseQdisc_loop q [] = Inr q"
| "parseBaseQdisc_loop q (c # cs) =
     (if c = ''qdisc'' then
        (case cs of
           kind # handle # cs' \<Rightarrow> parseBaseQdisc_loop (q\<lparr>qKind := kind, qHandle := handle\<rparr>) cs'
         | _ \<Rightarrow> Inl (Err ''eol before getting qdisc type''))
      else if c = ''root'' then parseBaseQdisc_loop (q\<lparr>qRoot := True\<rparr>) cs
      else if c = ''parent'' then
        (case cs of
           parent # cs' \<Rightarrow>
             parseBaseQdisc_loop (if qKind q \<noteq> ''ingress'' then q\<lparr>qParent := parent\<rparr> else q) cs'
         | _ \<Rightarrow> Inl (Err ''eol getting parent handle''))
      else parseBaseQdisc_loop q cs)"

definition parseBaseQdisc :: "string list \<Rightarrow> SBaseTcQdisc result" where
  "parseBaseQdisc chunks =
     res_bind (parseBaseQdisc_loop \<lparr>qKind = '''', qHandle = '''', qParent = '''', qRoot = False\<rparr> chunks)
       (\<lambda>q. if length (qKind q) = 0 then Inl (Err ''kind is missing'') else Inr q)"

text \<open>
  The \<open>for i, c := range chunks\<close> loops of the tbf and htb parsers: the assignments to \<open>i\<close> in
  the body do not move the loop, so every chunk is looked at.
\<close>

fun parseQdiscTbf ::
  "(dec \<Rightarrow> 64 word) \<Rightarrow> 64 word \<times> 64 word \<times> 64 word \<Rightarrow> string list
   \<Rightarrow> (64 word \<times> 64 word \<times> 64 word) result" where
  "parseQdiscTbf oor q [] = Inr q"
| "parseQdiscTbf oor (rate, burst, latency) (c # cs) =
     (if c = ''rate'' then
        (case cs of [] \<Rightarrow> Inl (Err ''eol getting rate'')
         | v # _ \<Rightarrow> res_bind (ParseRate oor v) (\<lambda>r. parseQdiscTbf oor (r, burst, latency) cs))
      else if c = ''burst'' then
        (case cs of [] \<Rightarrow> Inl (Err ''eol getting burst'')
         | v # _ \<Rightarrow> res_bind (ParseSize oor (hd (split_on CHR ''/'' v)))
                       (\<lambda>b. parseQdiscTbf oor (rate, b, latency) cs))
      else if c \<in> set [''latency'', ''lat''] then
        (case cs of [] \<Rightarrow> Inl (Err ''eol getting latency'')
         | v # _ \<Rightarrow> res_bind (ParseTime oor v) (\<lambda>l. parseQdiscTbf oor (rate, burst, l) cs))
      else parseQdiscTbf oor (rate, burst, latency) cs)"

text \<open>A number with an optional \<open>0x\<close> prefix, as the parsers read default classes and
  handles.\<close>

definition parse_num_0x :: "string \<Rightarrow> int result" where
  "parse_num_0x s =
     (let (n, err) = (if HasPrefix s ''0x'' then ParseUint (drop 2 s) 16 64 else ParseUint s 10 64)
      in case err of None \<Rightarrow> Inr n | Some _ \<Rightarrow> Inl (Err ''strconv.ParseUint''))"

fun parseQdiscHtb :: "16 word \<Rightarrow> string list \<Rightarrow> 16 word result" where
  "parseQdiscHtb q [] = Inr q"
| "parseQdiscHtb q (c # cs) =
     (if c = ''default'' then
        (case cs of [] \<Rightarrow> Inl (Err ''eol getting default class'')
         | v # _ \<Rightarrow> res_bind (parse_num_0x v) (\<lambda>n. parseQdiscHtb (of_int n) cs))
      else parseQdiscHtb q cs)"

definition parseQdisc :: "(dec \<Rightarrow> 64 word) \<Rightarrow> string list \<Rightarrow> qdisc result" where
  "parseQdisc oor chunks =
     res_bind (parseBaseQdisc chunks) (\<lambda>bq.
       if qKind bq = ''htb'' then res_bind (parseQdiscHtb 0 chunks) (\<lambda>c. Inr (QdiscHtb bq c))
       else if qKind bq = ''tbf'' then
         res_bind (parseQdiscTbf oor (0, 0, 0) chunks) (\<lambda>(r, b, l). Inr (QdiscTbf bq r b l))
       else if qKind bq = ''ingress'' then Inr (QdiscIngress bq)
       else Inl (Err ''unknown qdisc type''))"

definition line_chunks :: "string \<Rightarrow> string list" where
  "line_chunks line = split_on CHR '' '' (TrimSpace line)"

fun oks :: "('e + 'a) list \<Rightarrow> 'a list" where
  "oks [] = []"
| "oks (Inl e # rs) = oks rs"
| "oks (Inr x # rs) = x # oks rs"

definition parseQdiscLines :: "(dec \<Rightarrow> 64 word) \<Rightarrow> string list \<Rightarrow> qdisc list" where
  "parseQdiscLines oor lines = oks (map (\<lambda>line. parseQdisc oor (line_chunks line)) lines)"

section \<open>Classes\<close>

text \<open>Every class that the program keeps is an \<open>SHtbClass\<close>; \<open>SBaseTcClass\<close> alone only occurs
  beside a parse error.\<close>

datatype tc_class =
  SHtbClass (cKind: string) (cClassId: string) (cParent: "tc_class option")
    (cRate: "64 word") (cCeil: "64 word")

definition class_IsRoot :: "tc_class \<Rightarrow> bool" where
  "class_IsRoot c \<longleftrightarrow> cParent c = None"

definition SBaseTcClass_Compare :: "tc_class \<Rightarrow> tc_class \<Rightarrow> int" where
  "SBaseTcClass_Compare q q2 =
     (if cClassId q \<noteq> cClassId q2 then compareClassId (cClassId q) (cClassId q2)
      else if cKind q \<noteq> cKind q2 then strings_Compare (cKind q) (cKind q2)
      else case (cParent q, cParent q2) of
             (None, Some _) \<Rightarrow> - 1
           | (Some _, None) \<Rightarrow> 1
           | (Some p, Some p2) \<Rightarrow>
               if cClassId p \<noteq> cClassId p2 then compareClassId (cClassId p) (cClassId p2) else 0
           | (None, None) \<Rightarrow> 0)"

definition class_Compare :: "tc_class \<Rightarrow> tc_class \<Rightarrow> int" where
  "class_Compare q q2 =
     (let baseCmp = SBaseTcClass_Compare q q2
      in if baseCmp \<noteq> 0 then baseCmp
         else if cRate q < cRate q2 then - 1 else if cRate q > cRate q2 then 1
         else if cCeil q < cCeil q2 then - 1 else if cCeil q > cCeil q2 then 1
         else 0)"

definition class_Equals :: "tc_class \<Rightarrow> tc_class \<Rightarrow> bool" where
  "class_Equals q q2 \<longleftrightarrow> class_Compare q q2 = 0"

definition SBaseTcClass_basicLineElements :: "tc_class \<Rightarrow> string \<Rightarrow> string \<Rightarrow> string list" where
  "SBaseTcClass_basicLineElements cls action ifname =
     [''class'', action, ''dev'', ifname]
     @ (case cParent cls of Some p \<Rightarrow> [''parent'', cClassId p] | None \<Rightarrow> [''parent'', ''1:''])
     @ [''classid'', cClassId cls, cKind cls]"

definition class_basicLineElements :: "tc_class \<Rightarrow> string \<Rightarrow> string \<Rightarrow> string list" where
  "class_basicLineElements cls action ifname =
     SBaseTcClass_basicLineElements cls action ifname
     @ [''rate'', PrintRate (cRate cls), ''ceil'', PrintRate (cCeil cls)]"

definition class_AddLine :: "tc_class \<Rightarrow> string \<Rightarrow> string list" where
  "class_AddLine cls ifname = class_basicLineElements cls ''add'' ifname"

definition class_ReplaceLine :: "tc_class \<Rightarrow> string \<Rightarrow> string list" where
  "class_ReplaceLine cls ifname = class_basicLineElements cls ''replace'' ifname"

definition class_DeleteLine :: "tc_class \<Rightarrow> string \<Rightarrow> string list" where
  "class_DeleteLine cls ifname = class_basicLineElements cls ''delete'' ifname"

text \<open>\<open>ErrParentClassNotFound\<close> carries the id of the class that was being parsed.\<close>

datatype class_err = ParentNotFound string | ClassErr string

fun parseBaseClass ::
  "string \<times> string \<times> tc_class option \<Rightarrow> string list \<Rightarrow> tc_class list
   \<Rightarrow> class_err + string \<times> string \<times> tc_class option" where
  "parseBaseClass cls [] existing = Inr cls"
| "parseBaseClass (kind, cid, parent) (c # cs) existing =
     (if c = ''class'' then
        (case cs of
           k # i # cs' \<Rightarrow> parseBaseClass (k, i, parent) cs' existing
         | _ \<Rightarrow> Inl (ClassErr ''eol before getting class id''))
      else if c = ''parent'' then
        (case cs of
           [] \<Rightarrow> Inl (ClassErr ''eol before getting parent'')
         | parentId # cs' \<Rightarrow>
             let parent' = (case find (\<lambda>pcls. cClassId pcls = parentId) existing of
                              Some pcls \<Rightarrow> Some pcls | None \<Rightarrow> parent)
             in if parent' = None then Inl (ParentNotFound cid)
                else parseBaseClass (kind, cid, parent') cs' existing)
      else parseBaseClass (kind, cid, parent) cs existing)"

fun parseHtbClass ::
  "(dec \<Rightarrow> 64 word) \<Rightarrow> 64 word \<times> 64 word \<Rightarrow> string list \<Rightarrow> (64 word \<times> 64 word) result" where
  "parseHtbClass oor cls [] = Inr cls"
| "parseHtbClass oor (rate, ceil) (c # cs) =
     (if c = ''rate'' then
        (case cs of [] \<Rightarrow> Inl (Err ''eol getting rate'')
         | v # cs' \<Rightarrow> res_bind (ParseRate oor v) (\<lambda>r. parseHtbClass oor (r, ceil) cs'))
      else if c = ''ceil'' then
        (case cs of [] \<Rightarrow> Inl (Err ''eol getting ceil'')
         | v # cs' \<Rightarrow> res_bind (ParseRate oor v) (\<lambda>r. parseHtbClass oor (rate, r) cs'))
      else parseHtbClass oor (rate, ceil) cs)"

definition parseClass :: "(dec \<Rightarrow> 64 word) \<Rightarrow> string list \<Rightarrow> tc_class list \<Rightarrow> class_err + tc_class" where
  "parseClass oor chunks existing =
     (case parseBaseClass ('''', '''', None) chunks existing of
        Inl e \<Rightarrow> Inl e
      | Inr (kind, cid, parent) \<Rightarrow>
          if kind = ''htb'' then
            (case parseHtbClass oor (0, 0) chunks of
               Inl _ \<Rightarrow> Inl (ClassErr ''parse htb class'')
             | Inr (rate, ceil) \<Rightarrow> Inr (SHtbClass kind cid parent rate ceil))
          else Inl (ClassErr ''unknown class kind''))"

text \<open>One pass over the left-over lines: the classes found, the lines to try again, and the
  ids that were put off.\<close>

fun class_pass ::
  "(dec \<Rightarrow> 64 word) \<Rightarrow> string list \<Rightarrow> tc_class list \<Rightarrow> string list
   \<Rightarrow> tc_class list \<times> string list \<times> string list" where
  "class_pass oor [] classes visited = (classes, [], visited)"
| "class_pass oor (line # ls) classes visited =
     (case parseClass oor (line_chunks line) classes of
        Inl (ParentNotFound cid) \<Rightarrow>
          if cid \<in> set visited then class_pass oor ls classes visited
          else let (cs, np, vis) = class_pass oor ls classes (cid # visited) in (cs, line # np, vis)
      | Inl (ClassErr _) \<Rightarrow> class_pass oor ls classes visited
      | Inr cls \<Rightarrow> class_pass oor ls (classes @ [cls]) visited)"

text \<open>
  The outer loop of \<open>parseClassLines\<close> ends because every line that is put off has an id that
  was not put off before, and the ids are words of the lines.
\<close>

definition line_ids :: "string list \<Rightarrow> string set" where
  "line_ids lines = insert '''' (\<Union>line \<in> set lines. set (line_chunks line))"

lemma parseBaseClass_id:
  "parseBaseClass cls chunks existing = Inl (ParentNotFound x) \<Longrightarrow>
   x = fst (snd cls) \<or> x \<in> set chunks"
  by (induction cls chunks existing rule: parseBaseClass.induct)
     (auto split: if_splits list.splits simp: Let_def)

lemma parseClass_id:
  "parseClass oor chunks existing = Inl (ParentNotFound x) \<Longrightarrow> x = '''' \<or> x \<in> set chunks"
  by (auto simp: parseClass_def split: sum.splits if_splits dest!: parseBaseClass_id)

lemma class_pass_visits:
  assumes "class_pass oor ls classes visited = (cs, np, vis)"
  shows "set np \<subseteq> set ls \<and> set visited \<subseteq> set vis \<and> set vis \<subseteq> set visited \<union> line_ids ls
    \<and> (np = [] \<or> (\<exists>x \<in> set vis - set visited. x \<in> line_ids ls))"
  using assms
proof (induction ls arbitrary: classes visited cs np vis)
  case (Cons line ls)
  have sub: "line_ids ls \<subseteq> line_ids (line # ls)" by (auto simp: line_ids_def)
  show ?case
  proof (cases "parseClass oor (line_chunks line) classes")
    case (Inr c)
    with Cons.prems Cons.IH [of "classes @ [c]" visited cs np vis] sub show ?thesis by auto
  next
    case (Inl e)
    show ?thesis
    proof (cases e)
      case (ClassErr m)
      with Inl Cons.prems Cons.IH [of classes visited cs np vis] sub show ?thesis by auto
    next
      case (ParentNotFound cid)
      have cid: "cid \<in> line_ids (line # ls)"
        using parseClass_id [OF Inl [unfolded ParentNotFound]] by (auto simp: line_ids_def)
      show ?thesis
      proof (cases "cid \<in> set visited")
        case True
        with Inl ParentNotFound Cons.prems Cons.IH [of classes visited cs np vis] sub
        show ?thesis by auto
      next
        case False
        with Inl ParentNotFound Cons.prems obtain np'
          where "class_pass oor ls classes (cid # visited) = (cs, np', vis)" "np = line # np'"
          by (auto split: prod.splits)
        with Cons.IH [of classes "cid # visited" cs np' vis] sub cid False show ?thesis by auto
      qed
    qed
  qed
qed simp

function parseClassLines_loop ::
  "(dec \<Rightarrow> 64 word) \<Rightarrow> string list \<Rightarrow> tc_class list \<Rightarrow> string list \<Rightarrow> tc_class list" where
  "parseClassLines_loop oor leftover classes visited =
     (if leftover = [] then classes
      else let (cs, np, vis) = class_pass oor leftover classes visited
           in parseClassLines_loop oor np cs vis)"
  by pat_completeness auto
termination
proof (relation "measure (\<lambda>(oor, ls, cs, vis).
    card (line_ids ls - set vis) + (if ls = [] then 0 else 1))", goal_cases)
  case (2 oor ls classes visited r cs r' np vis)
  then have r: "class_pass oor ls classes visited = (cs, np, vis)" by simp
  have fin: "finite (line_ids ls - set visited)" by (simp add: line_ids_def)
  have sub: "line_ids np - set vis \<subseteq> line_ids ls - set visited"
    using class_pass_visits [OF r] by (auto simp: line_ids_def)
  show ?case
  proof (cases "np = []")
    case True
    with card_mono [OF fin sub] 2(1) show ?thesis by simp
  next
    case False
    with class_pass_visits [OF r] have "line_ids np - set vis \<subset> line_ids ls - set visited"
      using sub by blast
    from psubset_card_mono [OF fin this] False 2(1) show ?thesis by simp
  qed
qed simp

declare parseClassLines_loop.simps [simp del]

definition parseClassLines :: "(dec \<Rightarrow> 64 word) \<Rightarrow> string list \<Rightarrow> tc_class list" where
  "parseClassLines oor lines = parseClassLines_loop oor lines [] []"

section \<open>Filters\<close>

record SBaseTcFilter =
  fParent :: "qdisc option"
  fKind :: string
  fProtocol :: string
  fPrio :: "32 word"

datatype tc_filter =
    SFwFilter SBaseTcFilter (fwClassId: string) (fwHandle: "32 word")
  | SU32Filter SBaseTcFilter (u32RedirectDev: string) (u32Handle: string)

fun filter_Base :: "tc_filter \<Rightarrow> SBaseTcFilter" where
  "filter_Base (SFwFilter b _ _) = b"
| "filter_Base (SU32Filter b _ _) = b"

definition SBaseTcFilter_Compare :: "SBaseTcFilter \<Rightarrow> SBaseTcFilter \<Rightarrow> int" where
  "SBaseTcFilter_Compare f f2 =
     (if fParent f = None \<and> fParent f2 \<noteq> None then - 1
      else if fParent f \<noteq> None \<and> fParent f2 = None then 1
      else if fParent f \<noteq> None \<and> fParent f2 \<noteq> None
              \<and> qdisc_Id (the (fParent f)) \<noteq> qdisc_Id (the (fParent f2))
      then compareClassId (qdisc_Id (the (fParent f))) (qdisc_Id (the (fParent f2)))
      else if fPrio f < fPrio f2 then - 1 else if fPrio f > fPrio f2 then 1
      else if fProtocol f \<noteq> fProtocol f2 then strings_Compare (fProtocol f) (fProtocol f2)
      else if fKind f \<noteq> fKind f2 then strings_Compare (fKind f) (fKind f2)
      else 0)"

definition SU32Filter_Compare :: "SBaseTcFilter \<Rightarrow> string \<Rightarrow> tc_filter \<Rightarrow> int result" where
  [simp]: "SU32Filter_Compare f dev itc =
     (let baseCmp = SBaseTcFilter_Compare f (filter_Base itc)
      in if baseCmp \<noteq> 0 then Inr baseCmp
         else case itc of
                SU32Filter f2 dev2 h2 \<Rightarrow>
                  Inr (if dev \<noteq> dev2 then strings_Compare dev dev2 else 0)
              | _ \<Rightarrow> type_assertion)"

fun filter_Compare :: "tc_filter \<Rightarrow> tc_filter \<Rightarrow> int result" where
  "filter_Compare (SFwFilter f cid h) itc =
     (let baseCmp = SBaseTcFilter_Compare f (filter_Base itc)
      in if baseCmp \<noteq> 0 then Inr baseCmp
         else case itc of
                SFwFilter f2 cid2 h2 \<Rightarrow>
                  Inr (if cid \<noteq> cid2 then strings_Compare cid cid2
                       else if h < h2 then - 1 else if h > h2 then 1 else 0)
              | _ \<Rightarrow> type_assertion)"
| "filter_Compare (SU32Filter f dev h) itc = SU32Filter_Compare f dev itc"

definition filter_basicLineElements ::
  "SBaseTcFilter \<Rightarrow> string \<Rightarrow> string \<Rightarrow> bool \<Rightarrow> string list" where
  "filter_basicLineElements f action ifname isRoot =
     [''filter'', action, ''dev'', ifname]
     @ (if isRoot then [''root''] else [])
     @ (case fParent f of Some p \<Rightarrow> [''parent'', qdisc_Id p] | None \<Rightarrow> [])
     @ (if length (fProtocol f) > 0 then [''protocol'', fProtocol f] else [])
     @ [''prio'', show_dec (uint (fPrio f))]"

definition SFwFilter_basicLineElements :: "SBaseTcFilter \<Rightarrow> string \<Rightarrow> 32 word \<Rightarrow> string \<Rightarrow> string \<Rightarrow> string list" where
  [simp]: "SFwFilter_basicLineElements f cid h action ifname =
     filter_basicLineElements f action ifname False
     @ [''handle'', ''0x'' @ show_hex (uint h), ''fw'', ''classid'', cid]"

fun filter_line :: "tc_filter \<Rightarrow> string \<Rightarrow> string \<Rightarrow> string list" where
  "filter_line (SFwFilter f cid h) action ifname = SFwFilter_basicLineElements f cid h action ifname"
| "filter_line (SU32Filter f dev h) action ifname =
     filter_basicLineElements f action ifname False
     @ (if length dev > 0
        then [''u32'', ''match'', ''u32'', ''0'', ''0'', ''action'', ''mirred'', ''egress'',
              ''redirect'', ''dev'', dev]
        else [])"

definition filter_AddLine :: "tc_filter \<Rightarrow> string \<Rightarrow> string list" where
  "filter_AddLine f ifname = filter_line f ''add'' ifname"

fun filter_DeleteLine :: "tc_filter \<Rightarrow> string \<Rightarrow> string list" where
  "filter_DeleteLine (SFwFilter f cid h) ifname = filter_line (SFwFilter f cid h) ''delete'' ifname"
| "filter_DeleteLine (SU32Filter f dev h) ifname =
     filter_basicLineElements f ''delete'' ifname True
     @ (if length h > 0 then [''handle'', h] else []) @ [''u32'']"

fun parseBaseFilter :: "SBaseTcFilter \<Rightarrow> string list \<Rightarrow> qdisc list \<Rightarrow> SBaseTcFilter result" where
  "parseBaseFilter f [] parents = Inr f"
| "parseBaseFilter f (c # cs) parents =
     (if c = ''parent'' then
        (case cs of
           [] \<Rightarrow> Inl (Err ''eol before getting parent'')
         | parentId # cs' \<Rightarrow>
             let parent' = (case find (\<lambda>p. qdisc_Id p = parentId) parents of
                              Some p \<Rightarrow> Some p | None \<Rightarrow> fParent f)
             in if parent' = None then Inl (Err ''parent not found'')
                else parseBaseFilter (f\<lparr>fParent := parent'\<rparr>) cs' parents)
      else if c = ''fw'' then parseBaseFilter (f\<lparr>fKind := ''fw''\<rparr>) cs parents
      else if c = ''u32'' then parseBaseFilter (f\<lparr>fKind := ''u32''\<rparr>) cs parents
      else if c = ''pref'' then
        (case cs of
           [] \<Rightarrow> Inl (Err ''eol before getting pref'')
         | v # cs' \<Rightarrow>
             (case ParseUint v 10 64 of
                (n, None) \<Rightarrow> parseBaseFilter (f\<lparr>fPrio := of_int n\<rparr>) cs' parents
              | (_, Some _) \<Rightarrow> Inl (Err ''invalid pref'')))
      else if c = ''protocol'' then
        (case cs of
           [] \<Rightarrow> Inl (Err ''eol before getting protocol'')
         | v # cs' \<Rightarrow> parseBaseFilter (f\<lparr>fProtocol := v\<rparr>) cs' parents)
      else parseBaseFilter f cs parents)"

text \<open>\<open>parseFwFilter\<close> steps to the value of an option but not over it, so the value is looked
  at again as a keyword.\<close>

fun parseFwFilter_loop :: "string \<times> 32 word \<Rightarrow> string list \<Rightarrow> (string \<times> 32 word) result" where
  "parseFwFilter_loop f [] = Inr f"
| "parseFwFilter_loop (cid, h) (c # cs) =
     (if c = ''classid'' then
        (case cs of
           [] \<Rightarrow> Inl (Err ''eol before getting classid'')
         | v # _ \<Rightarrow> parseFwFilter_loop (v, h) cs)
      else if c = ''handle'' then
        (case cs of
           [] \<Rightarrow> Inl (Err ''eol before getting handle'')
         | v # _ \<Rightarrow> res_bind (parse_num_0x v) (\<lambda>n. parseFwFilter_loop (cid, of_int n) cs))
      else parseFwFilter_loop (cid, h) cs)"

definition parseFwFilter :: "string list \<Rightarrow> (string \<times> 32 word) result" where
  "parseFwFilter chunks =
     res_bind (parseFwFilter_loop ('''', 0) chunks)
       (\<lambda>(cid, h). if length cid = 0 then Inl (Err ''classid not found'') else Inr (cid, h))"

text \<open>The regular expression \<open>ingressMatchReg\<close>: the leftmost match and its group.\<close>

definition mirred_text :: string where
  "mirred_text = ''mirred (Egress Redirect to device ''"

definition ifname_char :: "char \<Rightarrow> bool" where
  "ifname_char c \<longleftrightarrow> is_letter c \<or> (digit_val c \<noteq> None \<and> the (digit_val c) < 10)
     \<or> c \<in> set [CHR ''.'', CHR ''_'', CHR ''*'', CHR ''-'']"

fun ingressMatch :: "string \<Rightarrow> string option" where
  "ingressMatch [] = None"
| "ingressMatch (c # cs) =
     (let rest = drop (length mirred_text) (c # cs); name = takeWhile ifname_char rest
      in if HasPrefix (c # cs) mirred_text \<and> name \<noteq> []
            \<and> HasPrefix (dropWhile ifname_char rest) '')''
         then Some name else ingressMatch cs)"

fun parseU32_fh :: "string \<Rightarrow> string list \<Rightarrow> string result" where
  "parseU32_fh h [] = Inr h"
| "parseU32_fh h (c # cs) =
     (if c = ''fh'' then
        (case cs of [] \<Rightarrow> Inl (Err ''eol before getting fh'') | v # _ \<Rightarrow> parseU32_fh v cs)
      else parseU32_fh h cs)"

definition parseU32Filter :: "string list \<Rightarrow> (string \<times> string) result" where
  "parseU32Filter chunks =
     (case ingressMatch (join '' '' chunks) of
        None \<Rightarrow> Inl (Err ''unknown u32 filter'')
      | Some dev \<Rightarrow> res_bind (parseU32_fh '''' chunks) (\<lambda>h. Inr (dev, h)))"

definition parseFilter :: "string list \<Rightarrow> qdisc list \<Rightarrow> tc_filter result" where
  "parseFilter chunks parents =
     res_bind (parseBaseFilter \<lparr>fParent = None, fKind = '''', fProtocol = '''', fPrio = 0\<rparr> chunks parents)
       (\<lambda>f. if fKind f = ''fw'' then res_bind (parseFwFilter chunks) (\<lambda>(cid, h). Inr (SFwFilter f cid h))
            else if fKind f = ''u32'' then
              res_bind (parseU32Filter chunks) (\<lambda>(dev, h). Inr (SU32Filter f dev h))
            else Inl (Err ''unknown filter kind''))"

text \<open>A filter is a line and the lines after it that do not start a new filter.\<close>

definition filter_head :: "string \<Rightarrow> bool" where
  "filter_head line \<longleftrightarrow> HasPrefix (TrimSpace line) ''filter ''"

function filter_groups :: "string list \<Rightarrow> string list" where
  "filter_groups [] = []"
| "filter_groups (l # ls) =
     concat (TrimSpace l # map (\<lambda>x. '' '' @ TrimSpace x) (takeWhile (\<lambda>x. \<not> filter_head x) ls))
     # filter_groups (dropWhile (\<lambda>x. \<not> filter_head x) ls)"
  by pat_completeness auto
termination
  by (relation "measure length") (auto simp: less_Suc_eq_le length_dropWhile_le)

definition parseFilterLines :: "string list \<Rightarrow> qdisc list \<Rightarrow> tc_filter list" where
  "parseFilterLines lines parents =
     oks (map (\<lambda>line. parseFilter (split_on CHR '' '' line) parents) (filter_groups lines))"

end
