(* ===== verification/TcTree.thy ===== *)
theory TcTree
  imports TcObjs
begin

text \<open>
  Trees of traffic control objects: \<open>pkg/tc/compare.go\<close> (\<open>Sort\<close>, \<open>Split\<close>) and
  \<open>pkg/tc/tree.go\<close> (\<open>QdiscTree\<close> and the command lines that turn one tree into another).
  The generic functions take the comparison as an argument; it may panic.
\<close>

section \<open>Sorting and splitting\<close>

text \<open>
  \<open>sort.Slice\<close> up to twelve elements: insertion sort, each element moving left past the larger
  ones.  The prefix is kept in reverse.  The lemmas only use that the result is a sorted
  permutation.
\<close>

fun sort_insert :: "('a \<Rightarrow> 'a \<Rightarrow> int result) \<Rightarrow> 'a \<Rightarrow> 'a list \<Rightarrow> 'a list result" where
  "sort_insert cmp x [] = Inr [x]"
| "sort_insert cmp x (y # ys) =
     res_bind (cmp x y) (\<lambda>c.
       if c < 0 then res_bind (sort_insert cmp x ys) (\<lambda>zs. Inr (y # zs)) else Inr (x # y # ys))"

fun sort_loop :: "('a \<Rightarrow> 'a \<Rightarrow> int result) \<Rightarrow> 'a list \<Rightarrow> 'a list \<Rightarrow> 'a list result" where
  "sort_loop cmp acc [] = Inr acc"
| "sort_loop cmp acc (x # xs) = res_bind (sort_insert cmp x acc) (\<lambda>acc'. sort_loop cmp acc' xs)"

definition Sort :: "('a \<Rightarrow> 'a \<Rightarrow> int result) \<Rightarrow> 'a list \<Rightarrow> 'a list result" where
  "Sort cmp a = res_bind (sort_loop cmp [] a) (\<lambda>r. Inr (rev r))"

text \<open>\<open>Split\<close>: \<open>(aNoB, aAndB, bAndA, bNoA)\<close>.\<close>

fun Split :: "('a \<Rightarrow> 'a \<Rightarrow> int result) \<Rightarrow> 'a list \<Rightarrow> 'a list
    \<Rightarrow> ('a list \<times> 'a list \<times> 'a list \<times> 'a list) result" where
  "Split cmp (x # xs) (y # ys) =
     res_bind (cmp x y) (\<lambda>c.
       if c = 0 then
         res_bind (Split cmp xs ys) (\<lambda>(no, ab, ba, bo). Inr (no, x # ab, y # ba, bo))
       else if c < 0 then
         res_bind (Split cmp xs (y # ys)) (\<lambda>(no, ab, ba, bo). Inr (x # no, ab, ba, bo))
       else
         res_bind (Split cmp (x # xs) ys) (\<lambda>(no, ab, ba, bo). Inr (no, ab, ba, y # bo)))"
| "Split cmp xs [] = Inr (xs, [], [], [])"
| "Split cmp [] ys = Inr ([], [], [], ys)"

section \<open>Trees\<close>

record QdiscTree =
  tqdisc :: "qdisc list"
  tclasses :: "tc_class list"
  tfilters :: "tc_filter list"

definition RootQdisc :: "QdiscTree \<Rightarrow> qdisc option" where
  "RootQdisc qt = find qdisc_IsRoot (tqdisc qt)"

definition RootClass :: "QdiscTree \<Rightarrow> tc_class option" where
  "RootClass qt = find class_IsRoot (tclasses qt)"

definition class_cmp :: "tc_class \<Rightarrow> tc_class \<Rightarrow> int result" where
  "class_cmp c d = Inr (class_Compare c d)"

definition NewQdiscTree :: "qdisc list \<Rightarrow> tc_class list \<Rightarrow> tc_filter list \<Rightarrow> QdiscTree result" where
  "NewQdiscTree qs cls fs =
     res_bind (Sort qdisc_Compare qs) (\<lambda>qs'.
     res_bind (Sort class_cmp cls) (\<lambda>cls'.
     res_bind (Sort filter_Compare fs) (\<lambda>fs'.
       Inr \<lparr>tqdisc = qs', tclasses = cls', tfilters = fs'\<rparr>)))"

definition tree_Merge :: "QdiscTree \<Rightarrow> QdiscTree \<Rightarrow> QdiscTree result" where
  "tree_Merge qt qt2 =
     NewQdiscTree (tqdisc qt @ tqdisc qt2) (tclasses qt @ tclasses qt2) (tfilters qt @ tfilters qt2)"

text \<open>The two loops over the updated pairs: \<open>updated2[i].Equals(updated1[i])\<close> or a replace
  line.\<close>

fun replace_lines :: "('a \<Rightarrow> 'a \<Rightarrow> bool result) \<Rightarrow> ('a \<Rightarrow> string list) \<Rightarrow> 'a list \<Rightarrow> 'a list
    \<Rightarrow> string list list result" where
  "replace_lines eq line (x # xs) (y # ys) =
     res_bind (eq y x) (\<lambda>e.
     res_bind (replace_lines eq line xs ys) (\<lambda>ls. Inr (if e then ls else line x # ls)))"
| "replace_lines eq line _ _ = Inr []"

definition Delta :: "QdiscTree \<Rightarrow> QdiscTree \<Rightarrow> string \<Rightarrow> string list list result" where
  "Delta qt qt2 ifname =
     res_bind (Split (\<lambda>a b. Inr (qdisc_CompareBase a b)) (tqdisc qt) (tqdisc qt2))
       (\<lambda>(addedQdisc, updatedQdisc1, updatedQdisc2, removedQdisc).
     res_bind (Split (\<lambda>a b. Inr (SBaseTcClass_Compare a b)) (tclasses qt) (tclasses qt2))
       (\<lambda>(addedClass, updatedClass1, updatedClass2, removedClass).
     res_bind (Split filter_Compare (tfilters qt) (tfilters qt2))
       (\<lambda>(addedFilter, _, _, removedFilter).
     res_bind (replace_lines qdisc_Equals (\<lambda>q. qdisc_ReplaceLine q ifname) updatedQdisc1 updatedQdisc2)
       (\<lambda>replQdisc.
     res_bind (replace_lines (\<lambda>c d. Inr (class_Equals c d)) (\<lambda>c. class_ReplaceLine c ifname)
                 updatedClass1 updatedClass2)
       (\<lambda>replClass.
     Inr (map (\<lambda>f. filter_DeleteLine f ifname) (rev removedFilter)
          @ map (\<lambda>c. class_DeleteLine c ifname) (rev removedClass)
          @ map (\<lambda>q. qdisc_DeleteLine q ifname) (rev removedQdisc)
          @ replQdisc @ replClass
          @ map (\<lambda>q. qdisc_AddLine q ifname) addedQdisc
          @ map (\<lambda>c. class_AddLine c ifname) addedClass
          @ map (\<lambda>f. filter_AddLine f ifname) addedFilter))))))"

definition NewQdiscTreeFromString ::
  "(dec \<Rightarrow> 64 word) \<Rightarrow> string \<Rightarrow> string \<Rightarrow> string \<Rightarrow> QdiscTree result" where
  "NewQdiscTreeFromString oor qdiscStr classStr filterStr =
     (let qs = parseQdiscLines oor (split_on (CHR 10) qdiscStr);
          cls = parseClassLines oor (split_on (CHR 10) classStr);
          filters = parseFilterLines (split_on (CHR 10) filterStr) qs
      in NewQdiscTree qs cls filters)"

section \<open>Nothing of what the program builds panics\<close>

text \<open>An object whose dynamic type is the one its kind says, as every parser and every
  constructor of the agent makes them.\<close>

fun qdisc_kinded :: "qdisc \<Rightarrow> bool" where
  "qdisc_kinded (QdiscTbf b _ _ _) \<longleftrightarrow> qKind b = ''tbf''"
| "qdisc_kinded (QdiscHtb b _) \<longleftrightarrow> qKind b = ''htb''"
| "qdisc_kinded (QdiscIngress b) \<longleftrightarrow> qKind b = ''ingress''"

fun filter_kinded :: "tc_filter \<Rightarrow> bool" where
  "filter_kinded (SFwFilter b _ _) \<longleftrightarrow> fKind b = ''fw''"
| "filter_kinded (SU32Filter b _ _) \<longleftrightarrow> fKind b = ''u32''"

text \<open>The text of an id that the program prints: hexadecimal without leading zeros, and no
  digits for a zero minor number.  On such ids equal numbers mean equal text.\<close>

definition canonical_id :: "string \<Rightarrow> bool" where
  "canonical_id s \<longleftrightarrow> (let (a, b) = convertClassId s in
     s = show_hex a @ '':'' @ (if b = 0 then '''' else show_hex b))"

lemma canonical_id_inj:
  "canonical_id s \<Longrightarrow> canonical_id t \<Longrightarrow> convertClassId s = convertClassId t \<Longrightarrow> s = t"
  by (auto simp: canonical_id_def split: prod.splits)

lemma compareClassId_cmp3: "compareClassId s t = cmp3 (convertClassId s) (convertClassId t)"
  by (auto simp: compareClassId_def cmp3_def less_prod_def split: prod.splits)

lemma compareClassId_canonical:
  "canonical_id s \<Longrightarrow> canonical_id t \<Longrightarrow> compareClassId s t = 0 \<longleftrightarrow> s = t"
  by (auto simp: compareClassId_cmp3 dest: canonical_id_inj)

section \<open>Sorting and splitting by a key\<close>

text \<open>A comparison that may panic agrees with the keyed one on elements with different keys.\<close>

context keyed_cmp
begin

lemma sort_insert_ok:
  assumes "x \<in> A" "set ys \<subseteq> A" "\<forall>y \<in> set ys. f x y = Inr (cmp x y)"
    and "sorted_wrt (\<ge>) (map key ys)"
  shows "\<exists>zs. sort_insert f x ys = Inr zs \<and> mset zs = add_mset x (mset ys)
      \<and> sorted_wrt (\<ge>) (map key zs)"
  using assms
proof (induction ys)
  case (Cons y ys)
  then obtain zs where zs: "sort_insert f x ys = Inr zs" "mset zs = add_mset x (mset ys)"
    "sorted_wrt (\<ge>) (map key zs)" by auto
  have set_zs: "set zs = insert x (set ys)" using zs(2) by (metis set_mset_add_mset_insert set_mset_mset)
  show ?case
  proof (cases "cmp x y < 0")
    case True
    with Cons.prems zs set_zs show ?thesis by (auto simp: cmp_less)
  next
    case False
    then have "key y \<le> key x" using Cons.prems cmp_less [of x y] by auto
    with False Cons.prems show ?thesis by fastforce
  qed
qed simp

lemma sort_loop_ok:
  assumes "set acc \<union> set xs \<subseteq> A" "distinct (map key (acc @ xs))"
    and "\<forall>x \<in> set xs. \<forall>y \<in> set acc \<union> set xs. key x \<noteq> key y \<longrightarrow> f x y = Inr (cmp x y)"
    and "sorted_wrt (\<ge>) (map key acc)"
  shows "\<exists>zs. sort_loop f acc xs = Inr zs \<and> mset zs = mset acc + mset xs
      \<and> sorted_wrt (\<ge>) (map key zs)"
  using assms
proof (induction xs arbitrary: acc)
  case (Cons x xs)
  have "\<forall>y \<in> set acc. f x y = Inr (cmp x y)"
    using Cons.prems(2,3) by (auto simp: image_iff)
  with Cons.prems obtain acc' where acc': "sort_insert f x acc = Inr acc'"
    "mset acc' = add_mset x (mset acc)" "sorted_wrt (\<ge>) (map key acc')"
    using sort_insert_ok [of x acc f] by auto
  have "set acc' = insert x (set acc)" using acc'(2) by (metis set_mset_add_mset_insert set_mset_mset)
  moreover have "mset (map key (acc' @ xs)) = mset (map key (acc @ x # xs))"
    using acc'(2) by simp
  then have "distinct (map key (acc' @ xs))"
    using Cons.prems(2) by (metis mset_eq_imp_distinct_iff)
  ultimately have "\<exists>zs. sort_loop f acc' xs = Inr zs \<and> mset zs = mset acc' + mset xs
      \<and> sorted_wrt (\<ge>) (map key zs)"
    using Cons.prems acc'(3) by (intro Cons.IH) auto
  with acc' show ?case by auto
qed simp

lemma Sort_ok:
  assumes "set xs \<subseteq> A" "distinct (map key xs)"
    and "\<forall>x \<in> set xs. \<forall>y \<in> set xs. key x \<noteq> key y \<longrightarrow> f x y = Inr (cmp x y)"
  shows "\<exists>ys. Sort f xs = Inr ys \<and> mset ys = mset xs \<and> sorted_wrt (<) (map key ys)"
proof -
  obtain zs where zs: "sort_loop f [] xs = Inr zs" "mset zs = mset xs" "sorted_wrt (\<ge>) (map key zs)"
    using sort_loop_ok [of "[]" xs f] assms by auto
  have "sorted_wrt (\<le>) (map key (rev zs))" using zs(3) by (simp add: sorted_wrt_rev flip: rev_map)
  moreover have "mset (map key (rev zs)) = mset (map key xs)" using zs(2) by simp
  then have "distinct (map key (rev zs))" using assms(2) by (metis mset_eq_imp_distinct_iff)
  ultimately have "sorted_wrt (<) (map key (rev zs))" by (simp only: strict_sorted_iff)
  with zs show ?thesis by (auto simp: Sort_def)
qed

lemma Split_ok:
  assumes "set xs \<subseteq> A" "set ys \<subseteq> A"
    and "\<forall>x \<in> set xs. \<forall>y \<in> set ys. f x y = Inr (cmp x y)"
    and "sorted_wrt (<) (map key xs)" "sorted_wrt (<) (map key ys)"
  shows "Split f xs ys = Inr
    (filter (\<lambda>x. key x \<notin> key ` set ys) xs, filter (\<lambda>x. key x \<in> key ` set ys) xs,
     filter (\<lambda>y. key y \<in> key ` set xs) ys, filter (\<lambda>y. key y \<notin> key ` set xs) ys)"
  using assms
proof (induction f xs ys rule: Split.induct)
  case (1 f x xs y ys)
  have xy: "f x y = Inr (cmp x y)" "x \<in> A" "y \<in> A" using "1.prems" by auto
  have lt: "\<forall>z \<in> set xs. key x < key z" "\<forall>z \<in> set ys. key y < key z" using "1.prems" by auto
  consider "key x = key y" | "key x < key y" | "key y < key x" by fastforce
  then show ?case
  proof cases
    case 1
    then have "cmp x y = 0" using cmp_zero xy by simp
    with "1.IH"(1) [of "cmp x y"] "1.prems" xy
    have "Split f xs ys = Inr
      (filter (\<lambda>x. key x \<notin> key ` set ys) xs, filter (\<lambda>x. key x \<in> key ` set ys) xs,
       filter (\<lambda>y. key y \<in> key ` set xs) ys, filter (\<lambda>y. key y \<notin> key ` set xs) ys)" by simp
    moreover have "\<forall>z \<in> set xs. key z \<noteq> key y" "\<forall>z \<in> set ys. key z \<noteq> key x"
      using lt 1 by auto
    ultimately show ?thesis using xy \<open>cmp x y = 0\<close> 1
      by (auto intro!: filter_cong)
  next
    case 2
    then have c: "cmp x y < 0" using cmp_less xy by simp
    with "1.IH"(2) [of "cmp x y"] "1.prems" xy
    have "Split f xs (y # ys) = Inr
      (filter (\<lambda>x. key x \<notin> key ` set (y # ys)) xs, filter (\<lambda>x. key x \<in> key ` set (y # ys)) xs,
       filter (\<lambda>y. key y \<in> key ` set xs) (y # ys), filter (\<lambda>y. key y \<notin> key ` set xs) (y # ys))"
      by simp
    moreover have "key x \<notin> key ` set (y # ys)" using 2 lt by auto
    moreover have "\<forall>z \<in> set (y # ys). key z \<noteq> key x" using 2 lt by auto
    ultimately show ?thesis using xy c by (auto intro!: filter_cong)
  next
    case 3
    then have c: "\<not> cmp x y < 0" "cmp x y \<noteq> 0" using cmp_less cmp_zero xy by auto
    with "1.IH"(3) [of "cmp x y"] "1.prems" xy
    have "Split f (x # xs) ys = Inr
      (filter (\<lambda>x. key x \<notin> key ` set ys) (x # xs), filter (\<lambda>x. key x \<in> key ` set ys) (x # xs),
       filter (\<lambda>y. key y \<in> key ` set (x # xs)) ys, filter (\<lambda>y. key y \<notin> key ` set (x # xs)) ys)"
      by simp
    moreover have "key y \<notin> key ` set (x # xs)" using 3 lt by auto
    moreover have "\<forall>z \<in> set (x # xs). key z \<noteq> key y" using 3 lt by auto
    ultimately show ?thesis using xy c by (auto intro!: filter_cong)
  qed
qed auto

lemma image_filter_key: "key ` {x \<in> S. key x \<in> K} = key ` S \<inter> K"
  by blast

lemma keys_aligned:
  assumes "sorted_wrt (<) (map key xs)" "sorted_wrt (<) (map key ys)"
  shows "map key (filter (\<lambda>x. key x \<in> key ` set ys) xs) = map key (filter (\<lambda>y. key y \<in> key ` set xs) ys)"
proof (rule sorted_distinct_set_unique)
  have "sorted_wrt (<) (map key (filter P zs))" if "sorted_wrt (<) (map key zs)" for P zs
    using that by (simp add: sorted_wrt_map sorted_wrt_filter)
  with assms show "sorted (map key (filter (\<lambda>x. key x \<in> key ` set ys) xs))"
    "distinct (map key (filter (\<lambda>x. key x \<in> key ` set ys) xs))"
    "sorted (map key (filter (\<lambda>y. key y \<in> key ` set xs) ys))"
    "distinct (map key (filter (\<lambda>y. key y \<in> key ` set xs) ys))"
    by (simp_all add: strict_sorted_iff)
  show "set (map key (filter (\<lambda>x. key x \<in> key ` set ys) xs))
      = set (map key (filter (\<lambda>y. key y \<in> key ` set xs) ys))"
    by (simp add: image_filter_key Int_commute)
qed

lemma replace_lines_ok:
  assumes "map key xs = map key ys" "distinct (map key xs)"
    and "\<forall>x \<in> set xs. \<forall>y \<in> set ys. key x = key y \<longrightarrow> eq y x = Inr (e y x)"
  shows "replace_lines eq line xs ys =
    Inr (map line (filter (\<lambda>x. \<exists>y \<in> set ys. key y = key x \<and> \<not> e y x) xs))"
  using assms
proof (induction xs ys rule: list_induct2')
  case (4 x xs y ys)
  then have eq: "eq y x = Inr (e y x)" "key x = key y" "map key xs = map key ys" by auto
  have "key ` set xs = key ` set ys" using eq(3) by (metis list.set_map)
  moreover have "key x \<notin> key ` set xs" using "4.prems"(2) by simp
  ultimately have "\<forall>z \<in> set ys. key z \<noteq> key x" "\<forall>z \<in> set xs. key z \<noteq> key y"
    using eq(2) by (metis imageI)+
  then have "filter (\<lambda>x. \<exists>z \<in> set (y # ys). key z = key x \<and> \<not> e z x) (x # xs) =
      (if e y x then [] else [x]) @ filter (\<lambda>x. \<exists>z \<in> set ys. key z = key x \<and> \<not> e z x) xs"
    using eq(2) by (auto intro!: filter_cong)
  moreover have "replace_lines eq line xs ys =
      Inr (map line (filter (\<lambda>x. \<exists>y \<in> set ys. key y = key x \<and> \<not> e y x) xs))"
    using 4 by auto
  ultimately show ?case using eq(1) by simp
qed auto

text \<open>One kind of objects in \<open>Delta\<close>: the parts of the split and the replace lines.\<close>

lemma Split_replace_ok:
  assumes ok: "set xs \<subseteq> A" "set ys \<subseteq> A"
    and srt: "sorted_wrt (<) (map key xs)" "sorted_wrt (<) (map key ys)"
    and eq: "\<forall>x \<in> set xs. \<forall>y \<in> set ys. key x = key y \<longrightarrow> eq y x = Inr (e y x)"
  obtains us vs where
    "Split (\<lambda>a b. Inr (cmp a b)) xs ys = Inr
       (filter (\<lambda>x. key x \<notin> key ` set ys) xs, us, vs, filter (\<lambda>y. key y \<notin> key ` set xs) ys)"
    "replace_lines eq line us vs = Inr (map line
       (filter (\<lambda>x. \<exists>y \<in> set ys. key y = key x \<and> \<not> e y x) xs))"
proof
  let ?us = "filter (\<lambda>x. key x \<in> key ` set ys) xs" and ?vs = "filter (\<lambda>y. key y \<in> key ` set xs) ys"
  show "Split (\<lambda>a b. Inr (cmp a b)) xs ys = Inr
      (filter (\<lambda>x. key x \<notin> key ` set ys) xs, ?us, ?vs, filter (\<lambda>y. key y \<notin> key ` set xs) ys)"
    using ok srt by (intro Split_ok) auto
  have "replace_lines eq line ?us ?vs = Inr (map line
      (filter (\<lambda>x. \<exists>y \<in> set ?vs. key y = key x \<and> \<not> e y x) ?us))"
    using srt eq
    by (intro replace_lines_ok keys_aligned) (auto simp: distinct_map_filter strict_sorted_iff)
  also have "filter (\<lambda>x. \<exists>y \<in> set ?vs. key y = key x \<and> \<not> e y x) ?us
      = filter (\<lambda>x. \<exists>y \<in> set ys. key y = key x \<and> \<not> e y x) xs"
    unfolding filter_filter by (intro filter_cong refl) (auto simp: image_iff, metis+)
  finally show "replace_lines eq line ?us ?vs = Inr (map line
      (filter (\<lambda>x. \<exists>y \<in> set ys. key y = key x \<and> \<not> e y x) xs))" .
qed

end

section \<open>The keys of traffic control objects\<close>

definition qdisc_key :: "qdisc \<Rightarrow> bool \<times> (int \<times> int) \<times> string \<times> string" where
  "qdisc_key q = (let b = qdisc_Base q in (\<not> qRoot b, convertClassId (qHandle b), qKind b, qParent b))"

definition qdisc_ok :: "qdisc set" where
  "qdisc_ok = {q. canonical_id (qdisc_Id q) \<and> qdisc_kinded q}"

interpretation qdiscs: keyed_cmp qdisc_CompareBase qdisc_key qdisc_ok
proof
  fix q p assume "q \<in> qdisc_ok" "p \<in> qdisc_ok"
  then have "qHandle (qdisc_Base q) = qHandle (qdisc_Base p) \<longleftrightarrow>
      convertClassId (qHandle (qdisc_Base q)) = convertClassId (qHandle (qdisc_Base p))"
    by (auto simp: qdisc_ok_def qdisc_Id_def dest: canonical_id_inj)
  then show "qdisc_CompareBase q p = cmp3 (qdisc_key q) (qdisc_key p)"
    by (auto simp: qdisc_CompareBase_def SBaseTcQdisc_Compare_def qdisc_key_def Let_def cmp3_pair
        compareClassId_cmp3 go_simps) (auto simp: cmp3_def)
qed

definition parent_key :: "string option \<Rightarrow> bool \<times> int \<times> int" where
  "parent_key p = (case p of None \<Rightarrow> (False, 0, 0) | Some i \<Rightarrow> (True, convertClassId i))"

definition class_key :: "tc_class \<Rightarrow> (int \<times> int) \<times> string \<times> bool \<times> int \<times> int" where
  "class_key c = (convertClassId (cClassId c), cKind c, parent_key (map_option cClassId (cParent c)))"

definition class_ok :: "tc_class set" where
  "class_ok = {c. canonical_id (cClassId c) \<and> (\<forall>p. cParent c = Some p \<longrightarrow> canonical_id (cClassId p))}"

interpretation classes: keyed_cmp SBaseTcClass_Compare class_key class_ok
proof
  fix c d assume cd: "c \<in> class_ok" "d \<in> class_ok"
  then have "cClassId c = cClassId d \<longleftrightarrow> convertClassId (cClassId c) = convertClassId (cClassId d)"
    by (auto simp: class_ok_def dest: canonical_id_inj)
  moreover have "cClassId p = cClassId r \<longleftrightarrow> convertClassId (cClassId p) = convertClassId (cClassId r)"
    if "cParent c = Some p" "cParent d = Some r" for p r
    using cd that by (auto simp: class_ok_def dest: canonical_id_inj)
  ultimately show "SBaseTcClass_Compare c d = cmp3 (class_key c) (class_key d)"
    by (auto simp: SBaseTcClass_Compare_def class_key_def parent_key_def cmp3_pair
        compareClassId_cmp3 go_simps split: option.splits) (auto simp: cmp3_def)
qed

definition filter_rest :: "tc_filter \<Rightarrow> string \<times> 32 word" where
  "filter_rest f = (case f of SFwFilter _ cid h \<Rightarrow> (cid, h) | SU32Filter _ dev _ \<Rightarrow> (dev, 0))"

type_synonym filter_key = "(bool \<times> int \<times> int) \<times> 32 word \<times> string \<times> string \<times> string \<times> 32 word"

definition filter_key :: "tc_filter \<Rightarrow> filter_key" where
  "filter_key f = (let b = filter_Base f in
     (parent_key (map_option qdisc_Id (fParent b)), fPrio b, fProtocol b, fKind b,
      filter_rest f))"

definition filter_ok :: "tc_filter set" where
  "filter_ok = {f. filter_kinded f
     \<and> (\<forall>p. fParent (filter_Base f) = Some p \<longrightarrow> canonical_id (qdisc_Id p))}"

definition filter_cmp :: "tc_filter \<Rightarrow> tc_filter \<Rightarrow> int" where
  "filter_cmp f g = (case filter_Compare f g of Inr c \<Rightarrow> c | Inl _ \<Rightarrow> 0)"

lemma SBaseTcFilter_key:
  assumes "\<forall>p. fParent f = Some p \<longrightarrow> canonical_id (qdisc_Id p)"
    "\<forall>p. fParent g = Some p \<longrightarrow> canonical_id (qdisc_Id p)"
  shows "SBaseTcFilter_Compare f g =
    cmp3 (parent_key (map_option qdisc_Id (fParent f)), fPrio f, fProtocol f, fKind f)
         (parent_key (map_option qdisc_Id (fParent g)), fPrio g, fProtocol g, fKind g)"
proof -
  define p r where "p = map_option qdisc_Id (fParent f)" and "r = map_option qdisc_Id (fParent g)"
  have pr: "parent_key p = parent_key r \<longleftrightarrow> p = r"
    using assms by (auto simp: p_def r_def parent_key_def split: option.splits dest: canonical_id_inj)
  have "(if fPrio f < fPrio g then - 1 else if fPrio f > fPrio g then 1
      else if fProtocol f \<noteq> fProtocol g then strings_Compare (fProtocol f) (fProtocol g)
      else if fKind f \<noteq> fKind g then strings_Compare (fKind f) (fKind g) else 0)
      = cmp3 (fPrio f, fProtocol f, fKind f) (fPrio g, fProtocol g, fKind g)"
    by (simp add: cmp3_pair go_simps) (auto simp: cmp3_def)
  then have "SBaseTcFilter_Compare f g =
      (if p \<noteq> r then cmp3 (parent_key p) (parent_key r)
       else cmp3 (fPrio f, fProtocol f, fKind f) (fPrio g, fProtocol g, fKind g))"
    by (cases "fParent f"; cases "fParent g")
       (auto simp: SBaseTcFilter_Compare_def parent_key_def p_def r_def compareClassId_cmp3 cmp3_def)
  then show ?thesis
    unfolding p_def [symmetric] r_def [symmetric] by (simp add: cmp3_pair [of "parent_key p"] pr)
qed

lemma cmp3_nest4:
  "cmp3 (a, b, c, d, e) (a', b', c', d', e') =
     (if cmp3 (a, b, c, d) (a', b', c', d') \<noteq> 0 then cmp3 (a, b, c, d) (a', b', c', d') else cmp3 e e')"
  by (simp only: cmp3_pair) simp

lemma filter_key_cmp3:
  assumes "f \<in> filter_ok" "g \<in> filter_ok"
  shows "cmp3 (filter_key f) (filter_key g) =
    (let c = SBaseTcFilter_Compare (filter_Base f) (filter_Base g)
     in if c \<noteq> 0 then c else cmp3 (filter_rest f) (filter_rest g))"
proof -
  let ?k = "\<lambda>b. (parent_key (map_option qdisc_Id (fParent b)), fPrio b, fProtocol b, fKind b)"
  have base: "SBaseTcFilter_Compare (filter_Base f) (filter_Base g)
      = cmp3 (?k (filter_Base f)) (?k (filter_Base g))"
    using assms by (intro SBaseTcFilter_key) (auto simp: filter_ok_def)
  show ?thesis
    unfolding base Let_def by (simp only: filter_key_def Let_def cmp3_nest4)
qed

lemma filter_Compare_key:
  assumes "f \<in> filter_ok" "g \<in> filter_ok"
  shows "filter_Compare f g = Inr (cmp3 (filter_key f) (filter_key g))"
proof (cases "SBaseTcFilter_Compare (filter_Base f) (filter_Base g) = 0")
  case False
  then show ?thesis unfolding filter_key_cmp3 [OF assms] by (cases f) (auto simp: Let_def)
next
  case True
  have "SBaseTcFilter_Compare (filter_Base f) (filter_Base g)
      = cmp3 (parent_key (map_option qdisc_Id (fParent (filter_Base f))), fPrio (filter_Base f),
              fProtocol (filter_Base f), fKind (filter_Base f))
             (parent_key (map_option qdisc_Id (fParent (filter_Base g))), fPrio (filter_Base g),
              fProtocol (filter_Base g), fKind (filter_Base g))"
    using assms by (intro SBaseTcFilter_key) (auto simp: filter_ok_def)
  with True have "fKind (filter_Base f) = fKind (filter_Base g)" by simp
  with True assms show ?thesis unfolding filter_key_cmp3 [OF assms]
    by (cases f; cases g)
       (auto simp: filter_ok_def filter_rest_def go_simps cmp3_pair cmp3_def)
qed

interpretation filters: keyed_cmp filter_cmp filter_key filter_ok
  by unfold_locales (simp add: filter_cmp_def filter_Compare_key)

section \<open>What \<open>Delta\<close> computes\<close>

definition tree_ok :: "QdiscTree \<Rightarrow> bool" where
  "tree_ok qt \<longleftrightarrow>
     set (tqdisc qt) \<subseteq> qdisc_ok \<and> sorted_wrt (<) (map qdisc_key (tqdisc qt))
     \<and> set (tclasses qt) \<subseteq> class_ok \<and> sorted_wrt (<) (map class_key (tclasses qt))
     \<and> set (tfilters qt) \<subseteq> filter_ok \<and> sorted_wrt (<) (map filter_key (tfilters qt))"

lemma qdisc_Compare_base:
  "qdisc_CompareBase p q \<noteq> 0 \<Longrightarrow> qdisc_Compare p q = Inr (qdisc_CompareBase p q)"
  by (cases p) (simp_all add: qdisc_CompareBase_def Let_def)

lemma class_Compare_base:
  "SBaseTcClass_Compare c d \<noteq> 0 \<Longrightarrow> class_cmp c d = Inr (SBaseTcClass_Compare c d)"
  by (simp add: class_cmp_def class_Compare_def Let_def)

lemma qdisc_key_kind: "qdisc_key p = qdisc_key q \<Longrightarrow> qKind (qdisc_Base p) = qKind (qdisc_Base q)"
  by (simp add: qdisc_key_def Let_def)

definition qdisc_same :: "qdisc \<Rightarrow> qdisc \<Rightarrow> bool" where
  "qdisc_same p q \<longleftrightarrow> qdisc_Equals p q = Inr True"

lemma qdisc_Equals_same:
  assumes "p \<in> qdisc_ok" "q \<in> qdisc_ok" "qdisc_key p = qdisc_key q"
  shows "qdisc_Equals p q = Inr (qdisc_same p q)"
proof -
  have "qdisc_CompareBase p q = 0" using qdiscs.cmp_zero [OF assms(1,2)] assms(3) by simp
  then obtain c where "qdisc_Compare p q = Inr c"
    using qdisc_key_kind [OF assms(3)] assms(1,2)
    by (cases p; cases q) (auto simp: qdisc_CompareBase_def qdisc_ok_def Let_def)
  then show ?thesis by (simp add: qdisc_Equals_def qdisc_same_def)
qed

text \<open>Building a tree from well-formed objects with different identities never panics and
  gives a well-formed sorted tree with the same objects.\<close>

lemma NewQdiscTree_ok:
  assumes "set qs \<subseteq> qdisc_ok" "distinct (map qdisc_key qs)"
    and "set cls \<subseteq> class_ok" "distinct (map class_key cls)"
    and "set fs \<subseteq> filter_ok" "distinct (map filter_key fs)"
  shows "\<exists>qt. NewQdiscTree qs cls fs = Inr qt \<and> tree_ok qt \<and> mset (tqdisc qt) = mset qs
      \<and> mset (tclasses qt) = mset cls \<and> mset (tfilters qt) = mset fs"
proof -
  obtain qs' where q: "Sort qdisc_Compare qs = Inr qs'" "mset qs' = mset qs"
      "sorted_wrt (<) (map qdisc_key qs')"
    using qdiscs.Sort_ok [OF assms(1,2), of qdisc_Compare] assms(1)
    by (metis qdisc_Compare_base qdiscs.cmp_zero subsetD)
  obtain cls' where c: "Sort class_cmp cls = Inr cls'" "mset cls' = mset cls"
      "sorted_wrt (<) (map class_key cls')"
    using classes.Sort_ok [OF assms(3,4), of class_cmp] assms(3)
    by (metis class_Compare_base classes.cmp_zero subsetD)
  obtain fs' where f: "Sort filter_Compare fs = Inr fs'" "mset fs' = mset fs"
      "sorted_wrt (<) (map filter_key fs')"
    using filters.Sort_ok [OF assms(5,6), of filter_Compare] assms(5)
    by (metis filter_Compare_key filters.cmp_key subsetD)
  have "set qs' = set qs" "set cls' = set cls" "set fs' = set fs"
    using q c f by (metis set_mset_mset)+
  with q c f assms show ?thesis by (auto simp: NewQdiscTree_def tree_ok_def)
qed

definition ex_tbf :: "64 word \<Rightarrow> qdisc" where
  "ex_tbf r = QdiscTbf \<lparr>qKind = ''tbf'', qHandle = ''1:'', qParent = '''', qRoot = True\<rparr> r 3400 100000"

definition ex_ingress :: qdisc where
  "ex_ingress = QdiscIngress \<lparr>qKind = ''ingress'', qHandle = ''ffff:'', qParent = '''', qRoot = False\<rparr>"

lemma ex_ok: "{ex_ingress, ex_tbf r} \<subseteq> qdisc_ok" "qdisc_key (ex_tbf r) < qdisc_key ex_ingress"
proof -
  have "canonical_id ''1:''" "canonical_id ''ffff:''" by code_simp+
  then show "{ex_ingress, ex_tbf r} \<subseteq> qdisc_ok"
    by (simp add: qdisc_ok_def ex_tbf_def ex_ingress_def qdisc_Id_def)
  show "qdisc_key (ex_tbf r) < qdisc_key ex_ingress"
    by (simp add: qdisc_key_def ex_tbf_def ex_ingress_def)
qed

text \<open>The lines to expect: filters, classes and qdiscs that the expected tree lacks are deleted,
  in this order and each group from the last to the first; those that differ in their parameters
  are replaced; the missing ones are added, qdiscs before classes before filters.\<close>

definition delta_ref :: "QdiscTree \<Rightarrow> QdiscTree \<Rightarrow> string \<Rightarrow> string list list" where
  "delta_ref qt qt2 ifname =
     map (\<lambda>f. filter_DeleteLine f ifname)
       (rev (filter (\<lambda>f. filter_key f \<notin> filter_key ` set (tfilters qt)) (tfilters qt2)))
     @ map (\<lambda>c. class_DeleteLine c ifname)
       (rev (filter (\<lambda>c. class_key c \<notin> class_key ` set (tclasses qt)) (tclasses qt2)))
     @ map (\<lambda>q. qdisc_DeleteLine q ifname)
       (rev (filter (\<lambda>q. qdisc_key q \<notin> qdisc_key ` set (tqdisc qt)) (tqdisc qt2)))
     @ map (\<lambda>q. qdisc_ReplaceLine q ifname)
       (filter (\<lambda>q. \<exists>p \<in> set (tqdisc qt2). qdisc_key p = qdisc_key q \<and> \<not> qdisc_same p q) (tqdisc qt))
     @ map (\<lambda>c. class_ReplaceLine c ifname)
       (filter (\<lambda>c. \<exists>d \<in> set (tclasses qt2). class_key d = class_key c \<and> \<not> class_Equals d c) (tclasses qt))
     @ map (\<lambda>q. qdisc_AddLine q ifname)
       (filter (\<lambda>q. qdisc_key q \<notin> qdisc_key ` set (tqdisc qt2)) (tqdisc qt))
     @ map (\<lambda>c. class_AddLine c ifname)
       (filter (\<lambda>c. class_key c \<notin> class_key ` set (tclasses qt2)) (tclasses qt))
     @ map (\<lambda>f. filter_AddLine f ifname)
       (filter (\<lambda>f. filter_key f \<notin> filter_key ` set (tfilters qt2)) (tfilters qt))"

lemma Delta_ref:
  assumes "tree_ok qt" "tree_ok qt2"
  shows "Delta qt qt2 ifname = Inr (delta_ref qt qt2 ifname)"
proof -
  note ok = assms [unfolded tree_ok_def]
  have eq: "\<forall>x \<in> set (tqdisc qt). \<forall>y \<in> set (tqdisc qt2). qdisc_key x = qdisc_key y \<longrightarrow>
      qdisc_Equals y x = Inr (qdisc_same y x)"
    using ok qdisc_Equals_same by (metis subsetD)
  obtain qu qv where q: "Split (\<lambda>a b. Inr (qdisc_CompareBase a b)) (tqdisc qt) (tqdisc qt2) = Inr
      (filter (\<lambda>x. qdisc_key x \<notin> qdisc_key ` set (tqdisc qt2)) (tqdisc qt), qu, qv,
       filter (\<lambda>y. qdisc_key y \<notin> qdisc_key ` set (tqdisc qt)) (tqdisc qt2))"
    "replace_lines qdisc_Equals (\<lambda>q. qdisc_ReplaceLine q ifname) qu qv = Inr
      (map (\<lambda>q. qdisc_ReplaceLine q ifname) (filter (\<lambda>q. \<exists>p \<in> set (tqdisc qt2).
         qdisc_key p = qdisc_key q \<and> \<not> qdisc_same p q) (tqdisc qt)))"
    by (rule qdiscs.Split_replace_ok [of "tqdisc qt" "tqdisc qt2" qdisc_Equals qdisc_same])
       (use ok eq in auto)
  obtain cu cv where c: "Split (\<lambda>a b. Inr (SBaseTcClass_Compare a b)) (tclasses qt) (tclasses qt2) = Inr
      (filter (\<lambda>x. class_key x \<notin> class_key ` set (tclasses qt2)) (tclasses qt), cu, cv,
       filter (\<lambda>y. class_key y \<notin> class_key ` set (tclasses qt)) (tclasses qt2))"
    "replace_lines (\<lambda>c d. Inr (class_Equals c d)) (\<lambda>c. class_ReplaceLine c ifname) cu cv = Inr
      (map (\<lambda>c. class_ReplaceLine c ifname) (filter (\<lambda>c. \<exists>d \<in> set (tclasses qt2).
         class_key d = class_key c \<and> \<not> class_Equals d c) (tclasses qt)))"
    by (rule classes.Split_replace_ok [of "tclasses qt" "tclasses qt2"]) (use ok in auto)
  have "\<forall>x \<in> set (tfilters qt). \<forall>y \<in> set (tfilters qt2). filter_Compare x y = Inr (filter_cmp x y)"
    using ok filter_Compare_key filters.cmp_key by (metis subsetD)
  then have f: "Split filter_Compare (tfilters qt) (tfilters qt2) = Inr
      (filter (\<lambda>x. filter_key x \<notin> filter_key ` set (tfilters qt2)) (tfilters qt),
       filter (\<lambda>x. filter_key x \<in> filter_key ` set (tfilters qt2)) (tfilters qt),
       filter (\<lambda>y. filter_key y \<in> filter_key ` set (tfilters qt)) (tfilters qt2),
       filter (\<lambda>y. filter_key y \<notin> filter_key ` set (tfilters qt)) (tfilters qt2))"
    using ok by (intro filters.Split_ok) auto
  show ?thesis unfolding Delta_def q(1) c(1) f by (simp add: q(2) c(2) delta_ref_def)
qed

text \<open>C32: for two well-formed trees the merge loops of \<open>Delta\<close> compute the lines of the
  reference definition: deletions, replacements and additions by identity, in the order that
  keeps parents alive while their children are, and they do not panic.\<close>

theorem Delta_spec:
  assumes "tree_ok qt" "tree_ok qt2"
  shows "Delta qt qt2 ifname = Inr (delta_ref qt qt2 ifname)"
  using assms by (rule Delta_ref)

theorem Delta_spec_witness:
  "Delta \<lparr>tqdisc = [ex_tbf 8000, ex_ingress], tclasses = [], tfilters = []\<rparr>
         \<lparr>tqdisc = [ex_tbf 9000], tclasses = [], tfilters = []\<rparr> ''eth0''
   = Inr [qdisc_ReplaceLine (ex_tbf 8000) ''eth0'', qdisc_AddLine ex_ingress ''eth0'']"
proof -
  have ok: "tree_ok \<lparr>tqdisc = [ex_tbf 8000, ex_ingress], tclasses = [], tfilters = []\<rparr>"
    "tree_ok \<lparr>tqdisc = [ex_tbf 9000], tclasses = [], tfilters = []\<rparr>"
    using ex_ok [of 8000] ex_ok [of 9000] by (simp_all add: tree_ok_def)
  have "qdisc_key (ex_tbf 9000) = qdisc_key (ex_tbf 8000)" by (simp add: qdisc_key_def ex_tbf_def)
  moreover have "\<not> qdisc_same (ex_tbf 9000) (ex_tbf 8000)"
    by (simp add: qdisc_same_def qdisc_Equals_def ex_tbf_def SBaseTcQdisc_Compare_def tbf_params_def)
  moreover have "qdisc_key ex_ingress \<noteq> qdisc_key (ex_tbf 8000)" using ex_ok(2) [of 8000] by auto
  ultimately show ?thesis by (subst Delta_spec [OF ok]) (simp add: delta_ref_def)
qed

text \<open>When nothing is left to do: the difference of two well-formed trees is empty exactly if
  they have the same qdiscs, classes and filters by identity, and the qdiscs and classes of the
  same identity are equal to the program.\<close>

theorem Delta_settled:
  assumes "tree_ok qt" "tree_ok qt2"
  shows "Delta qt qt2 ifname = Inr [] \<longleftrightarrow>
    qdisc_key ` set (tqdisc qt) = qdisc_key ` set (tqdisc qt2)
    \<and> class_key ` set (tclasses qt) = class_key ` set (tclasses qt2)
    \<and> filter_key ` set (tfilters qt) = filter_key ` set (tfilters qt2)
    \<and> (\<forall>q \<in> set (tqdisc qt). \<forall>p \<in> set (tqdisc qt2). qdisc_key p = qdisc_key q \<longrightarrow> qdisc_same p q)
    \<and> (\<forall>c \<in> set (tclasses qt). \<forall>d \<in> set (tclasses qt2). class_key d = class_key c \<longrightarrow> class_Equals d c)"
  unfolding Delta_ref [OF assms] by (auto simp: delta_ref_def filter_empty_conv image_subset_iff)

theorem Delta_settled_witness:
  "Delta \<lparr>tqdisc = [ex_tbf 8000], tclasses = [], tfilters = []\<rparr>
         \<lparr>tqdisc = [ex_tbf 8000], tclasses = [], tfilters = []\<rparr> ''eth0'' = Inr []"
proof -
  have "tree_ok \<lparr>tqdisc = [ex_tbf 8000], tclasses = [], tfilters = []\<rparr>"
    using ex_ok [of 8000] by (simp add: tree_ok_def)
  moreover have "qdisc_same (ex_tbf 8000) (ex_tbf 8000)"
    by (simp add: qdisc_same_def qdisc_Equals_def ex_tbf_def SBaseTcQdisc_Compare_def tbf_params_def)
  ultimately show ?thesis by (subst Delta_settled) simp_all
qed

end
