(* ===== verification/TcMan.thy ===== *)
theory TcMan
  imports TcTree
begin

text \<open>
  The traffic control manager: \<open>pkg/agent/utils/tcdata.go\<close> (the trees that an interface should
  have), \<open>pkg/tc/tc.go\<close> (calls of the \<open>tc\<close> command) and \<open>pkg/agent/server/tcman.go\<close> (the book
  of sections and the checks).

  Commands of the system are calls of \<open>run\<close>, a parameter over a type \<open>'w\<close> of system states:
  \<open>run w args\<close> is the new state and either the output or the error of \<open>args\<close>.
\<close>

section \<open>What an interface should have\<close>

record TcData =
  tdIfname :: string
  IngressMbps :: "64 word"
  EgressMbps :: "64 word"
  tdBridge :: string
  tdPortNo :: int

definition OvsLocalPortNo :: int where "OvsLocalPortNo = 65534"

definition DefaultHostHtbRate :: "64 word" where "DefaultHostHtbRate = 1000 * 1000 * 1000 * 1000"

definition IfbIfname :: "TcData \<Rightarrow> string" where
  "IfbIfname td = ''r'' @ tdIfname td"

text \<open>
  \<open>uint64(float64(n) * c)\<close> for the constants \<open>ingressAmplifier\<close> (1.0) and
  \<open>egressAmplifier\<close> (1.1, as a \<open>float64\<close> the fraction 4953959590107546 / $2^{52}$): the
  number and the product are rounded to 53 bits, the result is truncated.
\<close>

definition amplify :: "(dec \<Rightarrow> 64 word) \<Rightarrow> int \<Rightarrow> 64 word \<Rightarrow> 64 word" where
  "amplify oor c n =
     (let p = float_frac (float_frac (uint n) 1 * c) (2 ^ 52)
      in if p < 2 ^ 64 then of_int p else oor (Dec False p 0))"

definition ingressAmplifier :: int where "ingressAmplifier = 2 ^ 52"
definition egressAmplifier :: int where "egressAmplifier = 4953959590107546"

definition tbfQdisc :: "64 word \<Rightarrow> qdisc" where
  "tbfQdisc rateMbps =
     (let rates = rateMbps * 1000 * 1000;
          bytesPerSec = rates div 8;
          burst = bytesPerSec div 1000;
          burst' = (if burst < 3400 then 3400 else burst);
          latency = 100000000
      in QdiscTbf \<lparr>qKind = ''tbf'', qHandle = ''1:'', qParent = '''', qRoot = True\<rparr>
           rates burst' latency)"

definition ingressQdisc :: qdisc where
  "ingressQdisc = QdiscIngress \<lparr>qKind = ''ingress'', qHandle = ''ffff:'', qParent = '''', qRoot = False\<rparr>"

definition guestNicRootQdisc :: "(dec \<Rightarrow> 64 word) \<Rightarrow> TcData \<Rightarrow> qdisc list" where
  "guestNicRootQdisc oor td = [tbfQdisc (amplify oor ingressAmplifier (IngressMbps td)), ingressQdisc]"

definition guestIfbNicRootQdisc :: "(dec \<Rightarrow> 64 word) \<Rightarrow> TcData \<Rightarrow> qdisc list" where
  "guestIfbNicRootQdisc oor td = [tbfQdisc (amplify oor egressAmplifier (EgressMbps td))]"

definition hostRootQdisc :: "qdisc list" where
  "hostRootQdisc =
     [QdiscHtb \<lparr>qKind = ''htb'', qHandle = ''1:'', qParent = '''', qRoot = True\<rparr>
        (of_int OvsLocalPortNo)]"

definition hostRootClass :: "tc_class list" where
  "hostRootClass =
     (let rootClass = SHtbClass ''htb'' ''1:1'' None DefaultHostHtbRate DefaultHostHtbRate;
          defaultClass = SHtbClass ''htb'' (''1:'' @ show_hex OvsLocalPortNo) (Some rootClass)
                           DefaultHostHtbRate DefaultHostHtbRate
      in [rootClass, defaultClass])"

definition guestNicFilter :: "TcData \<Rightarrow> tc_filter list" where
  "guestNicFilter td =
     [SU32Filter \<lparr>fParent = Some ingressQdisc, fKind = ''u32'', fProtocol = ''ip'', fPrio = 49152\<rparr>
        (IfbIfname td) '''']"

definition GuestQdiscTree :: "(dec \<Rightarrow> 64 word) \<Rightarrow> TcData \<Rightarrow> QdiscTree result" where
  "GuestQdiscTree oor td = NewQdiscTree (guestNicRootQdisc oor td) [] (guestNicFilter td)"

definition GuestIfbQdiscTree :: "(dec \<Rightarrow> 64 word) \<Rightarrow> TcData \<Rightarrow> QdiscTree result" where
  "GuestIfbQdiscTree oor td = NewQdiscTree (guestIfbNicRootQdisc oor td) [] []"

definition HostRootQdiscTree :: "TcData \<Rightarrow> QdiscTree result" where
  "HostRootQdiscTree td = NewQdiscTree hostRootQdisc hostRootClass []"

definition HostGuestQdiscTree :: "TcData \<Rightarrow> tc_class option \<Rightarrow> qdisc option \<Rightarrow> QdiscTree result" where
  "HostGuestQdiscTree td rootCls rootQdisc = NewQdiscTree [] [] []"

section \<open>The \<open>tc\<close> command\<close>

record 'w tc_sys =
  run :: "'w \<Rightarrow> string list \<Rightarrow> 'w \<times> string result"
  ifnameExists :: "'w \<Rightarrow> string \<Rightarrow> bool"

record TcCli =
  tc_force :: bool
  tc_details :: bool

text \<open>A computation that may change the system state.\<close>

type_synonym ('w, 'a) io = "'w \<Rightarrow> 'w \<times> 'a result"

definition io_bind :: "('w, 'a) io \<Rightarrow> ('a \<Rightarrow> ('w, 'b) io) \<Rightarrow> ('w, 'b) io" where
  "io_bind m f w = (case m w of (w', Inl e) \<Rightarrow> (w', Inl e) | (w', Inr x) \<Rightarrow> f x w')"

definition io_lift :: "'a result \<Rightarrow> ('w, 'a) io" where
  "io_lift r w = (w, r)"

definition QdiscShow :: "'w tc_sys \<Rightarrow> (dec \<Rightarrow> 64 word) \<Rightarrow> string \<Rightarrow> ('w, QdiscTree) io" where
  "QdiscShow sys oor ifname =
     io_bind (\<lambda>w. run sys w [''tc'', ''qdisc'', ''show'', ''dev'', ifname]) (\<lambda>q.
     io_bind (\<lambda>w. run sys w [''tc'', ''class'', ''show'', ''dev'', ifname]) (\<lambda>c.
     io_bind (\<lambda>w. run sys w [''tc'', ''filter'', ''show'', ''dev'', ifname]) (\<lambda>f.
     io_bind (\<lambda>w. run sys w [''tc'', ''filter'', ''show'', ''dev'', ifname, ''root'']) (\<lambda>f2.
     io_lift (NewQdiscTreeFromString oor q c (f @ f2))))))"

definition singleCmd :: "'w tc_sys \<Rightarrow> TcCli \<Rightarrow> string list \<Rightarrow> 'w \<Rightarrow> 'w \<times> string result" where
  "singleCmd sys tc cmdline w =
     run sys w ([''tc''] @ (if tc_details tc then [''-details''] else [])
                @ (if tc_force tc then [''-force''] else []) @ cmdline)"

text \<open>\<open>Batch\<close> runs every line, also after an error; the errors are put together.\<close>

fun Batch :: "'w tc_sys \<Rightarrow> TcCli \<Rightarrow> string list list \<Rightarrow> 'w \<Rightarrow> 'w \<times> string result" where
  "Batch sys tc [] w = (w, Inr '''')"
| "Batch sys tc (l # ls) w =
     (let (w1, r1) = singleCmd sys tc l w; (w2, r2) = Batch sys tc ls w1
      in (w2, case (r1, r2) of
                (Inr o1, Inr o2) \<Rightarrow> Inr (o1 @ o2)
              | (Inr o1, Inl e) \<Rightarrow> Inl e
              | (Inl e, _) \<Rightarrow> Inl e))"

section \<open>The manager\<close>

definition tcManHostLocalWho :: string where "tcManHostLocalWho = ''hostlocal''"

type_synonym TcManSection = "(string, TcData) gomap"

datatype TcManCmd = TcManCmdAdd string TcManSection bool | TcManCmdDel string | TcManCmdSync

record TcMan =
  book :: "(string, TcManSection) gomap"
  tcCli :: TcCli

definition NewTcMan :: TcMan where
  "NewTcMan = \<lparr>book = [], tcCli = \<lparr>tc_force = True, tc_details = True\<rparr>\<rparr>"

text \<open>The common end of the checks: compute the difference and run it if there is one.\<close>

definition apply_delta ::
  "'w tc_sys \<Rightarrow> TcMan \<Rightarrow> QdiscTree \<Rightarrow> QdiscTree \<Rightarrow> string \<Rightarrow> ('w, unit) io" where
  "apply_delta sys tm expectTree qt ifname =
     io_bind (io_lift (Delta expectTree qt ifname)) (\<lambda>cmds.
       if length cmds > 0
       then io_bind (Batch sys (tcCli tm) cmds) (\<lambda>_. io_lift (Inr ()))
       else io_lift (Inr ()))"

definition removeIfbIfname :: "'w tc_sys \<Rightarrow> string \<Rightarrow> ('w, unit) io" where
  "removeIfbIfname sys ifname w =
     (if \<not> ifnameExists sys w ifname then (w, Inr ())
      else io_bind (\<lambda>w. run sys w [''ip'', ''link'', ''delete'', ifname]) (\<lambda>_. io_lift (Inr ())) w)"

definition ensureIfbIfname :: "'w tc_sys \<Rightarrow> string \<Rightarrow> ('w, unit) io" where
  "ensureIfbIfname sys ifname w =
     (if ifnameExists sys w ifname then (w, Inr ())
      else io_bind (\<lambda>w. run sys w [''ip'', ''link'', ''add'', ifname, ''type'', ''ifb'']) (\<lambda>_.
           io_bind (\<lambda>w. run sys w [''ip'', ''link'', ''set'', ifname, ''up'']) (\<lambda>_.
           io_lift (Inr ()))) w)"

definition doCleanGuestIfbTcData :: "'w tc_sys \<Rightarrow> TcData \<Rightarrow> ('w, unit) io" where
  "doCleanGuestIfbTcData sys tcdata = removeIfbIfname sys (IfbIfname tcdata)"

definition doCheckGuestIfbTcData ::
  "'w tc_sys \<Rightarrow> (dec \<Rightarrow> 64 word) \<Rightarrow> TcMan \<Rightarrow> TcData \<Rightarrow> ('w, unit) io" where
  "doCheckGuestIfbTcData sys oor tm tcdata =
     io_bind (ensureIfbIfname sys (IfbIfname tcdata)) (\<lambda>_.
     io_bind (QdiscShow sys oor (IfbIfname tcdata)) (\<lambda>qt.
     io_bind (io_lift (GuestIfbQdiscTree oor tcdata)) (\<lambda>expectTree.
     apply_delta sys tm expectTree qt (IfbIfname tcdata))))"

definition doCheckGuestTcData ::
  "'w tc_sys \<Rightarrow> (dec \<Rightarrow> 64 word) \<Rightarrow> TcMan \<Rightarrow> TcData \<Rightarrow> ('w, unit) io" where
  "doCheckGuestTcData sys oor tm tcdata =
     io_bind (QdiscShow sys oor (tdIfname tcdata)) (\<lambda>qt.
     io_bind (io_lift (GuestQdiscTree oor tcdata)) (\<lambda>expectTree.
     apply_delta sys tm expectTree qt (tdIfname tcdata)))"

text \<open>An error of one page is logged and the loop goes on; a panic ends the process.\<close>

definition logged :: "('w, unit) io \<Rightarrow> ('w, unit) io" where
  "logged m w = (case m w of (w', Inl (Err e)) \<Rightarrow> (w', Inr ()) | r \<Rightarrow> r)"

fun for_pages :: "('d \<Rightarrow> ('w, unit) io) \<Rightarrow> (string \<times> 'd) list \<Rightarrow> ('w, unit) io" where
  "for_pages f [] = io_lift (Inr ())"
| "for_pages f (kv # kvs) = io_bind (logged (f (snd kv))) (\<lambda>_. for_pages f kvs)"

definition doCheckGuestSection ::
  "'w tc_sys \<Rightarrow> (dec \<Rightarrow> 64 word) \<Rightarrow> TcMan \<Rightarrow> TcManSection \<Rightarrow> ('w, unit) io" where
  "doCheckGuestSection sys oor tm section =
     for_pages (\<lambda>tcdata. io_bind (doCheckGuestIfbTcData sys oor tm tcdata)
                            (\<lambda>_. doCheckGuestTcData sys oor tm tcdata)) section"

definition doCleanGuestSection :: "'w tc_sys \<Rightarrow> TcManSection \<Rightarrow> ('w, unit) io" where
  "doCleanGuestSection sys section = for_pages (doCleanGuestIfbTcData sys) section"

text \<open>The guest trees of the same bridge are merged into the host tree.\<close>

fun merge_guest_trees ::
  "TcData \<Rightarrow> tc_class option \<Rightarrow> qdisc option \<Rightarrow> QdiscTree \<Rightarrow> TcData list \<Rightarrow> QdiscTree result" where
  "merge_guest_trees td rc rq tree [] = Inr tree"
| "merge_guest_trees td rc rq tree (g # gs) =
     (if tdBridge g \<noteq> tdBridge td then merge_guest_trees td rc rq tree gs
      else res_bind (HostGuestQdiscTree g rc rq) (\<lambda>gt.
           res_bind (tree_Merge tree gt) (\<lambda>tree'. merge_guest_trees td rc rq tree' gs)))"

definition doCheckHostTcData ::
  "'w tc_sys \<Rightarrow> (dec \<Rightarrow> 64 word) \<Rightarrow> TcMan \<Rightarrow> TcData \<Rightarrow> ('w, unit) io" where
  "doCheckHostTcData sys oor tm tcdata =
     io_bind (QdiscShow sys oor (tdIfname tcdata)) (\<lambda>qt.
     io_bind (io_lift (HostRootQdiscTree tcdata)) (\<lambda>expectTree.
     io_bind (io_lift (merge_guest_trees tcdata (RootClass expectTree) (RootQdisc expectTree) expectTree
                (concat (map (\<lambda>(who, section). if who = tcManHostLocalWho then [] else map snd section)
                   (book tm))))) (\<lambda>tree.
     apply_delta sys tm tree qt (tdIfname tcdata))))"

text \<open>The section may be a nil pointer, whose \<open>pages\<close> cannot be read.\<close>

definition doCheckHostSection ::
  "'w tc_sys \<Rightarrow> (dec \<Rightarrow> 64 word) \<Rightarrow> TcMan \<Rightarrow> TcManSection option \<Rightarrow> ('w, unit) io" where
  "doCheckHostSection sys oor tm section =
     (case section of
        None \<Rightarrow> io_lift (Inl (Panic ''nil pointer dereference''))
      | Some pages \<Rightarrow> for_pages (doCheckHostTcData sys oor tm) pages)"

fun check_guest_sections ::
  "'w tc_sys \<Rightarrow> (dec \<Rightarrow> 64 word) \<Rightarrow> TcMan \<Rightarrow> (string \<times> TcManSection) list \<Rightarrow> ('w, unit) io" where
  "check_guest_sections sys oor tm [] = io_lift (Inr ())"
| "check_guest_sections sys oor tm ((who, section) # rest) =
     (if who = tcManHostLocalWho then check_guest_sections sys oor tm rest
      else io_bind (doCheckGuestSection sys oor tm section)
             (\<lambda>_. check_guest_sections sys oor tm rest))"

definition doIdleCheck :: "'w tc_sys \<Rightarrow> (dec \<Rightarrow> 64 word) \<Rightarrow> TcMan \<Rightarrow> ('w, unit) io" where
  "doIdleCheck sys oor tm =
     io_bind (check_guest_sections sys oor tm (book tm))
       (\<lambda>_. doCheckHostSection sys oor tm (gm_get (book tm) tcManHostLocalWho))"

definition doCheckSection ::
  "'w tc_sys \<Rightarrow> (dec \<Rightarrow> 64 word) \<Rightarrow> TcMan \<Rightarrow> string \<Rightarrow> TcManSection \<Rightarrow> ('w, unit) io" where
  "doCheckSection sys oor tm who section =
     (if who = tcManHostLocalWho then doCheckHostSection sys oor tm (Some section)
      else doCheckGuestSection sys oor tm section)"

definition doCleanSection :: "'w tc_sys \<Rightarrow> string \<Rightarrow> TcManSection \<Rightarrow> ('w, unit) io" where
  "doCleanSection sys who section =
     (if who \<noteq> tcManHostLocalWho then doCleanGuestSection sys section else io_lift (Inr ()))"

definition tcman_doCmd ::
  "'w tc_sys \<Rightarrow> (dec \<Rightarrow> 64 word) \<Rightarrow> TcMan \<Rightarrow> TcManCmd \<Rightarrow> ('w, TcMan) io" where
  "tcman_doCmd sys oor tm cmd =
     (case cmd of
        TcManCmdAdd who section sync \<Rightarrow>
          let tm' = tm\<lparr>book := gm_set (book tm) who section\<rparr>
          in if sync then io_bind (doCheckSection sys oor tm' who section) (\<lambda>_. io_lift (Inr tm'))
             else io_lift (Inr tm')
      | TcManCmdDel who \<Rightarrow>
          (case gm_get (book tm) who of
             None \<Rightarrow> io_lift (Inr tm)
           | Some section \<Rightarrow>
               io_bind (doCleanSection sys who section)
                 (\<lambda>_. io_lift (Inr (tm\<lparr>book := gm_del (book tm) who\<rparr>))))
      | TcManCmdSync \<Rightarrow> io_bind (doIdleCheck sys oor tm) (\<lambda>_. io_lift (Inr tm)))"

text \<open>A turn of the loop of \<open>Start\<close>; \<open>None\<close> is its end.\<close>

datatype tc_event = TcCmd TcManCmd | TcTick | TcDone

definition tcman_turn ::
  "'w tc_sys \<Rightarrow> (dec \<Rightarrow> 64 word) \<Rightarrow> tc_event \<Rightarrow> TcMan \<Rightarrow> ('w, TcMan) io option" where
  "tcman_turn sys oor ev tm =
     (case ev of
        TcCmd cmd \<Rightarrow> Some (tcman_doCmd sys oor tm cmd)
      | TcTick \<Rightarrow> Some (io_bind (doIdleCheck sys oor tm) (\<lambda>_. io_lift (Inr tm)))
      | TcDone \<Rightarrow> None)"

text \<open>A tick does what the command to synchronise does: it leaves the book alone.\<close>

lemma tcman_tick_sync: "tcman_turn sys oor TcTick tm = tcman_turn sys oor (TcCmd TcManCmdSync) tm"
  by (simp add: tcman_turn_def tcman_doCmd_def)

text \<open>\<open>AddIfaces\<close>: a later interface of the same name replaces an earlier one.\<close>

definition AddIfaces :: "string \<Rightarrow> TcData list \<Rightarrow> bool \<Rightarrow> TcManCmd" where
  "AddIfaces who data sync =
     TcManCmdAdd who (foldl (\<lambda>pages d. gm_set pages (tdIfname d) d) [] data) sync"

definition ClearIfaces :: "string \<Rightarrow> TcManCmd" where
  "ClearIfaces who = TcManCmdDel who"

definition SyncAll :: TcManCmd where
  "SyncAll = TcManCmdSync"

section \<open>The trees the manager asks for\<close>

lemma canonical_ids: "canonical_id ''1:''" "canonical_id ''ffff:''" "canonical_id ''1:1''" "canonical_id ''1:fffe''"
  by code_simp+

lemma hex_local: "show_hex OvsLocalPortNo = ''fffe''"
  by code_simp

lemma hostRootClass_fffe:
  "hostRootClass = [SHtbClass ''htb'' ''1:1'' None DefaultHostHtbRate DefaultHostHtbRate,
     SHtbClass ''htb'' ''1:fffe'' (Some (SHtbClass ''htb'' ''1:1'' None DefaultHostHtbRate DefaultHostHtbRate))
       DefaultHostHtbRate DefaultHostHtbRate]"
  by (simp add: hostRootClass_def hex_local Let_def)

lemma tbfQdisc_ok: "tbfQdisc r \<in> qdisc_ok" "qdisc_key (tbfQdisc r) = (False, convertClassId ''1:'', ''tbf'', '''')"
  by (simp_all add: tbfQdisc_def Let_def qdisc_ok_def qdisc_Id_def canonical_ids qdisc_key_def)

lemma ingressQdisc_ok: "ingressQdisc \<in> qdisc_ok" "qdisc_key ingressQdisc = (True, convertClassId ''ffff:'', ''ingress'', '''')"
  by (simp_all add: ingressQdisc_def qdisc_ok_def qdisc_Id_def canonical_ids qdisc_key_def)

lemma guestNicFilter_ok: "set (guestNicFilter td) \<subseteq> filter_ok" "distinct (map filter_key (guestNicFilter td))"
  by (simp_all add: guestNicFilter_def filter_ok_def ingressQdisc_def qdisc_Id_def canonical_ids)

lemma host_ok:
  "set hostRootQdisc \<subseteq> qdisc_ok" "distinct (map qdisc_key hostRootQdisc)"
  "set hostRootClass \<subseteq> class_ok" "distinct (map class_key hostRootClass)"
proof -
  have "convertClassId ''1:1'' \<noteq> convertClassId ''1:fffe''" by code_simp
  then show "set hostRootQdisc \<subseteq> qdisc_ok" "distinct (map qdisc_key hostRootQdisc)"
    "set hostRootClass \<subseteq> class_ok" "distinct (map class_key hostRootClass)"
    by (simp_all add: hostRootQdisc_def qdisc_ok_def qdisc_Id_def canonical_ids hostRootClass_fffe
        class_ok_def class_key_def)
qed

definition host_tree :: QdiscTree where
  "host_tree = \<lparr>tqdisc = hostRootQdisc, tclasses = hostRootClass, tfilters = []\<rparr>"

lemma HostRootQdiscTree_eq: "HostRootQdiscTree td = Inr host_tree"
  unfolding HostRootQdiscTree_def by code_simp

lemma tree_Merge_host: "res_bind (HostGuestQdiscTree g rc rq) (tree_Merge host_tree) = Inr host_tree"
proof -
  have "res_bind (NewQdiscTree [] [] []) (tree_Merge host_tree) = Inr host_tree" by code_simp
  then show ?thesis by (simp add: HostGuestQdiscTree_def)
qed

lemma merge_guest_trees_host: "merge_guest_trees td rc rq host_tree gs = Inr host_tree"
proof (induction gs)
  case (Cons g gs)
  with tree_Merge_host [of g rc rq] show ?case
    by (cases "HostGuestQdiscTree g rc rq") auto
qed simp


section \<open>The book and the checks\<close>

lemma logged_not_Err: "logged m w \<noteq> (w', Inl (Err e))"
  by (auto simp: logged_def split: prod.splits sum.splits go_error.splits)

lemma for_pages_not_Err: "for_pages f ps w \<noteq> (w', Inl (Err e))"
proof (induction ps arbitrary: w)
  case (Cons p ps)
  then show ?case
    using logged_not_Err [of "f (snd p)" w]
    by (auto simp: io_bind_def split: prod.splits sum.splits)
qed (simp add: io_lift_def)

lemma check_guest_sections_not_Err: "check_guest_sections sys oor tm bs w \<noteq> (w', Inl (Err e))"
proof (induction bs arbitrary: w)
  case (Cons b bs)
  obtain who sec where "b = (who, sec)" by fastforce
  with Cons for_pages_not_Err [of _ sec w] show ?case
    by (auto simp: io_bind_def doCheckGuestSection_def split: prod.splits sum.splits)
qed (simp add: io_lift_def)

text \<open>A check of all sections while the host's own section is not in the book yet dereferences
  a nil section: the process panics, whatever the system does.\<close>

theorem idle_check_without_hostlocal_panics:
  assumes "gm_get (book tm) tcManHostLocalWho = None"
  shows "\<exists>w' p. tcman_doCmd sys oor tm TcManCmdSync w = (w', Inl (Panic p))"
proof -
  obtain w1 r where r: "check_guest_sections sys oor tm (book tm) w = (w1, r)" by fastforce
  with check_guest_sections_not_Err [of sys oor tm "book tm" w] have "\<nexists>e. r = Inl (Err e)" by auto
  then consider p where "r = Inl (Panic p)" | "r = Inr ()"
    by (cases r) (auto, metis go_error.exhaust)
  then show ?thesis
    using r assms
    by cases (auto simp: tcman_doCmd_def doIdleCheck_def doCheckHostSection_def io_bind_def io_lift_def)
qed

theorem idle_check_without_hostlocal_panics_witness:
  "\<exists>w' p. tcman_doCmd \<lparr>run = \<lambda>w args. (w, Inr ''''), ifnameExists = \<lambda>w s. True\<rparr> (\<lambda>_. 0) NewTcMan
     TcManCmdSync () = (w', Inl (Panic p))"
  by (rule idle_check_without_hostlocal_panics) (simp add: NewTcMan_def)



end
