(* ===== verification/SecurityRules.thy ===== *)
theory SecurityRules
  imports GoStr
begin

unbundle bit_operations_syntax

text \<open>
  Security rules and their translation to OpenFlow matches:
  \<open>pkg/agent/utils/securityrules.go\<close>.

  A parsed rule is a value of the vendored package \<open>secrules\<close>; its fields are a record, its
  parser and its method \<open>IsWildMatch\<close> are parameters.  Of an IP network the code observes
  its text, the text of its address, the size of its mask and whether the text is an IPv6
  prefix.
\<close>

section \<open>Rules\<close>

record ipnet =
  netString :: string
  ipString :: string
  maskOnes :: int
  maskBits :: int
  matchCIDR6 :: bool

record sec_rule =
  rAction :: string
  rDirection :: string
  rProtocol :: string
  rIPNet :: "ipnet option"
  rPortStart :: int
  rPortEnd :: int
  rPorts :: "int list"

text \<open>
  \<open>PortRangeToMasks\<close>: the loop variables are 32-bit words in the code; they stay below
  $2^{18}$, so the arithmetic on integers is the same.
\<close>

function mask_block :: "int \<Rightarrow> int \<Rightarrow> int \<Rightarrow> int" where
  "mask_block sp ep b =
     (if 0 < b \<and> sp + b \<le> ep \<and> sp AND (b - 1) = 0 then mask_block sp ep (2 * b) else b)"
  by pat_completeness auto
termination by (relation "measure (\<lambda>(sp, ep, b). nat (ep + 1 - (sp + b)))") auto

declare mask_block.simps [simp del]

lemma mask_block_ge: "0 < b \<Longrightarrow> b \<le> mask_block sp ep b"
  by (induction sp ep b rule: mask_block.induct) (subst mask_block.simps, auto)

lemma mask_block_2: "sp < ep \<Longrightarrow> 2 \<le> mask_block sp ep 1"
  using mask_block_ge [of 2 sp ep] by (simp add: mask_block.simps [of sp ep 1])

function masks_loop :: "int \<Rightarrow> int \<Rightarrow> (16 word \<times> 16 word) list" where
  "masks_loop sp ep =
     (if sp < ep then
        let b = mask_block sp ep 1 div 2
        in (of_int sp, of_int (NOT (b - 1))) # masks_loop (sp + b) ep
      else [])"
  by pat_completeness auto
termination
proof (relation "measure (\<lambda>(sp, ep). nat (ep - sp))", goal_cases)
  case (2 sp ep b)
  then show ?case using mask_block_2 [of sp ep] by auto
qed simp

declare masks_loop.simps [simp del]

definition PortRangeToMasks :: "16 word \<Rightarrow> 16 word \<Rightarrow> (16 word \<times> 16 word) list" where
  "PortRangeToMasks s e =
     (if s = e then [(s, NOT 0)] else masks_loop (uint s) (uint e + 1))"

text \<open>The loop over the masks: a full mask is a plain port, and a zero mask ends the loop.\<close>

fun mask_matches :: "string \<Rightarrow> (16 word \<times> 16 word) list \<Rightarrow> string list" where
  "mask_matches tpField [] = []"
| "mask_matches tpField ((v, m) # ms) =
     (if m = 0xffff then (tpField @ show_dec (uint v)) # mask_matches tpField ms
      else if m = 0 then []
      else (tpField @ (if v = 0 then ''0'' else ''0x'' @ show_hex (uint v))
            @ ''/0x'' @ show_hex (uint m)) # mask_matches tpField ms)"

definition OvsMatches :: "sec_rule \<Rightarrow> string list" where
  "OvsMatches r =
     (let (nwField, v6Field, tpField) =
            (if rDirection r = ''in'' then (''ip,nw_src='', ''ipv6,ipv6_src='', ''tp_dst='')
             else if rDirection r = ''out'' then (''ip,nw_dst='', ''ipv6,ipv6_dst='', ''tp_dst='')
             else ('''', '''', ''''));
          (nwProto, nwMatch) =
            (case rIPNet r of
               None \<Rightarrow> ('''', '''')
             | Some n \<Rightarrow>
                 if matchCIDR6 n then
                   (''ipv6'', v6Field @ (if maskOnes n = 128 \<and> maskBits n = 128
                                         then ipString n else netString n))
                 else
                   (''ip'', nwField @ (if maskOnes n = 32 \<and> maskBits n = 32
                                       then ipString n else netString n)));
          (protoMatch, tpMatch) =
            (if rProtocol r = ''any'' then
               ('''', if length nwMatch = 0 then [''ipv6'', ''ip''] else [])
             else if rProtocol r \<in> set [''tcp'', ''udp''] then
               (rProtocol r,
                map (\<lambda>p. tpField @ show_int p) (rPorts r)
                @ (if rPortStart r > 0 \<and> rPortStart r \<le> rPortEnd r
                   then mask_matches tpField
                          (PortRangeToMasks (of_int (rPortStart r)) (of_int (rPortEnd r)))
                   else []))
             else if rProtocol r = ''icmp'' then
               (if nwProto = ''ipv6'' then (''icmp6'', [])
                else if nwProto = ''ip'' then (''icmp'', [])
                else ('''', [''icmp'', ''icmp6'']))
             else (rProtocol r, []));
          m = nwMatch @ (if length protoMatch > 0
                         then (if length nwMatch > 0 then '','' else '''') @ protoMatch else '''')
      in if length tpMatch = 0 then [m]
         else map (\<lambda>tpm. if length m > 0 then m @ '','' @ tpm else tpm) tpMatch)"

definition OvsActionAllow :: "sec_rule \<Rightarrow> bool" where
  "OvsActionAllow r \<longleftrightarrow> rAction r = ''allow''"

record SecurityRules =
  inRules :: "sec_rule list"
  outRules :: "sec_rule list"

definition NewSecurityRule :: "(string \<Rightarrow> sec_rule result) \<Rightarrow> string \<Rightarrow> sec_rule result" where
  "NewSecurityRule parse s = parse (TrimSpace s)"

fun secrules_loop ::
  "(string \<Rightarrow> sec_rule result) \<Rightarrow> sec_rule list \<Rightarrow> sec_rule list \<Rightarrow> string list
   \<Rightarrow> (sec_rule list \<times> sec_rule list) result" where
  "secrules_loop parse ins outs [] = Inr (ins, outs)"
| "secrules_loop parse ins outs (s # ss) =
     (let sr = TrimSpace s
      in if length sr = 0 then secrules_loop parse ins outs ss
         else res_bind (NewSecurityRule parse sr) (\<lambda>r.
           if rDirection r = ''in'' then secrules_loop parse (ins @ [r]) outs ss
           else if rDirection r = ''out'' then secrules_loop parse ins (outs @ [r]) ss
           else secrules_loop parse ins outs ss))"

text \<open>The error of parsing a default rule is ignored in the code, which leaves a nil rule in the
  list; here the parse of the two constants is required to succeed where it is used, and a
  failure is a panic.\<close>

definition with_default ::
  "(string \<Rightarrow> sec_rule result) \<Rightarrow> (sec_rule \<Rightarrow> bool) \<Rightarrow> string \<Rightarrow> sec_rule list
   \<Rightarrow> sec_rule list result" where
  "with_default parse wild dflt rs =
     (if rs = [] \<or> \<not> wild (last rs) then
        (case NewSecurityRule parse dflt of
           Inl _ \<Rightarrow> Inl (Panic ''nil security rule'')
         | Inr r \<Rightarrow> Inr (rs @ [r]))
      else Inr rs)"

definition NewSecurityRules ::
  "(string \<Rightarrow> sec_rule result) \<Rightarrow> (sec_rule \<Rightarrow> bool) \<Rightarrow> string \<Rightarrow> SecurityRules result" where
  "NewSecurityRules parse wild s =
     res_bind (secrules_loop parse [] [] (split_on CHR '';'' s)) (\<lambda>(ins, outs).
     res_bind (with_default parse wild ''in:deny any'' ins) (\<lambda>ins'.
     res_bind (with_default parse wild ''out:allow any'' outs) (\<lambda>outs'.
       Inr \<lparr>inRules = ins', outRules = outs'\<rparr>)))"

section \<open>The masks cover the range exactly\<close>

lemma uint_of_int16: "0 \<le> i \<Longrightarrow> i < 65536 \<Longrightarrow> uint (of_int i :: 16 word) = i"
  by (simp add: uint_word_of_int_eq take_bit_eq_mod)

lemma take_bit_of_uint: "take_bit LENGTH(16) (uint (w::16 word)) = uint w"
  using uint_lt2p [of w] by (simp add: take_bit_int_eq_self)

lemma bit_word_bound: "bit (w::16 word) n \<Longrightarrow> n < 16"
  using bit_imp_le_length [of w n] by simp

lemma mask_block_pow:
  assumes "sp < ep"
  obtains k where "mask_block sp ep 1 div 2 = 2 ^ k" "sp + 2 ^ k \<le> ep" "2 ^ k dvd sp"
proof -
  have *: "\<exists>k. mask_block sp ep b div 2 = 2 ^ k \<and> sp + 2 ^ k \<le> ep \<and> 2 ^ k dvd sp"
    if "b = 2 * 2 ^ j" "sp + 2 ^ j \<le> ep" "2 ^ j dvd sp" for b j
    using that
  proof (induction sp ep b arbitrary: j rule: mask_block.induct)
    case (1 sp ep b)
    show ?case
    proof (cases "0 < b \<and> sp + b \<le> ep \<and> sp AND (b - 1) = 0")
      case True
      have "b = 2 ^ Suc j" using "1.prems" by simp
      then have "sp AND mask (Suc j) = 0" using True by (simp add: mask_eq_exp_minus_1)
      then have "2 ^ Suc j dvd sp" by (simp only: take_bit_eq_mask [symmetric] take_bit_eq_0_iff)
      then have "\<exists>k. mask_block sp ep (2 * b) div 2 = 2 ^ k \<and> sp + 2 ^ k \<le> ep \<and> 2 ^ k dvd sp"
        using "1.IH" [OF True, of "Suc j"] True \<open>b = 2 ^ Suc j\<close> by simp
      moreover have "mask_block sp ep b = mask_block sp ep (2 * b)"
        using True by (subst mask_block.simps) simp
      ultimately show ?thesis by simp
    next
      case False
      then have "mask_block sp ep b = b" by (subst mask_block.simps) metis
      with "1.prems" show ?thesis by auto
    qed
  qed
  have "mask_block sp ep 1 = mask_block sp ep 2"
    using assms by (simp add: mask_block.simps [of sp ep 1])
  with * [of 2 0] assms that show thesis by auto
qed

lemma div_block: "0 < (d::int) \<Longrightarrow> d dvd v \<Longrightarrow> u div d = v div d \<longleftrightarrow> v \<le> u \<and> u < v + d"
proof (elim dvdE)
  fix k assume d: "0 < d" "v = d * k"
  have "u div d = k \<longleftrightarrow> d * k \<le> u \<and> u < d * k + d"
  proof
    assume "u div d = k"
    then show "d * k \<le> u \<and> u < d * k + d"
      using mult_div_mod_eq [of d u] pos_mod_sign [of d u] pos_mod_bound [of d u] d(1)
      by (smt (verit))
  next
    assume "d * k \<le> u \<and> u < d * k + d"
    then show "u div d = k" using int_div_pos_eq [of u d k "u - d * k"] d by simp
  qed
  with d show ?thesis by simp
qed

lemma masked_eq_iff:
  fixes p v :: "16 word"
  assumes "take_bit k v = 0"
  shows "p AND NOT (mask k) = v \<longleftrightarrow> drop_bit k p = drop_bit k v"
proof
  assume "p AND NOT (mask k) = v"
  then show "drop_bit k p = drop_bit k v"
    by (auto intro!: bit_word_eqI simp: bit_simps dest: bit_word_bound)
next
  assume eq: "drop_bit k p = drop_bit k v"
  show "p AND NOT (mask k) = v"
  proof (rule bit_word_eqI)
    fix n assume "n < LENGTH(16)"
    show "bit (p AND NOT (mask k)) n \<longleftrightarrow> bit v n"
    proof (cases "n < k")
      case True
      with assms have "\<not> bit v n" by (metis bit_take_bit_iff bit_0_eq bot_apply bot_bool_def)
      with True \<open>n < LENGTH(16)\<close> show ?thesis by (simp add: bit_simps)
    next
      case False
      have "bit (drop_bit k p) (n - k) \<longleftrightarrow> bit (drop_bit k v) (n - k)" by (simp add: eq)
      with False \<open>n < LENGTH(16)\<close> show ?thesis by (simp add: bit_simps)
    qed
  qed
qed

lemma block_match:
  fixes p :: "16 word"
  assumes "2 ^ k dvd sp" "0 \<le> sp" "sp + 2 ^ k \<le> 65536"
  shows "p AND of_int (NOT (2 ^ k - 1)) = of_int sp \<longleftrightarrow> sp \<le> uint p \<and> uint p < sp + 2 ^ k"
proof -
  have "sp < sp + 2 ^ k" by simp
  then have sp: "uint (of_int sp :: 16 word) = sp" using assms(2,3) by (intro uint_of_int16) linarith+
  have "(of_int (NOT (2 ^ k - 1)) :: 16 word) = NOT (mask k)"
    by (simp add: mask_eq_exp_minus_1 of_int_not_eq)
  moreover have "take_bit k (of_int sp :: 16 word) = 0"
    using assms(1) sp by (simp add: word_uint_eq_iff unsigned_take_bit_eq take_bit_eq_0_iff)
  ultimately have "p AND of_int (NOT (2 ^ k - 1)) = of_int sp \<longleftrightarrow> drop_bit k p = drop_bit k (of_int sp)"
    using masked_eq_iff by simp
  also have "\<dots> \<longleftrightarrow> uint p div 2 ^ k = sp div 2 ^ k"
    using take_bit_of_uint [of "of_int sp"]
    by (simp only: word_uint_eq_iff unsigned_drop_bit_eq take_bit_of_uint sp)
       (simp only: drop_bit_eq_div)
  also have "\<dots> \<longleftrightarrow> sp \<le> uint p \<and> uint p < sp + 2 ^ k"
    using assms(1) by (intro div_block) auto
  finally show ?thesis .
qed


text \<open>The number of entries that match a port: one inside the range, none outside.\<close>

abbreviation mask_hits :: "16 word \<Rightarrow> (16 word \<times> 16 word) list \<Rightarrow> nat" where
  "mask_hits p ms \<equiv> length (filter (\<lambda>(v, m). p AND m = v) ms)"

lemma masks_loop_hits:
  "0 \<le> sp \<Longrightarrow> ep \<le> 65536 \<Longrightarrow>
   mask_hits p (masks_loop sp ep) = (if sp \<le> uint p \<and> uint p < ep then 1 else 0)"
proof (induction sp ep rule: masks_loop.induct)
  case (1 sp ep)
  show ?case
  proof (cases "sp < ep")
    case True
    from True obtain k where k: "mask_block sp ep 1 div 2 = 2 ^ k" "sp + 2 ^ k \<le> ep" "2 ^ k dvd sp"
      by (rule mask_block_pow)
    have IH: "mask_hits p (masks_loop (sp + 2 ^ k) ep)
        = (if sp + 2 ^ k \<le> uint p \<and> uint p < ep then 1 else 0)"
      using "1.IH" [OF True] "1.prems" k(1) by simp
    have blk: "p AND of_int (NOT (2 ^ k - 1)) = of_int sp \<longleftrightarrow> sp \<le> uint p \<and> uint p < sp + 2 ^ k"
      using "1.prems" k(2,3) by (intro block_match) auto
    have step: "masks_loop sp ep = (of_int sp, of_int (NOT (2 ^ k - 1))) # masks_loop (sp + 2 ^ k) ep"
      by (subst masks_loop.simps) (simp only: True k(1) Let_def if_True)
    show ?thesis
    proof (cases "sp \<le> uint p \<and> uint p < sp + 2 ^ k")
      case True
      with blk IH k(2) show ?thesis unfolding step by auto
    next
      case False
      moreover have "sp < sp + 2 ^ k" by simp
      ultimately have "sp \<le> uint p \<longleftrightarrow> sp + 2 ^ k \<le> uint p" by linarith
      with False blk IH k(2) show ?thesis unfolding step by auto
    qed
  next
    case False
    then show ?thesis by (subst masks_loop.simps) auto
  qed
qed

lemma PortRangeToMasks_hits:
  "s \<le> e \<Longrightarrow> mask_hits p (PortRangeToMasks s e) = (if s \<le> p \<and> p \<le> e then 1 else 0)"
proof (cases "s = e")
  case False
  have "uint e + 1 \<le> 65536" using uint_lt2p [of e] by simp
  then show "mask_hits p (PortRangeToMasks s e) = (if s \<le> p \<and> p \<le> e then 1 else 0)"
    using False masks_loop_hits [of "uint s" "uint e + 1" p]
    by (simp add: PortRangeToMasks_def word_le_def zle_add1_eq_le)
qed (auto simp: PortRangeToMasks_def)

text \<open>C37: \<open>PortRangeToMasks\<close> turns a port range into value/mask pairs such that every port of the
  range matches exactly one of them and no other port matches any: the pairs partition the
  range.\<close>

theorem PortRangeToMasks_partition:
  assumes "s \<le> e"
  shows "length (filter (\<lambda>(v, m). p AND m = v) (PortRangeToMasks s e))
         = (if s \<le> p \<and> p \<le> e then 1 else 0)"
  using assms by (rule PortRangeToMasks_hits)

theorem PortRangeToMasks_partition_witness:
  "(22::16 word) \<le> 3389 \<and>
   length (filter (\<lambda>(v, m). 443 AND m = v) (PortRangeToMasks 22 3389)) = 1 \<and>
   length (filter (\<lambda>(v, m). 3390 AND m = v) (PortRangeToMasks 22 3389)) = 0"
  using PortRangeToMasks_partition [of 22 3389 443] PortRangeToMasks_partition [of 22 3389 3390]
  by simp

section \<open>What the emitted matches mean\<close>

text \<open>
  How the switch reads a transport port match: the field name, a number, optionally a slash and
  a mask; a number is hexadecimal after \<open>0x\<close>, decimal otherwise.
\<close>

definition read_num :: "string \<Rightarrow> 16 word option" where
  "read_num s =
     (case (if HasPrefix s ''0x'' then ParseUint (drop 2 s) 16 16 else ParseUint s 10 16) of
        (n, None) \<Rightarrow> Some (of_int n)
      | (n, Some e) \<Rightarrow> None)"

definition read_tp :: "string \<Rightarrow> string \<Rightarrow> (16 word \<times> 16 word) option" where
  "read_tp tpField t =
     (if HasPrefix t tpField then
        (case split_on CHR ''/'' (drop (length tpField) t) of
           [v] \<Rightarrow> map_option (\<lambda>v. (v, NOT 0)) (read_num v)
         | [v, m] \<Rightarrow> (case (read_num v, read_num m) of
                      (Some v, Some m) \<Rightarrow> Some (v, m) | _ \<Rightarrow> None)
         | _ \<Rightarrow> None)
      else None)"

definition tp_matches :: "string \<Rightarrow> 16 word \<Rightarrow> string \<Rightarrow> bool" where
  "tp_matches tpField p t = (case read_tp tpField t of None \<Rightarrow> False | Some (v, m) \<Rightarrow> p AND m = v)"

lemma HasPrefix_append [simp]: "HasPrefix (f @ t) f"
  by (simp add: HasPrefix_def)

lemma uint16_bound: "uint (w::16 word) < 2 ^ 16"
  using uint_lt2p [of w] by simp

lemma read_num_dec: "read_num (show_dec (uint (v::16 word))) = Some v"
proof -
  have "CHR ''x'' \<notin> set (show_dec (uint v))"
  proof
    assume "CHR ''x'' \<in> set (show_dec (uint v))"
    then obtain d where "0 \<le> d" "d < 10" "CHR ''x'' = digit_char d"
      using show_base_chars [of 10 "uint v"] by force
    then have "digit_val CHR ''x'' = Some d" by simp
    with \<open>d < 10\<close> show False by (simp add: digit_val_def)
  qed
  moreover have "CHR ''x'' \<in> set (take (length ''0x'') (show_dec (uint v)))"
    if "HasPrefix (show_dec (uint v)) ''0x''"
    using that by (simp only: HasPrefix_def) simp
  ultimately have "\<not> HasPrefix (show_dec (uint v)) ''0x''"
    by (meson in_set_takeD)
  then show ?thesis
    using ParseUint_show [of 10 "uint v" 16] uint16_bound [of v] by (simp add: read_num_def)
qed

lemma read_num_hex: "read_num (''0x'' @ show_hex (uint (v::16 word))) = Some v"
  using ParseUint_show [of 16 "uint v" 16] uint16_bound [of v]
  by (simp add: read_num_def HasPrefix_def)


text \<open>The text of one value/mask pair is read back as that pair.\<close>

lemma no_slash: "2 \<le> b \<Longrightarrow> b \<le> 16 \<Longrightarrow> 0 \<le> n \<Longrightarrow> CHR ''/'' \<notin> set (show_base b n)"
  by (rule show_base_no_char) (auto simp: digit_val_def)

lemma show_dec_0: "show_dec 0 = ''0''"
  by (subst show_base.simps) (simp add: digit_char_def, code_simp)

lemma read_tp_plain: "read_tp f (f @ show_dec (uint v)) = Some (v, NOT 0)"
  by (simp add: read_tp_def read_num_dec no_slash)

lemma read_tp_masked:
  "read_tp f (f @ (if v = 0 then ''0'' else ''0x'' @ show_hex (uint v)) @ ''/0x'' @ show_hex (uint m))
   = Some (v, m)"
proof -
  define vs where "vs = (if v = 0 then ''0'' else ''0x'' @ show_hex (uint v))"
  have rv: "read_num vs = Some v"
    using read_num_dec [of 0] read_num_hex [of v] show_dec_0 by (auto simp: vs_def)
  have rm: "read_num (''0x'' @ show_hex (uint m)) = Some m" by (rule read_num_hex)
  have "CHR ''/'' \<notin> set vs" by (auto simp: vs_def no_slash)
  then have "split_on CHR ''/'' (vs @ CHR ''/'' # ''0x'' @ show_hex (uint m))
      = [vs, ''0x'' @ show_hex (uint m)]"
    by (simp add: split_on_append no_slash)
  with rv rm show ?thesis by (simp add: read_tp_def vs_def [symmetric])
qed

lemma mask_matches_hits:
  "0 \<notin> snd ` set ms \<Longrightarrow>
   length (filter (tp_matches f p) (mask_matches f ms)) = mask_hits p ms"
proof (induction ms)
  case (Cons vm ms)
  obtain v m where vm: "vm = (v, m)" by (cases vm)
  have full: "(0xffff :: 16 word) = NOT 0" by simp
  have "tp_matches f p (f @ show_dec (uint v)) \<longleftrightarrow> p AND NOT 0 = v"
    "tp_matches f p (f @ (if v = 0 then ''0'' else ''0x'' @ show_hex (uint v)) @ ''/0x'' @ show_hex (uint m))
     \<longleftrightarrow> p AND m = v"
    by (simp_all only: tp_matches_def read_tp_plain read_tp_masked option.case prod.case)
  with Cons vm show ?case by (auto simp: full simp del: append_assoc append.simps)
qed simp

text \<open>No mask is zero when the range does not start at port 0.\<close>

lemma masks_loop_nonzero:
  "0 < sp \<Longrightarrow> ep \<le> 65536 \<Longrightarrow> 0 \<notin> snd ` set (masks_loop sp ep)"
proof (induction sp ep rule: masks_loop.induct)
  case (1 sp ep)
  show ?case
  proof (cases "sp < ep")
    case True
    from True obtain k where k: "mask_block sp ep 1 div 2 = 2 ^ k" "sp + 2 ^ k \<le> ep" "2 ^ k dvd sp"
      by (rule mask_block_pow)
    have IH: "0 \<notin> snd ` set (masks_loop (sp + 2 ^ k) ep)"
      using "1.IH" [OF True] "1.prems" k(1) by (simp add: add_pos_pos)
    have "(of_int (NOT (2 ^ k - 1)) :: 16 word) \<noteq> 0"
    proof
      assume z: "(of_int (NOT (2 ^ k - 1)) :: 16 word) = 0"
      have "uint (of_int sp :: 16 word) = sp" using True "1.prems" by (intro uint_of_int16) auto
      then have "of_int sp AND of_int (NOT (2 ^ k - 1)) = (of_int sp :: 16 word)"
        using block_match [of k sp "of_int sp"] "1.prems" k(2,3) by auto
      with z \<open>uint (of_int sp :: 16 word) = sp\<close> "1.prems" show False by simp
    qed
    with IH show ?thesis
      by (subst masks_loop.simps) (simp only: True k(1) Let_def if_True, auto)
  next
    case False
    then show ?thesis by (subst masks_loop.simps) auto
  qed
qed


lemma range_texts_hits:
  assumes "0 < s" "s \<le> e" "e < 65536"
  shows "length (filter (tp_matches f p) (mask_matches f (PortRangeToMasks (of_int s) (of_int e))))
         = (if s \<le> uint p \<and> uint p \<le> e then 1 else 0)"
proof -
  have u: "uint (of_int s :: 16 word) = s" "uint (of_int e :: 16 word) = e"
    using assms by (simp_all add: uint_of_int16)
  have "0 \<notin> snd ` set (PortRangeToMasks (of_int s) (of_int e))"
    using masks_loop_nonzero [of s "e + 1"] assms u by (simp add: PortRangeToMasks_def)
  then have "length (filter (tp_matches f p) (mask_matches f (PortRangeToMasks (of_int s) (of_int e))))
      = mask_hits p (PortRangeToMasks (of_int s) (of_int e))" by (rule mask_matches_hits)
  also have "\<dots> = (if s \<le> uint p \<and> uint p \<le> e then 1 else 0)"
    using PortRangeToMasks_hits [of "of_int s" "of_int e" p] assms u by (simp add: word_le_def)
  finally show ?thesis .
qed

text \<open>The matches emitted for a TCP or UDP rule with a port range consist of a common part
  that ends with the protocol, followed by port matches; read the way the switch reads them, a
  port of the range satisfies exactly one of them and a port outside satisfies none.\<close>

theorem OvsMatches_port_range:
  assumes "rDirection r \<in> {''in'', ''out''}" "rProtocol r \<in> {''tcp'', ''udp''}" "rPorts r = []"
    and "0 < rPortStart r" "rPortStart r \<le> rPortEnd r" "rPortEnd r < 65536"
  shows "\<exists>nw tps. OvsMatches r = map (\<lambda>t. nw @ rProtocol r @ '','' @ t) tps \<and>
           (\<forall>p. length (filter (tp_matches ''tp_dst='' p) tps)
                = (if rPortStart r \<le> uint p \<and> uint p \<le> rPortEnd r then 1 else 0))"
proof -
  let ?tps = "mask_matches ''tp_dst='' (PortRangeToMasks (of_int (rPortStart r)) (of_int (rPortEnd r)))"
  have hits: "length (filter (tp_matches ''tp_dst='' p) ?tps)
      = (if rPortStart r \<le> uint p \<and> uint p \<le> rPortEnd r then 1 else 0)" for p
    using assms by (intro range_texts_hits) auto
  have "?tps \<noteq> []"
    using hits [of "of_int (rPortStart r)"] assms(4-6) by (auto simp: uint_of_int16)
  moreover have "rProtocol r \<noteq> ''any''" "rProtocol r \<noteq> ''''" using assms(2) by auto
  ultimately have "\<exists>nw. OvsMatches r = map (\<lambda>t. nw @ rProtocol r @ '','' @ t) ?tps"
    using assms(1-5) by (cases "rIPNet r") (auto simp: OvsMatches_def Let_def)
  with hits show ?thesis by blast
qed

theorem OvsMatches_port_range_witness:
  "\<exists>nw tps. OvsMatches \<lparr>rAction = ''allow'', rDirection = ''in'', rProtocol = ''tcp'', rIPNet = None,
               rPortStart = 22, rPortEnd = 3389, rPorts = []\<rparr> = map (\<lambda>t. nw @ ''tcp,'' @ t) tps \<and>
     (\<forall>p. length (filter (tp_matches ''tp_dst='' p) tps) = (if 22 \<le> uint p \<and> uint p \<le> 3389 then 1 else 0))"
  using OvsMatches_port_range
    [of "\<lparr>rAction = ''allow'', rDirection = ''in'', rProtocol = ''tcp'', rIPNet = None,
          rPortStart = 22, rPortEnd = 3389, rPorts = []\<rparr>"]
  by simp

section \<open>Parsing a list of rules\<close>

fun res_map :: "('a \<Rightarrow> 'b result) \<Rightarrow> 'a list \<Rightarrow> 'b list result" where
  "res_map f [] = Inr []"
| "res_map f (x # xs) = res_bind (f x) (\<lambda>y. res_bind (res_map f xs) (\<lambda>ys. Inr (y # ys)))"

text \<open>A list of rules closed by a default: the default is appended unless the last rule is wild.\<close>

definition closed_by :: "(sec_rule \<Rightarrow> bool) \<Rightarrow> sec_rule \<Rightarrow> sec_rule list \<Rightarrow> sec_rule list" where
  "closed_by wild d rs = (if rs \<noteq> [] \<and> wild (last rs) then rs else rs @ [d])"

lemma TrimSpace_idem [simp]: "TrimSpace (TrimSpace s) = TrimSpace s"
proof -
  define u where "u = dropWhile is_space s"
  define v where "v = rev (dropWhile is_space (rev u))"
  have "u = v @ rev (takeWhile is_space (rev u))"
    unfolding v_def by (metis rev_append rev_rev_ident takeWhile_dropWhile_id)
  then have "v \<noteq> [] \<Longrightarrow> hd v = hd u \<and> u \<noteq> []" by (metis hd_append append_is_Nil_conv)
  moreover have "u \<noteq> [] \<Longrightarrow> \<not> is_space (hd u)"
    unfolding u_def by (rule hd_dropWhile)
  ultimately have "dropWhile is_space v = v" by (metis dropWhile_eq_self_iff)
  then show ?thesis by (simp add: TrimSpace_def u_def [symmetric] v_def [symmetric])
      (simp add: v_def)
qed

text \<open>A rule is kept in the list of its direction, in the order of the text.\<close>

lemma secrules_loop_spec:
  "secrules_loop parse ins outs ss =
     res_bind (res_map parse (filter (\<lambda>t. t \<noteq> []) (map TrimSpace ss))) (\<lambda>rs.
       Inr (ins @ filter (\<lambda>r. rDirection r = ''in'') rs, outs @ filter (\<lambda>r. rDirection r = ''out'') rs))"
proof (induction ss arbitrary: ins outs)
  case (Cons s ss)
  show ?case
  proof (cases "TrimSpace s = []")
    case False
    show ?thesis
    proof (cases "parse (TrimSpace s)")
      case (Inr r)
      then show ?thesis using False Cons.IH
        by (cases "res_map parse (filter (\<lambda>t. t \<noteq> []) (map TrimSpace ss))")
           (auto simp: NewSecurityRule_def Let_def)
    qed (use False in \<open>simp add: NewSecurityRule_def Let_def\<close>)
  qed (use Cons.IH in simp)
qed simp

lemma with_default_closed:
  "parse dflt = Inr d \<Longrightarrow> TrimSpace dflt = dflt \<Longrightarrow>
   with_default parse wild dflt rs = Inr (closed_by wild d rs)"
  by (simp add: with_default_def closed_by_def NewSecurityRule_def)

lemma TrimSpace_defaults:
  "TrimSpace ''in:deny any'' = ''in:deny any''" "TrimSpace ''out:allow any'' = ''out:allow any''"
  by code_simp+

text \<open>A text of security rules is accepted exactly when every non-blank part between
  semicolons parses, the first parse error is the result otherwise; the rules of each direction
  are kept in the order of the text, and each list is closed by its default rule (deny for
  incoming, allow for outgoing packets) unless its last rule already matches everything.\<close>

theorem NewSecurityRules_spec:
  assumes "parse ''in:deny any'' = Inr din" "parse ''out:allow any'' = Inr dout"
  shows "NewSecurityRules parse wild s =
     res_bind (res_map parse (filter (\<lambda>t. t \<noteq> []) (map TrimSpace (split_on CHR '';'' s)))) (\<lambda>rs.
       Inr \<lparr>inRules = closed_by wild din (filter (\<lambda>r. rDirection r = ''in'') rs),
            outRules = closed_by wild dout (filter (\<lambda>r. rDirection r = ''out'') rs)\<rparr>)"
  using assms with_default_closed TrimSpace_defaults
  by (cases "res_map parse (filter (\<lambda>t. t \<noteq> []) (map TrimSpace (split_on CHR '';'' s)))")
     (simp_all add: NewSecurityRules_def secrules_loop_spec)

text \<open>A parser of the three rules below, for the evaluation of examples.\<close>

definition demo_rule :: "string \<Rightarrow> string \<Rightarrow> string \<Rightarrow> int \<Rightarrow> sec_rule" where
  "demo_rule dir act proto port = \<lparr>rAction = act, rDirection = dir, rProtocol = proto, rIPNet = None,
     rPortStart = port, rPortEnd = port, rPorts = []\<rparr>"

definition demo_parse :: "string \<Rightarrow> sec_rule result" where
  "demo_parse s =
     (if s = ''in:deny any'' then Inr (demo_rule ''in'' ''deny'' ''any'' 0)
      else if s = ''out:allow any'' then Inr (demo_rule ''out'' ''allow'' ''any'' 0)
      else if s = ''in:allow tcp 22'' then Inr (demo_rule ''in'' ''allow'' ''tcp'' 22)
      else Inl (Err ''ParseSecurityRule''))"

definition demo_wild :: "sec_rule \<Rightarrow> bool" where
  "demo_wild r \<longleftrightarrow> rProtocol r = ''any'' \<and> rIPNet r = None"

theorem NewSecurityRules_spec_witness:
  "NewSecurityRules demo_parse demo_wild ''in:allow tcp 22; ''
   = Inr \<lparr>inRules = [demo_rule ''in'' ''allow'' ''tcp'' 22, demo_rule ''in'' ''deny'' ''any'' 0],
          outRules = [demo_rule ''out'' ''allow'' ''any'' 0]\<rparr>"
proof -
  have p: "demo_parse ''in:deny any'' = Inr (demo_rule ''in'' ''deny'' ''any'' 0)"
    "demo_parse ''out:allow any'' = Inr (demo_rule ''out'' ''allow'' ''any'' 0)"
    by (simp_all add: demo_parse_def)
  have q: "demo_parse ''in:allow tcp 22'' = Inr (demo_rule ''in'' ''allow'' ''tcp'' 22)"
    by (simp add: demo_parse_def)
  have "filter (\<lambda>t. t \<noteq> []) (map TrimSpace (split_on CHR '';'' ''in:allow tcp 22; ''))
      = [''in:allow tcp 22'']" by code_simp
  then show ?thesis
    unfolding NewSecurityRules_spec [OF p, of demo_wild "''in:allow tcp 22; ''"]
    by (simp only: res_map.simps q res_bind.simps)
       (simp add: demo_rule_def demo_wild_def closed_by_def)
qed

end
