(* ===== verification/Route.thy ===== *)
theory Route
  imports GoStr
begin

unbundle bit_operations_syntax

text \<open>
  The routing table of the host: \<open>pkg/agent/utils/route.go\<close>.  An IPv4 address is a 32-bit
  word, most significant byte first.  Of the standard library, \<open>net.IPMask.Size\<close>,
  \<open>net.IPNet.Contains\<close>, the printing of addresses and networks and the dotted form of
  \<open>net.ParseIP\<close> are defined here; the IPv6 form of \<open>ParseIP\<close> is a parameter that gives the
  IPv4 address mapped in the text, if there is one.  The content of \<open>/proc/net/route\<close> is a
  parameter of \<open>GetRoutes\<close>.
\<close>

section \<open>Addresses\<close>

type_synonym ip4 = "32 word"

definition ip4_byte :: "ip4 \<Rightarrow> nat \<Rightarrow> int" where
  "ip4_byte a i = uint a div 256 ^ (3 - i) mod 256"

definition ip4_String :: "ip4 \<Rightarrow> string" where
  "ip4_String a = join ''.'' (map (\<lambda>i. show_dec (ip4_byte a i)) [0, 1, 2, 3])"

text \<open>\<open>IPMask.Size\<close>: the number of leading ones of a contiguous mask, 0 for any other mask.\<close>

definition contiguous :: "ip4 \<Rightarrow> nat \<Rightarrow> bool" where
  "contiguous m n \<longleftrightarrow> m = NOT (mask (32 - n))"

definition mask_Size :: "ip4 \<Rightarrow> int" where
  "mask_Size m = (case find (contiguous m) [0..<33] of None \<Rightarrow> 0 | Some n \<Rightarrow> int n)"

record IPNet =
  netIP :: ip4
  netMask :: ip4

definition IPNet_Contains :: "IPNet \<Rightarrow> ip4 option \<Rightarrow> bool" where
  "IPNet_Contains n ip =
     (case ip of None \<Rightarrow> False | Some a \<Rightarrow> netIP n AND netMask n = a AND netMask n)"

definition pad8 :: "string \<Rightarrow> string" where
  "pad8 s = replicate (8 - length s) CHR ''0'' @ s"

definition IPNet_String :: "IPNet \<Rightarrow> string" where
  "IPNet_String n =
     ip4_String (netIP n) @ ''/'' @
     (if \<exists>k\<in>set [0..<33]. contiguous (netMask n) k then show_int (mask_Size (netMask n))
      else pad8 (show_hex (uint (netMask n))))"

text \<open>The dotted form of \<open>ParseIP\<close>: four decimal numbers up to 255 without leading zeros.\<close>

definition parse_octet :: "string \<Rightarrow> int option" where
  "parse_octet s =
     (if length s > 1 \<and> hd s = CHR ''0'' \<or> length s > 3 then None
      else case ParseUint s 10 8 of (n, None) \<Rightarrow> Some n | (n, Some e) \<Rightarrow> None)"

definition parseIPv4 :: "string \<Rightarrow> ip4 option" where
  "parseIPv4 s =
     (case map parse_octet (split_on CHR ''.'' s) of
        [Some a, Some b, Some c, Some d] \<Rightarrow> Some (of_int (((a * 256 + b) * 256 + c) * 256 + d))
      | _ \<Rightarrow> None)"

text \<open>\<open>ParseIP\<close> decides by the first dot or colon of the text.\<close>

definition ParseIP :: "(string \<Rightarrow> ip4 option) \<Rightarrow> string \<Rightarrow> ip4 option" where
  "ParseIP parse6 s =
     (case dropWhile (\<lambda>c. c \<noteq> CHR ''.'' \<and> c \<noteq> CHR '':'') s of
        [] \<Rightarrow> None
      | c # _ \<Rightarrow> if c = CHR ''.'' then parseIPv4 s else parse6 s)"

section \<open>Routes\<close>

record Route =
  rtNet :: IPNet
  rtGateway :: ip4
  rtDev :: string
  rtMetric :: int

definition Route_String :: "Route \<Rightarrow> string" where
  "Route_String r =
     IPNet_String (rtNet r)
     @ (if rtGateway r \<noteq> 0 then '' via '' @ ip4_String (rtGateway r) else '''')
     @ (if rtDev r \<noteq> '''' then '' dev '' @ rtDev r else '''')
     @ (if rtMetric r > 0 then '' metric '' @ show_int (rtMetric r) else '''')"

definition Routes_String :: "Route list \<Rightarrow> string" where
  "Routes_String rs = join [CHR 10] (map Route_String rs)"

definition toIP :: "int \<Rightarrow> ip4" where
  "toIP i = of_int ((i mod 256) * 2 ^ 24 + (i div 2 ^ 8 mod 256) * 2 ^ 16
                    + (i div 2 ^ 16 mod 256) * 2 ^ 8 + i div 2 ^ 24 mod 256)"

definition parseRouteLine :: "string \<Rightarrow> Route option" where
  "parseRouteLine line =
     (let elms = split_on (CHR 9) line
      in if length elms < 8 then None
         else case (ParseUint (elms ! 1) 16 32, ParseUint (elms ! 2) 16 32,
                    ParseUint (elms ! 7) 16 32, ParseUint (elms ! 6) 10 32) of
           ((ipint, None), (gwint, None), (m, None), (metric, None)) \<Rightarrow>
             Some \<lparr>rtNet = \<lparr>netIP = toIP ipint, netMask = toIP m\<rparr>, rtGateway = toIP gwint,
                   rtDev = elms ! 0, rtMetric = metric\<rparr>
         | _ \<Rightarrow> None)"

definition parseRoutes :: "string \<Rightarrow> Route list" where
  "parseRoutes s = List.map_filter parseRouteLine (tl (split_on (CHR 10) s))"

text \<open>The loop of \<open>Lookup\<close> carries the index, prefix length and metric of the best route.\<close>

fun lookup_loop :: "ip4 option \<Rightarrow> int \<times> int \<times> int \<Rightarrow> int \<Rightarrow> Route list \<Rightarrow> int \<times> int \<times> int" where
  "lookup_loop ip (ri, pl, metric) i [] = (ri, pl, metric)"
| "lookup_loop ip (ri, pl, metric) i (r # rs) =
     (let pl1 = mask_Size (netMask (rtNet r))
      in if pl > pl1 then lookup_loop ip (ri, pl, metric) (i + 1) rs
         else if IPNet_Contains (rtNet r) ip then
           (if pl < pl1 then lookup_loop ip (i, pl1, rtMetric r) (i + 1) rs
            else if metric > rtMetric r then lookup_loop ip (i, pl, rtMetric r) (i + 1) rs
            else lookup_loop ip (ri, pl, metric) (i + 1) rs)
         else lookup_loop ip (ri, pl, metric) (i + 1) rs)"

definition Lookup :: "(string \<Rightarrow> ip4 option) \<Rightarrow> Route list \<Rightarrow> string \<Rightarrow> Route result" where
  "Lookup parse6 rs ipstr =
     (let (ri, _, _) = lookup_loop (ParseIP parse6 ipstr) (- 1, - 1, 10000000) 0 rs
      in if ri \<ge> 0 then Inr (rs ! nat ri) else Inl (Err (''no route to '' @ ipstr)))"

definition GetRoutes :: "string result \<Rightarrow> Route list result" where
  "GetRoutes file = res_bind file (\<lambda>d. Inr (parseRoutes d))"

definition RouteLookup :: "string result \<Rightarrow> (string \<Rightarrow> ip4 option) \<Rightarrow> string \<Rightarrow> Route result" where
  "RouteLookup file parse6 ipstr =
     (case GetRoutes file of
        Inl e \<Rightarrow> Inl (Err ''get routes'')
      | Inr routes \<Rightarrow>
          (case Lookup parse6 routes ipstr of
             Inl e \<Rightarrow> Inl (Err (''lookup route '' @ ipstr)) | Inr rt \<Rightarrow> Inr rt))"

section \<open>Longest prefix match\<close>

text \<open>The route chosen so far is the best of the routes seen so far.\<close>

definition best_at :: "ip4 option \<Rightarrow> Route list \<Rightarrow> nat \<Rightarrow> bool" where
  "best_at ip rs i \<longleftrightarrow> i < length rs \<and> IPNet_Contains (rtNet (rs ! i)) ip \<and>
     (\<forall>j < length rs. IPNet_Contains (rtNet (rs ! j)) ip \<longrightarrow>
        (mask_Size (netMask (rtNet (rs ! j))), - rtMetric (rs ! j), - int j)
        \<le> (mask_Size (netMask (rtNet (rs ! i))), - rtMetric (rs ! i), - int i))"

definition lookup_inv :: "ip4 option \<Rightarrow> Route list \<Rightarrow> int \<times> int \<times> int \<Rightarrow> bool" where
  "lookup_inv ip rs st =
     (case st of (ri, pl, metric) \<Rightarrow>
        (ri = - 1 \<and> pl = - 1 \<and> (\<forall>r\<in>set rs. \<not> IPNet_Contains (rtNet r) ip))
        \<or> (\<exists>i. ri = int i \<and> best_at ip rs i \<and> pl = mask_Size (netMask (rtNet (rs ! i)))
               \<and> metric = rtMetric (rs ! i)))"

lemma mask_Size_nonneg [simp]: "0 \<le> mask_Size m"
  by (simp add: mask_Size_def split: option.split)

lemma best_at_snoc_keep:
  assumes "best_at ip rs i"
    and "IPNet_Contains (rtNet r) ip \<Longrightarrow>
         (mask_Size (netMask (rtNet r)), - rtMetric r) \<le> (mask_Size (netMask (rtNet (rs ! i))), - rtMetric (rs ! i))"
  shows "best_at ip (rs @ [r]) i"
  using assms by (auto simp: best_at_def nth_append less_Suc_eq)

lemma best_at_snoc_new:
  assumes "IPNet_Contains (rtNet r) ip"
    and "\<And>j. j < length rs \<Longrightarrow> IPNet_Contains (rtNet (rs ! j)) ip \<Longrightarrow>
         (mask_Size (netMask (rtNet (rs ! j))), - rtMetric (rs ! j)) < (mask_Size (netMask (rtNet r)), - rtMetric r)"
  shows "best_at ip (rs @ [r]) (length rs)"
  using assms by (auto simp: best_at_def nth_append less_Suc_eq)

lemma lookup_inv_step:
  assumes "lookup_inv ip rs (ri, pl, metric)"
  shows "lookup_loop ip (ri, pl, metric) (int (length rs)) (r # rest)
         = lookup_loop ip (ri, pl, metric) (int (length (rs @ [r]))) rest \<and> lookup_inv ip (rs @ [r]) (ri, pl, metric)
       \<or> lookup_loop ip (ri, pl, metric) (int (length rs)) (r # rest)
         = lookup_loop ip (int (length rs), mask_Size (netMask (rtNet r)), rtMetric r)
             (int (length (rs @ [r]))) rest
         \<and> lookup_inv ip (rs @ [r]) (int (length rs), mask_Size (netMask (rtNet r)), rtMetric r)"
proof -
  let ?pl1 = "mask_Size (netMask (rtNet r))"
  have len: "int (length rs) + 1 = int (length (rs @ [r]))" by simp
  consider (none) "ri = - 1" "pl = - 1" "\<forall>r\<in>set rs. \<not> IPNet_Contains (rtNet r) ip"
    | (some) i where "ri = int i" "best_at ip rs i" "pl = mask_Size (netMask (rtNet (rs ! i)))"
        "metric = rtMetric (rs ! i)"
    using assms by (auto simp: lookup_inv_def)
  then show ?thesis
  proof cases
    case none
    show ?thesis
    proof (cases "IPNet_Contains (rtNet r) ip")
      case True
      then have "best_at ip (rs @ [r]) (length rs)" using none(3) by (intro best_at_snoc_new) auto
      moreover have "\<not> ?pl1 < pl" "pl < ?pl1"
        using none(2) mask_Size_nonneg [of "netMask (rtNet r)"] by linarith+
      ultimately show ?thesis using True by (auto simp: lookup_inv_def Let_def len)
    qed (use none in \<open>auto simp: lookup_inv_def Let_def len\<close>)
  next
    case some
    have keep: "lookup_inv ip (rs @ [r]) (ri, pl, metric)"
      if "IPNet_Contains (rtNet r) ip \<Longrightarrow> (?pl1, - rtMetric r) \<le> (pl, - metric)"
      using best_at_snoc_keep [OF some(2), of r] that some
      by (auto simp: lookup_inv_def best_at_def nth_append)
    have new: "lookup_inv ip (rs @ [r]) (int (length rs), ?pl1, rtMetric r)"
      if "IPNet_Contains (rtNet r) ip" "(pl, - metric) < (?pl1, - rtMetric r)"
      using best_at_snoc_new [OF that(1), of rs] that(2) some
      by (fastforce simp: lookup_inv_def best_at_def)
    show ?thesis using keep new by (auto simp: Let_def len)
  qed
qed

lemma lookup_loop_inv:
  "lookup_inv ip rs (ri, pl, metric) \<Longrightarrow>
   lookup_inv ip (rs @ rest) (lookup_loop ip (ri, pl, metric) (int (length rs)) rest)"
proof (induction rest arbitrary: rs ri pl metric)
  case (Cons r rest)
  from lookup_inv_step [OF Cons.prems, of r rest] show ?case
  proof (elim disjE conjE)
    assume "lookup_inv ip (rs @ [r]) (ri, pl, metric)"
      and "lookup_loop ip (ri, pl, metric) (int (length rs)) (r # rest)
           = lookup_loop ip (ri, pl, metric) (int (length (rs @ [r]))) rest"
    then show ?thesis using Cons.IH [of "rs @ [r]"] by (simp del: lookup_loop.simps)
  next
    assume "lookup_inv ip (rs @ [r]) (int (length rs), mask_Size (netMask (rtNet r)), rtMetric r)"
      and "lookup_loop ip (ri, pl, metric) (int (length rs)) (r # rest)
           = lookup_loop ip (int (length rs), mask_Size (netMask (rtNet r)), rtMetric r)
             (int (length (rs @ [r]))) rest"
    then show ?thesis using Cons.IH [of "rs @ [r]"] by (simp del: lookup_loop.simps)
  qed
qed simp

text \<open>C38: \<open>Lookup\<close> answers with an error exactly when no route contains the address; otherwise
  the route it returns contains the address and is the first, in table order, of the lowest
  metric among those of the longest mask (a non-contiguous mask counting as length 0).\<close>

theorem Lookup_longest_prefix:
  "case Lookup parse6 rs ipstr of
     Inl e \<Rightarrow> e = Err (''no route to '' @ ipstr) \<and>
       (\<nexists>i. i < length rs \<and> IPNet_Contains (rtNet (rs ! i)) (ParseIP parse6 ipstr))
   | Inr r \<Rightarrow> \<exists>i. r = rs ! i \<and> best_at (ParseIP parse6 ipstr) rs i"
proof -
  let ?ip = "ParseIP parse6 ipstr"
  obtain ri pl metric where l: "lookup_loop ?ip (- 1, - 1, 10000000) 0 rs = (ri, pl, metric)"
    by (metis prod_cases3)
  have "lookup_inv ?ip [] (- 1, - 1, 10000000)" by (simp add: lookup_inv_def)
  from lookup_loop_inv [OF this, of rs] l have "lookup_inv ?ip rs (ri, pl, metric)" by simp
  then show ?thesis using l by (auto simp: Lookup_def lookup_inv_def all_set_conv_all_nth)
qed

end
