(* ===== verification/HostConfig.thy ===== *)
theory HostConfig
  imports Route
begin

text \<open>
  The configuration of the host: \<open>pkg/agent/utils/hostconfig.go\<close>, the local address of a bridge
  (\<open>hostlocal.go\<close>) and the addresses under which guests reach the metadata service
  (\<open>cls_md.go\<close>).

  A \<open>net.IP\<close> that is not nil is its canonical text: the code only tests it for nil and prints
  it.  Parameters of the definitions are: \<open>parse6\<close>, the canonical text of an IPv6 address;
  \<open>netif\<close>, the addresses the kernel reports for an interface; \<open>netconf\<close>, the content of the file
  of host-local networks of a bridge; \<open>sha\<close>, the bytes of the SHA-256 digest of a text.
\<close>

section \<open>Addresses as text\<close>

definition ParseIP_String :: "(string \<Rightarrow> string option) \<Rightarrow> string \<Rightarrow> string option" where
  "ParseIP_String parse6 s =
     (case dropWhile (\<lambda>c. c \<noteq> CHR ''.'' \<and> c \<noteq> CHR '':'') s of
        [] \<Rightarrow> None
      | c # _ \<Rightarrow> if c = CHR ''.'' then map_option ip4_String (parseIPv4 s) else parse6 s)"

definition MatchIP4Addr :: "(string \<Rightarrow> string option) \<Rightarrow> string \<Rightarrow> bool" where
  "MatchIP4Addr parse6 s \<longleftrightarrow> ParseIP_String parse6 s \<noteq> None \<and> CHR '':'' \<notin> set s"

definition MatchIP6Addr :: "(string \<Rightarrow> string option) \<Rightarrow> string \<Rightarrow> bool" where
  "MatchIP6Addr parse6 s \<longleftrightarrow> ParseIP_String parse6 s \<noteq> None \<and> CHR '':'' \<in> set s"

section \<open>Host networks\<close>

record NetworkDetails =
  ndId :: string
  ndGuestIpStart :: string
  ndGuestIpMask :: int
  ndGuestGateway :: string
  ndGuestGateway6 :: string

record HostConfigNetwork =
  hcnBridge :: string
  hcnIfname :: string
  hcnIP :: "string option"
  hcnMac :: "string option"
  hcnIPLocal :: "string option"
  hcnIP6 :: "string option"
  hcnIP6Local :: "string option"
  hcnHostLocalNets :: "NetworkDetails list"

record SNetInterface =
  nifExist :: bool
  nifAddr :: string
  nifAddr6 :: string
  nifAddr4LinkLocal :: string
  nifAddr6LinkLocal :: string
  nifHardwareAddr :: "string option"

type_synonym netif_env = "string \<Rightarrow> string \<Rightarrow> string \<Rightarrow> string list \<Rightarrow> SNetInterface"

definition IpAddr :: "HostConfigNetwork \<Rightarrow> string" where
  "IpAddr hcn = (case hcnIP hcn of Some ip \<Rightarrow> ip | None \<Rightarrow> '''')"

definition Ip6Addr :: "HostConfigNetwork \<Rightarrow> string" where
  "Ip6Addr hcn = (case hcnIP6 hcn of Some ip \<Rightarrow> ip | None \<Rightarrow> '''')"

definition HostLocalGatewayIps :: "HostConfigNetwork \<Rightarrow> string list" where
  "HostLocalGatewayIps hcn =
     concat (map (\<lambda>n. (if ndGuestGateway n \<noteq> '''' then [ndGuestGateway n] else [])
                      @ (if ndGuestGateway6 n \<noteq> '''' then [ndGuestGateway6 n] else []))
                 (hcnHostLocalNets hcn))"

text \<open>One of the third and fourth chunks of a network description sets one of the two addresses.\<close>

definition chunk_ip ::
  "(string \<Rightarrow> string option) \<Rightarrow> string \<Rightarrow> string option \<times> string option
   \<Rightarrow> string option \<times> string option" where
  "chunk_ip parse6 c ips =
     (if MatchIP4Addr parse6 c then (ParseIP_String parse6 c, snd ips)
      else if MatchIP6Addr parse6 c then (fst ips, ParseIP_String parse6 c)
      else ips)"

definition NewHostConfigNetwork ::
  "(string \<Rightarrow> string option) \<Rightarrow> string \<Rightarrow> HostConfigNetwork result" where
  "NewHostConfigNetwork parse6 network =
     (let chunks = split_on CHR ''/'' network
      in if length chunks \<ge> 3 then
           let ips = chunk_ip parse6 (chunks ! 2) (None, None);
               (ip, ip6) = (if length chunks \<ge> 4 then chunk_ip parse6 (chunks ! 3) ips else ips)
           in Inr \<lparr>hcnBridge = chunks ! 1, hcnIfname = chunks ! 0, hcnIP = ip, hcnMac = None,
                   hcnIPLocal = None, hcnIP6 = ip6, hcnIP6Local = None, hcnHostLocalNets = []\<rparr>
         else Inl (Err (''invalid host.conf networks config: '' @ network)))"

text \<open>A text that is empty leaves the field as it is; one that does not parse sets it to nil.\<close>

definition refresh_ip ::
  "(string \<Rightarrow> string option) \<Rightarrow> string \<Rightarrow> string option \<Rightarrow> string option" where
  "refresh_ip parse6 s old = (if length s > 0 then ParseIP_String parse6 s else old)"

definition HostConfigNetwork_MAC ::
  "(string \<Rightarrow> string option) \<Rightarrow> netif_env \<Rightarrow> HostConfigNetwork
   \<Rightarrow> HostConfigNetwork \<times> string result" where
  "HostConfigNetwork_MAC parse6 netif hcn =
     (let fin = (\<lambda>h. (h, case hcnMac h of
                           Some m \<Rightarrow> Inr m
                         | None \<Rightarrow> Inl (Err (''cannot find proper ip/mac for '' @ hcnBridge h))))
      in if (hcnIP hcn = None \<and> hcnIPLocal hcn = None) \<or> hcnMac hcn = None then
           let n = netif (hcnBridge hcn) (IpAddr hcn) (Ip6Addr hcn) (HostLocalGatewayIps hcn)
           in if \<not> nifExist n then (hcn, Inl (Err ''net interface not found''))
              else fin (hcn\<lparr>hcnIP6Local := refresh_ip parse6 (nifAddr6LinkLocal n) (hcnIP6Local hcn),
                           hcnIP6 := refresh_ip parse6 (nifAddr6 n) (hcnIP6 hcn),
                           hcnIP := refresh_ip parse6 (nifAddr n) (hcnIP hcn),
                           hcnIPLocal := refresh_ip parse6 (nifAddr4LinkLocal n) (hcnIPLocal hcn),
                           hcnMac := nifHardwareAddr n\<rparr>)
         else fin hcn)"

definition loadHostLocalNetconfs ::
  "(string \<Rightarrow> NetworkDetails list option) \<Rightarrow> HostConfigNetwork \<Rightarrow> HostConfigNetwork" where
  "loadHostLocalNetconfs netconf hcn =
     (if hcnIP hcn = None then hcn
      else case netconf (hcnBridge hcn) of
             None \<Rightarrow> hcn
           | Some ns \<Rightarrow> hcn\<lparr>hcnHostLocalNets := hcnHostLocalNets hcn @ ns\<rparr>)"

section \<open>The host configuration\<close>

record SHostOptions =
  optPort :: int
  optAllowSwitchVMs :: bool
  optAllowRouterVMs :: bool
  optNetworks :: "string list"
  optHostLocalBridgeName :: string
  optListenInterface :: string
  optOvnUnderlayMtu :: int
  optServersPath :: string
  optDisableSecurityGroup :: bool
  optSdnAllowConntrackInvalid :: bool
  optSdnEnableTcMan :: bool
  optDisableLocalVpc :: bool
  optDhcpServerPort :: int
  optDhcp6ServerPort :: int
  optMetadataServerIp6s :: "string list"

record HostConfig =
  hcOptions :: SHostOptions
  hcNetworks :: "HostConfigNetwork list"
  hcMasterNic :: "SNetInterface option"

definition MetadataPort :: "HostConfig \<Rightarrow> int" where
  "MetadataPort hc = optPort (hcOptions hc) + 1000"

definition DEFAULT_HOST_LOCAL_WIRE_NAME :: string where
  "DEFAULT_HOST_LOCAL_WIRE_NAME = ''hostlocal''"

definition load_network ::
  "(string \<Rightarrow> string option) \<Rightarrow> (string \<Rightarrow> NetworkDetails list option) \<Rightarrow> string
   \<Rightarrow> HostConfigNetwork option" where
  "load_network parse6 netconf network =
     (case NewHostConfigNetwork parse6 network of
        Inl e \<Rightarrow> None
      | Inr hcn \<Rightarrow> Some (loadHostLocalNetconfs netconf hcn))"

definition NewHostConfig ::
  "(string \<Rightarrow> string option) \<Rightarrow> (string \<Rightarrow> NetworkDetails list option) \<Rightarrow> SHostOptions
   \<Rightarrow> HostConfig" where
  "NewHostConfig parse6 netconf hostOpts =
     (let opts = (if optAllowSwitchVMs hostOpts \<and> \<not> optAllowRouterVMs hostOpts
                  then hostOpts\<lparr>optAllowRouterVMs := True\<rparr> else hostOpts);
          netDesc = ''/'' @ optHostLocalBridgeName opts @ ''/'' @ DEFAULT_HOST_LOCAL_WIRE_NAME
      in \<lparr>hcOptions = opts,
          hcNetworks = List.map_filter (load_network parse6 netconf) (optNetworks opts @ [netDesc]),
          hcMasterNic = None\<rparr>)"

text \<open>\<open>checkMacReady\<close> asks every network for its MAC address until one fails.\<close>

fun checkMacReady ::
  "(string \<Rightarrow> string option) \<Rightarrow> netif_env \<Rightarrow> HostConfigNetwork list
   \<Rightarrow> HostConfigNetwork list \<times> unit result" where
  "checkMacReady parse6 netif [] = ([], Inr ())"
| "checkMacReady parse6 netif (n # ns) =
     (case HostConfigNetwork_MAC parse6 netif n of
        (n', Inl e) \<Rightarrow> (n' # ns, Inl (Err (''wait addr ready for network '' @ hcnBridge n)))
      | (n', Inr _) \<Rightarrow>
          let (ns', r) = checkMacReady parse6 netif ns in (n' # ns', r))"

text \<open>\<open>WaitMacReady\<close> polls every second for five minutes; the interfaces seen by the successive
  polls are the argument.\<close>

fun WaitMacReady ::
  "(string \<Rightarrow> string option) \<Rightarrow> netif_env list \<Rightarrow> HostConfig \<Rightarrow> HostConfig \<times> unit result" where
  "WaitMacReady parse6 [] hc = (hc, Inl (Err ''wait mac ready timeout''))"
| "WaitMacReady parse6 (netif # later) hc =
     (case checkMacReady parse6 netif (hcNetworks hc) of
        (ns, Inl e) \<Rightarrow> WaitMacReady parse6 later (hc\<lparr>hcNetworks := ns\<rparr>)
      | (ns, Inr _) \<Rightarrow> (hc\<lparr>hcNetworks := ns\<rparr>, Inr ()))"

definition VPC_OVN_ENCAP_COST :: int where "VPC_OVN_ENCAP_COST = 60"

definition GetOverlayMTU :: "HostConfig \<Rightarrow> int" where
  "GetOverlayMTU hc =
     (let mtu = optOvnUnderlayMtu (hcOptions hc);
          mtu = (if mtu < 576 then 576 else mtu)
      in mtu - VPC_OVN_ENCAP_COST)"

definition HostNetworkConfigs :: "HostConfig \<Rightarrow> HostConfigNetwork list" where
  "HostNetworkConfigs hc = hcNetworks hc"

definition HostNetworkConfig :: "HostConfig \<Rightarrow> string \<Rightarrow> HostConfigNetwork option" where
  "HostNetworkConfig hc bridge = find (\<lambda>hcn. hcnBridge hcn = bridge) (hcNetworks hc)"

definition HostConfig_Equals :: "HostConfig \<Rightarrow> HostConfig \<Rightarrow> bool" where
  "HostConfig_Equals hc hc1 \<longleftrightarrow> hcOptions hc = hcOptions hc1"

definition findMasterNic :: "(string \<Rightarrow> SNetInterface) \<Rightarrow> HostConfig \<Rightarrow> SNetInterface option" where
  "findMasterNic newif hc =
     (if optListenInterface (hcOptions hc) \<noteq> '''' then Some (newif (optListenInterface (hcOptions hc)))
      else case find (\<lambda>n. hcnIP n \<noteq> None \<or> hcnIP6 n \<noteq> None) (hcNetworks hc) of
             None \<Rightarrow> None
           | Some n \<Rightarrow> Some (newif (hcnBridge n)))"

definition MasterNic ::
  "(string \<Rightarrow> SNetInterface) \<Rightarrow> HostConfig \<Rightarrow> HostConfig \<times> SNetInterface option" where
  "MasterNic newif hc =
     (case hcMasterNic hc of
        Some n \<Rightarrow> (hc, Some n)
      | None \<Rightarrow> let m = findMasterNic newif hc in (hc\<lparr>hcMasterNic := m\<rparr>, m))"

section \<open>Host-local bridges and metadata addresses\<close>

text \<open>
  A \<open>HostLocal\<close> holds pointers to the configuration and to one of its networks.  The process has
  one configuration (\<open>service.go\<close> creates it once), so the registered object is the index of its
  network in the configuration and the port of its metadata server; \<open>hl_view\<close> follows the
  pointers.
\<close>

record HostLocal =
  hlConfig :: HostConfig
  hlNetwork :: HostConfigNetwork
  hlMetadataPort :: int

record HostLocalRef =
  hlNetIndex :: nat
  hlPort :: int

definition hl_view :: "HostConfig \<Rightarrow> HostLocalRef \<Rightarrow> HostLocal" where
  "hl_view hc r = \<lparr>hlConfig = hc, hlNetwork = hcNetworks hc ! hlNetIndex r, hlMetadataPort = hlPort r\<rparr>"

definition IP4 :: "HostLocal \<Rightarrow> string option" where
  "IP4 h = (case hcnIP (hlNetwork h) of
              Some ip \<Rightarrow> Some ip
            | None \<Rightarrow> hcnIPLocal (hlNetwork h))"

text \<open>The map of the registered bridges.  A bridge that is seen again keeps the registered
  object, whose network takes over the host-local networks of the new one.  A new bridge starts
  its metadata server concurrently: \<open>StartMetadataServer\<close> is a later step.\<close>

definition FetchHostLocal ::
  "HostConfig \<Rightarrow> (string, HostLocalRef) gomap \<Rightarrow> nat
   \<Rightarrow> HostConfig \<times> (string, HostLocalRef) gomap \<times> HostLocalRef" where
  "FetchHostLocal hc hlm i =
     (let hcn = hcNetworks hc ! i
      in case gm_get hlm (hcnBridge hcn) of
           None \<Rightarrow> let hl = \<lparr>hlNetIndex = i, hlPort = 0\<rparr> in (hc, gm_set hlm (hcnBridge hcn) hl, hl)
         | Some nhl \<Rightarrow>
             let j = hlNetIndex nhl
             in (hc\<lparr>hcNetworks := (hcNetworks hc)
                      [j := (hcNetworks hc ! j)\<lparr>hcnHostLocalNets := hcnHostLocalNets hcn\<rparr>]\<rparr>,
                 hlm, nhl))"

definition findHostLocalByBridge ::
  "(string, HostLocalRef) gomap \<Rightarrow> string \<Rightarrow> HostLocalRef option" where
  "findHostLocalByBridge hlm bridge = gm_get hlm bridge"

unbundle bit_operations_syntax

type_synonym digest = "string \<Rightarrow> nat \<Rightarrow> 8 word"

definition show_hex2 :: "8 word \<Rightarrow> string" where
  "show_hex2 b = (let s = show_hex (uint b) in if length s < 2 then CHR ''0'' # s else s)"

definition fakeMdSrcIpMac ::
  "digest \<Rightarrow> string \<Rightarrow> string \<Rightarrow> int \<Rightarrow> string \<times> string \<times> string" where
  "fakeMdSrcIpMac sha ip mac port =
     (let s = sha (ip @ mac);
          a = s 0;
          b = s 1 AND 0xf0;
          s = sha (ip @ mac @ show_int port);
          c = s 0 AND 0x0f;
          d = s 1
      in (''100.'' @ show_dec (uint a) @ ''.'' @ show_dec (uint b) @ ''.0/20'',
          ''100.'' @ show_dec (uint a) @ ''.'' @ show_dec (uint (b + c)) @ ''.'' @ show_dec (uint d),
          ''ee:ee:ee:'' @ show_hex2 a @ '':'' @ show_hex2 b @ '':00''))"

definition mergeByte :: "8 word \<Rightarrow> 8 word \<Rightarrow> 16 word" where
  "mergeByte a b = (push_bit 8 (ucast a)) OR ucast b"

definition fakeMdSrcIp6Mac ::
  "digest \<Rightarrow> string \<Rightarrow> string \<Rightarrow> int \<Rightarrow> string \<Rightarrow> string \<times> string \<times> string" where
  "fakeMdSrcIp6Mac sha ip6 mac port metaSrvIp6 =
     (let s = sha (ip6 @ mac);
          a = s 0;
          b = s 1;
          s = sha (ip6 @ mac @ show_int port @ metaSrvIp6);
          c = s 0;
          d = s 1
      in (''fd00:fec2::'' @ show_hex (uint (mergeByte a b)) @ '':0/112'',
          ''fd00:fec2::'' @ show_hex (uint (mergeByte a b)) @ '':'' @ show_hex (uint (mergeByte c d)),
          ''ee:ee:ee:'' @ show_hex2 a @ '':'' @ show_hex2 b @ '':01''))"

text \<open>The methods of \<open>HostLocal\<close>.  \<open>String\<close> of a nil address is \<open><nil>\<close>.\<close>

definition ip_String :: "string option \<Rightarrow> string" where
  "ip_String ip = (case ip of Some s \<Rightarrow> s | None \<Rightarrow> ''<nil>'')"

definition mac_String :: "string option \<Rightarrow> string" where
  "mac_String m = (case m of Some s \<Rightarrow> s | None \<Rightarrow> '''')"

definition HostLocal_fakeMdSrcIpMac :: "digest \<Rightarrow> HostLocal \<Rightarrow> int \<Rightarrow> string \<times> string \<times> string" where
  "HostLocal_fakeMdSrcIpMac sha h port =
     fakeMdSrcIpMac sha (ip_String (IP4 h)) (mac_String (hcnMac (hlNetwork h))) port"

definition HostLocal_fakeMdSrcIp6Mac ::
  "digest \<Rightarrow> HostLocal \<Rightarrow> int \<Rightarrow> string \<Rightarrow> string \<times> string \<times> string" where
  "HostLocal_fakeMdSrcIp6Mac sha h port metaSrvIp6 =
     fakeMdSrcIp6Mac sha (ip_String (hcnIP6Local (hlNetwork h))) (mac_String (hcnMac (hlNetwork h)))
       port metaSrvIp6"

text \<open>The port of the metadata server: the loop has no exit, so the last free port is taken.  No
  free port ends the program.\<close>

definition find_metadata_port :: "(int \<Rightarrow> bool) \<Rightarrow> int \<Rightarrow> int \<Rightarrow> int" where
  "find_metadata_port used sport p =
     fold (\<lambda>port p. if \<not> used port then port else p) [sport..sport + 63] p"

definition StartMetadataServer ::
  "(int \<Rightarrow> bool) \<Rightarrow> HostConfig \<Rightarrow> HostLocalRef \<Rightarrow> HostLocalRef result" where
  "StartMetadataServer used hc h =
     (let p = find_metadata_port used (MetadataPort hc + 1) (hlPort h)
      in if p = 0 then Inl (Panic ''Failed to find a free metadata port'')
         else Inr (h\<lparr>hlPort := p\<rparr>))"

section \<open>Networks of the configuration\<close>

lemma NewHostConfigNetwork_local:
  assumes "CHR ''/'' \<notin> set br"
  shows "NewHostConfigNetwork parse6 (''/'' @ br @ ''/hostlocal'') =
     Inr \<lparr>hcnBridge = br, hcnIfname = '''', hcnIP = None, hcnMac = None, hcnIPLocal = None,
          hcnIP6 = None, hcnIP6Local = None, hcnHostLocalNets = []\<rparr>"
proof -
  have "split_on CHR ''/'' (''/'' @ br @ ''/hostlocal'') = ['''', br, ''hostlocal'']"
    using assms by (simp add: split_on_append)
  then show ?thesis
    by (simp add: NewHostConfigNetwork_def chunk_ip_def MatchIP4Addr_def MatchIP6Addr_def
        ParseIP_String_def)
qed

text \<open>A new configuration never allows switch VMs without router VMs; its networks are those
  of the well-formed network descriptions, in their order, followed by the host-local bridge;
  the latter has no interface, no address and, since its address is not set when its networks
  are loaded, no host-local network.\<close>

theorem NewHostConfig_spec:
  assumes "CHR ''/'' \<notin> set (optHostLocalBridgeName o1)"
  shows "\<not> (optAllowSwitchVMs (hcOptions (NewHostConfig parse6 netconf o1))
            \<and> \<not> optAllowRouterVMs (hcOptions (NewHostConfig parse6 netconf o1))) \<and>
    hcNetworks (NewHostConfig parse6 netconf o1) =
      List.map_filter (load_network parse6 netconf) (optNetworks o1) @
      [\<lparr>hcnBridge = optHostLocalBridgeName o1, hcnIfname = '''', hcnIP = None, hcnMac = None,
        hcnIPLocal = None, hcnIP6 = None, hcnIP6Local = None, hcnHostLocalNets = []\<rparr>]"
proof -
  have "load_network parse6 netconf (''/'' @ optHostLocalBridgeName o1 @ ''/hostlocal'') =
     Some \<lparr>hcnBridge = optHostLocalBridgeName o1, hcnIfname = '''', hcnIP = None, hcnMac = None,
          hcnIPLocal = None, hcnIP6 = None, hcnIP6Local = None, hcnHostLocalNets = []\<rparr>"
    unfolding load_network_def NewHostConfigNetwork_local [OF assms]
    by (simp add: loadHostLocalNetconfs_def)
  then show ?thesis
    by (simp add: NewHostConfig_def Let_def DEFAULT_HOST_LOCAL_WIRE_NAME_def List.map_filter_def)
qed

text \<open>A configuration for the evaluation of examples.\<close>

definition demo_options :: SHostOptions where
  "demo_options = \<lparr>optPort = 8885, optAllowSwitchVMs = True, optAllowRouterVMs = False,
     optNetworks = [''eth0/br0/10.0.0.1''], optHostLocalBridgeName = ''brlocal'',
     optListenInterface = '''', optOvnUnderlayMtu = 1500, optServersPath = ''/opt/servers'',
     optDisableSecurityGroup = False, optSdnAllowConntrackInvalid = False, optSdnEnableTcMan = True,
     optDisableLocalVpc = True, optDhcpServerPort = 67, optDhcp6ServerPort = 547,
     optMetadataServerIp6s = []\<rparr>"

theorem NewHostConfig_spec_witness:
  "map hcnBridge (hcNetworks (NewHostConfig (\<lambda>_. None) (\<lambda>_. None) demo_options)) = [''br0'', ''brlocal'']"
proof -
  have "CHR ''/'' \<notin> set (optHostLocalBridgeName demo_options)" by (simp add: demo_options_def)
  from NewHostConfig_spec [OF this, of "\<lambda>_. None" "\<lambda>_. None"]
  have "hcNetworks (NewHostConfig (\<lambda>_. None) (\<lambda>_. None) demo_options) =
      List.map_filter (load_network (\<lambda>_. None) (\<lambda>_. None)) (optNetworks demo_options) @
      [\<lparr>hcnBridge = ''brlocal'', hcnIfname = '''', hcnIP = None, hcnMac = None,
        hcnIPLocal = None, hcnIP6 = None, hcnIP6Local = None, hcnHostLocalNets = []\<rparr>]"
    by (simp add: demo_options_def)
  moreover have "map hcnBridge (List.map_filter (load_network (\<lambda>_. None) (\<lambda>_. None))
      (optNetworks demo_options)) = [''br0'']" by code_simp
  ultimately show ?thesis by simp
qed

text \<open>When the agent has waited for its addresses successfully, every network of the
  configuration has a MAC address, and the networks are those of the configuration, bridge by
  bridge.\<close>

theorem WaitMacReady_all_macs:
  assumes "WaitMacReady parse6 envs hc = (hc', Inr ())"
  shows "list_all (\<lambda>n. hcnMac n \<noteq> None) (hcNetworks hc')
    \<and> map hcnBridge (hcNetworks hc') = map hcnBridge (hcNetworks hc)
    \<and> hcOptions hc' = hcOptions hc"
  using assms
proof (induction envs arbitrary: hc)
  case (Cons netif later)
  have mac: "hcnBridge (fst (HostConfigNetwork_MAC parse6 netif n)) = hcnBridge n"
    "hcnMac (fst (HostConfigNetwork_MAC parse6 netif n)) \<noteq> None"
    if "snd (HostConfigNetwork_MAC parse6 netif n) = Inr m" for n m
    using that by (auto simp: HostConfigNetwork_MAC_def Let_def split: option.splits if_splits)
  have br: "hcnBridge (fst (HostConfigNetwork_MAC parse6 netif n)) = hcnBridge n" for n
    by (simp add: HostConfigNetwork_MAC_def Let_def)
  have chk: "map hcnBridge (fst (checkMacReady parse6 netif ns)) = map hcnBridge ns \<and>
      (snd (checkMacReady parse6 netif ns) = Inr () \<longrightarrow>
       list_all (\<lambda>n. hcnMac n \<noteq> None) (fst (checkMacReady parse6 netif ns)))" for ns
  proof (induction ns)
    case (Cons n ns)
    then show ?case using br [of n] mac(2) [of n]
      by (auto simp: case_prod_unfold Let_def split: sum.splits prod.splits)
  qed simp
  show ?case
    using Cons.prems Cons.IH chk [of "hcNetworks hc"]
    by (fastforce split: prod.splits sum.splits)
qed simp

theorem WaitMacReady_all_macs_witness:
  "list_all (\<lambda>n. hcnMac n \<noteq> None) (hcNetworks (fst (WaitMacReady (\<lambda>_. None)
     [\<lambda>_ _ _ _. \<lparr>nifExist = False, nifAddr = '''', nifAddr6 = '''', nifAddr4LinkLocal = '''',
                  nifAddr6LinkLocal = '''', nifHardwareAddr = None\<rparr>,
      \<lambda>_ _ _ _. \<lparr>nifExist = True, nifAddr = '''', nifAddr6 = '''', nifAddr4LinkLocal = '''',
                  nifAddr6LinkLocal = '''', nifHardwareAddr = Some ''00:22:3a:00:00:01''\<rparr>]
     (NewHostConfig (\<lambda>_. None) (\<lambda>_. None) demo_options))))"
proof -
  let ?envs = "[\<lambda>_ _ _ _. \<lparr>nifExist = False, nifAddr = '''', nifAddr6 = '''', nifAddr4LinkLocal = '''',
                  nifAddr6LinkLocal = '''', nifHardwareAddr = None\<rparr>,
      \<lambda>_ _ _ _. \<lparr>nifExist = True, nifAddr = '''', nifAddr6 = '''', nifAddr4LinkLocal = '''',
                  nifAddr6LinkLocal = '''', nifHardwareAddr = Some ''00:22:3a:00:00:01''\<rparr>]"
  let ?r = "WaitMacReady (\<lambda>_. None) ?envs (NewHostConfig (\<lambda>_. None) (\<lambda>_. None) demo_options)"
  have "snd ?r = Inr ()" by code_simp
  then have "?r = (fst ?r, Inr ())" by (metis prod.collapse)
  from WaitMacReady_all_macs [OF this] show ?thesis by blast
qed

section \<open>Addresses of metadata clients\<close>

lemma nibbles: "list_all (\<lambda>x. (x::int) AND 240 = 16 * (x div 16) \<and> x AND 15 = x mod 16) [0..255]"
  by code_simp

lemma uint8_bound: "uint (w::8 word) \<in> set [0..255]"
  using uint_lt2p [of w] by simp

lemma uint_high: "uint ((w::8 word) AND 0xf0) = 16 * (uint w div 16)"
  and uint_low: "uint ((w::8 word) AND 0x0f) = uint w mod 16"
  using nibbles uint8_bound [of w] by (simp_all add: unsigned_and_eq list_all_iff)

text \<open>The third byte of the address: the high nibble of the prefix and a low nibble, no carry.\<close>

lemma uint_join: "uint (((v::8 word) AND 0xf0) + (w AND 0x0f)) = 16 * (uint v div 16) + uint w mod 16"
proof -
  have "uint v < 256" "0 \<le> uint v" using uint_lt2p [of v] by simp_all
  then have "uint v div 16 < 16" "0 \<le> uint v div 16" "uint w mod 16 < 16"
    by (simp_all add: pos_imp_zdiv_nonneg_iff)
  then have "16 * (uint v div 16) + uint w mod 16 < 256" by linarith
  then show ?thesis
    by (subst uint_plus_if') (simp add: uint_high uint_low)
qed

lemma two_le_ten: "(2::int) \<le> 10"
  by simp

lemma hd_show_dec:
  assumes "0 \<le> n"
  shows "1 \<le> n \<longrightarrow> hd (show_dec n) \<noteq> CHR ''0''"
  using two_le_ten assms
proof (induction n rule: digits_induct [where b = 10])
  case (small n)
  have "hd (show_dec n) \<noteq> CHR ''0''" if "1 \<le> n"
  proof
    assume "hd (show_dec n) = CHR ''0''"
    then have "Some n = digit_val CHR ''0''"
      using small digit_val_char [of n] by (simp add: show_base.simps [of 10 n])
    with that show False by (simp add: digit_val_def)
  qed
  then show ?case by simp
next
  case (large n)
  then show ?case by (simp add: show_base.simps [of 10 n])
qed

lemma length_show_dec:
  assumes "0 \<le> n" "n < 256"
  shows "length (show_dec n) \<le> 3" "length (show_dec n) > 1 \<Longrightarrow> 1 \<le> n"
proof -
  have "n div 10 div 10 < 10" using assms by simp
  then show "length (show_dec n) \<le> 3"
    by (simp add: show_base.simps [of 10 n] show_base.simps [of 10 "n div 10"]
        show_base.simps [of 10 "n div 10 div 10"] del: div_mult2_eq)
  show "length (show_dec n) > 1 \<Longrightarrow> 1 \<le> n"
    using assms(1) by (rule_tac ccontr) (simp add: show_base.simps [of 10 n])
qed

lemma parse_octet_show: "parse_octet (show_dec (uint (w::8 word))) = Some (uint w)"
proof -
  have b: "0 \<le> uint w" "uint w < 256" using uint_lt2p [of w] by simp_all
  have "ParseUint (show_dec (uint w)) 10 8 = (uint w, None)" using b by (intro ParseUint_show) auto
  with length_show_dec [OF b] hd_show_dec [OF b(1)] show ?thesis
    by (auto simp: parse_octet_def)
qed

lemma no_dot: "0 \<le> n \<Longrightarrow> CHR ''.'' \<notin> set (show_dec n)"
  by (rule show_base_no_char) (auto simp: digit_val_def)

lemma parse_octet_100: "parse_octet ''100'' = Some 100"
  by code_simp

lemma parseIPv4_dotted:
  fixes a b d :: "8 word"
  shows "parseIPv4 (''100.'' @ show_dec (uint a) @ ''.'' @ show_dec (uint b) @ ''.'' @ show_dec (uint d))
     = Some (of_int (((100 * 256 + uint a) * 256 + uint b) * 256 + uint d))"
proof -
  have "split_on CHR ''.'' (''100.'' @ show_dec (uint a) @ ''.'' @ show_dec (uint b) @ ''.'' @ show_dec (uint d))
      = [''100'', show_dec (uint a), show_dec (uint b), show_dec (uint d)]"
    using split_on_append [of "CHR ''.''" "''100''"] by (simp add: split_on_append no_dot)
  then show ?thesis
    unfolding parseIPv4_def by (simp only: list.map parse_octet_show parse_octet_100) simp
qed

text \<open>Two addresses are in the same /20 when the numbers agree without their twelve low bits.\<close>

lemma same_prefix20:
  fixes x y :: int
  assumes "x div 4096 = y div 4096"
  shows "(of_int x :: ip4) AND NOT (mask 12) = of_int y AND NOT (mask 12)"
proof -
  have "drop_bit 12 x = drop_bit 12 y" using assms by (simp add: drop_bit_eq_div)
  then have "bit x (12 + n) = bit y (12 + n)" for n by (metis bit_drop_bit_eq comp_apply)
  then have "12 \<le> n \<Longrightarrow> bit x n = bit y n" for n by (metis le_add_diff_inverse)
  then show ?thesis by (auto intro!: bit_word_eqI simp: bit_simps)
qed

text \<open>The address under which a guest port reaches the metadata service lies in the /20 prefix
  that the bridge routes to itself, and neither that prefix nor the MAC address depend on the
  port.\<close>

theorem fakeMdSrcIp_in_prefix:
  "case (fakeMdSrcIpMac sha ip mac port, fakeMdSrcIpMac sha ip mac port') of
     ((prefix, addr, m), (prefix', addr', m')) \<Rightarrow>
       prefix = prefix' \<and> m = m' \<and>
       (\<exists>net n a. prefix = net @ ''/20'' \<and> parseIPv4 net = Some n \<and> parseIPv4 addr = Some a
          \<and> IPNet_Contains \<lparr>netIP = n, netMask = NOT (mask 12)\<rparr> (Some a))"
proof -
  define a b c d where "a = sha (ip @ mac) 0" and "b = sha (ip @ mac) 1"
    and "c = sha (ip @ mac @ show_int port) 0" and "d = sha (ip @ mac @ show_int port) 1"
  note abcd = a_def b_def c_def d_def
  let ?net = "''100.'' @ show_dec (uint a) @ ''.'' @ show_dec (uint (b AND 0xf0)) @ ''.'' @ show_dec (uint (0::8 word))"
  let ?addr = "''100.'' @ show_dec (uint a) @ ''.'' @ show_dec (uint ((b AND 0xf0) + (c AND 0x0f))) @ ''.'' @ show_dec (uint d)"
  have "show_dec 0 = ''0''" by code_simp
  then have prefix: "fst (fakeMdSrcIpMac sha ip mac port) = ?net @ ''/20''"
    and addr: "fst (snd (fakeMdSrcIpMac sha ip mac port)) = ?addr"
    by (simp_all add: fakeMdSrcIpMac_def Let_def abcd)
  let ?x = "((100 * 256 + uint a) * 256 + 16 * (uint b div 16)) * 256 + 0"
  let ?y = "((100 * 256 + uint a) * 256 + (16 * (uint b div 16) + uint c mod 16)) * 256 + uint d"
  have bnd: "0 \<le> uint a" "uint a < 256" "0 \<le> uint b div 16" "uint b div 16 < 16"
    "0 \<le> uint c mod 16" "uint c mod 16 < 16" "0 \<le> uint d" "uint d < 256"
    using uint_lt2p [of a] uint_lt2p [of b] uint_lt2p [of d] by (simp_all add: pos_imp_zdiv_nonneg_iff)
  have "parseIPv4 ?net = Some (of_int ?x)" "parseIPv4 ?addr = Some (of_int ?y)"
    unfolding parseIPv4_dotted by (simp_all only: uint_high uint_join unsigned_0)
  moreover have "(of_int ?x :: ip4) AND NOT (mask 12) = of_int ?y AND NOT (mask 12)"
  proof (rule same_prefix20)
    define k where "k = (100 * 256 + uint a) * 16 + uint b div 16"
    have "?y = 4096 * k + (uint c mod 16 * 256 + uint d)" "?x = 4096 * k + 0"
      by (simp_all add: k_def algebra_simps)
    moreover have "uint c mod 16 * 256 + uint d < 4096" "0 \<le> uint c mod 16 * 256 + uint d"
      using bnd by linarith+
    ultimately have "?y div 4096 = k" "?x div 4096 = k"
      by (metis int_div_pos_eq, metis int_div_pos_eq zero_less_numeral order_refl)
    then show "?x div 4096 = ?y div 4096" by simp
  qed
  ultimately have "\<exists>net n aa. fst (fakeMdSrcIpMac sha ip mac port) = net @ ''/20'' \<and> parseIPv4 net = Some n
      \<and> parseIPv4 (fst (snd (fakeMdSrcIpMac sha ip mac port))) = Some aa
      \<and> IPNet_Contains \<lparr>netIP = n, netMask = NOT (mask 12)\<rparr> (Some aa)"
    unfolding prefix addr IPNet_Contains_def by auto
  then show ?thesis by (auto simp: fakeMdSrcIpMac_def Let_def)
qed

text \<open>The addresses of one bridge: at most \<open>16 * 256\<close>.\<close>

lemma fake_addrs_card:
  "card ((\<lambda>port. fst (snd (fakeMdSrcIpMac sha ip mac port))) ` P) \<le> 4096"
proof -
  let ?f = "\<lambda>(c, d). ''100.'' @ show_dec (uint (sha (ip @ mac) 0)) @ ''.''
     @ show_dec (16 * (uint (sha (ip @ mac) 1) div 16) + c) @ ''.'' @ show_dec d"
  have "(\<lambda>port. fst (snd (fakeMdSrcIpMac sha ip mac port))) ` P \<subseteq> ?f ` ({0..<16} \<times> {0..<256})"
  proof (intro image_subsetI)
    fix port assume "port \<in> P"
    let ?s = "sha (ip @ mac @ show_int port)"
    have "uint (?s 1) < 256" using uint_lt2p [of "?s 1"] by simp
    then show "fst (snd (fakeMdSrcIpMac sha ip mac port)) \<in> ?f ` ({0..<16} \<times> {0..<256})"
      by (intro image_eqI [of _ _ "(uint (?s 0) mod 16, uint (?s 1))"])
         (auto simp: fakeMdSrcIpMac_def Let_def uint_join)
  qed
  then have "card ((\<lambda>port. fst (snd (fakeMdSrcIpMac sha ip mac port))) ` P)
      \<le> card (?f ` ({0..<16} \<times> {0..<256::int}))" by (intro card_mono) auto
  also have "\<dots> \<le> card ({0..<16::int} \<times> {0..<256::int})" by (intro card_image_le) simp
  finally show ?thesis by simp
qed

text \<open>A bridge has at most 4096 metadata client addresses: whatever the digest, among more
  than 4096 ports two share the same address, and their requests cannot be told apart.\<close>

theorem fakeMdSrcIp_collision:
  assumes "4096 < card P"
  shows "\<exists>p\<in>P. \<exists>q\<in>P. p \<noteq> q \<and>
    fst (snd (fakeMdSrcIpMac sha ip mac p)) = fst (snd (fakeMdSrcIpMac sha ip mac q))"
proof -
  have "\<not> inj_on (\<lambda>port. fst (snd (fakeMdSrcIpMac sha ip mac port))) P"
    using assms fake_addrs_card [of sha ip mac P] card_image by fastforce
  then show ?thesis by (auto simp: inj_on_def)
qed

theorem fakeMdSrcIp_collision_witness:
  "\<exists>p\<in>{1..4097}. \<exists>q\<in>{1..4097}. p \<noteq> q \<and>
    fst (snd (fakeMdSrcIpMac (\<lambda>s i. of_nat (length s)) ''10.0.0.1'' ''00:22:3a:00:00:01'' p))
    = fst (snd (fakeMdSrcIpMac (\<lambda>s i. of_nat (length s)) ''10.0.0.1'' ''00:22:3a:00:00:01'' q))"
  by (rule fakeMdSrcIp_collision) simp

section \<open>The file of host-local networks\<close>

text \<open>\<open>loadHostLocalNetconfs\<close> of a configuration: every error is reported as not found.  The \<open>netconf\<close> argument of
  the method of the networks is this function with its errors dropped, as the method does.\<close>

definition load_netconfs ::
  "(string \<Rightarrow> string result) \<Rightarrow> (string \<Rightarrow> 'j result) \<Rightarrow> ('j \<Rightarrow> NetworkDetails list result) \<Rightarrow> (string \<Rightarrow> string)
    \<Rightarrow> string \<Rightarrow> NetworkDetails list result" where
  "load_netconfs readFile parse unmarshal netconfPath br =
     (let fn = netconfPath br;
          fail = (\<lambda>what e. Inl (Err (''fail to '' @ what @ '' host local netconfs '' @ fn)))
      in case readFile fn of
           Inl e \<Rightarrow> fail ''load'' e
         | Inr confStr \<Rightarrow>
             (case parse confStr of
                Inl e \<Rightarrow> fail ''parse'' e
              | Inr confJson \<Rightarrow>
                  (case unmarshal confJson of Inl e \<Rightarrow> fail ''unmarshal'' e | Inr nets \<Rightarrow> Inr nets)))"

definition netconf_of ::
  "(string \<Rightarrow> string result) \<Rightarrow> (string \<Rightarrow> 'j result) \<Rightarrow> ('j \<Rightarrow> NetworkDetails list result) \<Rightarrow> (string \<Rightarrow> string)
    \<Rightarrow> string \<Rightarrow> NetworkDetails list option" where
  "netconf_of readFile parse unmarshal netconfPath br =
     (case load_netconfs readFile parse unmarshal netconfPath br of Inl _ \<Rightarrow> None | Inr nets \<Rightarrow> Some nets)"

lemma load_netconfs_Inr:
  "load_netconfs readFile parse unmarshal netconfPath br = Inr nets \<longleftrightarrow>
     (\<exists>txt j. readFile (netconfPath br) = Inr txt \<and> parse txt = Inr j \<and> unmarshal j = Inr nets)"
  by (auto simp: load_netconfs_def Let_def split: sum.splits)

section \<open>Watching the configuration\<close>

text \<open>The loop of \<open>WatchChange\<close> over its events: a tick with the configuration that is read then, or the end of
  the context.  The result is whether the callback was called; the loop ends with it.\<close>

datatype watch_tick = Tick "HostConfig result" | WatchDone

fun WatchChange :: "HostConfig \<Rightarrow> watch_tick list \<Rightarrow> bool" where
  "WatchChange hc [] = False"
| "WatchChange hc (WatchDone # evs) = False"
| "WatchChange hc (Tick (Inl e) # evs) = True"
| "WatchChange hc (Tick (Inr hc1) # evs) = (if \<not> HostConfig_Equals hc hc1 then True else WatchChange hc evs)"

fun tick_same :: "HostConfig \<Rightarrow> watch_tick \<Rightarrow> bool" where
  "tick_same hc (Tick (Inr hc1)) = HostConfig_Equals hc hc1"
| "tick_same hc _ = False"

lemma WatchChange_iff:
  "WatchChange hc evs \<longleftrightarrow> (\<exists>r rest. dropWhile (tick_same hc) evs = Tick r # rest)"
  by (induction hc evs rule: WatchChange.induct) auto

text \<open>Reading the same options again never calls it, whatever the interfaces and files of networks are by
  then.\<close>

lemma WatchChange_quiet:
  assumes "\<forall>ev \<in> set evs. \<exists>parse6 netconf. ev = Tick (Inr (NewHostConfig parse6 netconf opts))"
  shows "\<not> WatchChange (NewHostConfig parse6 netconf opts) evs"
proof -
  have "\<forall>ev \<in> set evs. tick_same (NewHostConfig parse6 netconf opts) ev"
    using assms by (fastforce simp: HostConfig_Equals_def NewHostConfig_def Let_def)
  then have d: "dropWhile (tick_same (NewHostConfig parse6 netconf opts)) evs = []" by simp
  show ?thesis unfolding WatchChange_iff d by simp
qed

section \<open>The login\<close>

record auth_opts =
  aoInfo :: "string list"
  aoSessionEndpointType :: string
  aoEnableSsl :: bool
  aoSslCertfile :: string
  aoSslKeyfile :: string

text \<open>\<open>aoInfo\<close> are the URL, domain, user, password, project and project domain.  The result is the calls of the
  keystone client.\<close>

datatype auth_call = SetEndpointType string | AuthInit "string list" bool bool string string

definition Auth :: "auth_opts \<Rightarrow> auth_call list \<times> unit result" where
  "Auth o' =
     (let t = aoSessionEndpointType o';
          ssl = (\<lambda>f. if aoEnableSsl o' then f else '''');
          init = AuthInit (aoInfo o') False True (ssl (aoSslCertfile o')) (ssl (aoSslKeyfile o'))
      in if t \<noteq> '''' then
           if t \<noteq> ''public'' \<and> t \<noteq> ''internal''
           then ([], Inl (Err (''Invalid session endpoint type '' @ [CHR 0x22] @ t @ [CHR 0x22])))
           else ([SetEndpointType t, init], Inr ())
         else ([init], Inr ()))"

lemma Auth_endpoint: "is_ok (snd (Auth o')) \<longleftrightarrow> aoSessionEndpointType o' \<in> {'''', ''public'', ''internal''}"
  by (auto simp: Auth_def Let_def)

end
