(* ===== verification/Guest.thy ===== *)
theory Guest
  imports HostConfig SecurityRules
begin

text \<open>
  Guests and their network cards: \<open>pkg/agent/utils/guest.go\<close>.  The decoded description file of a
  guest, the files of its directory and the parser of security rules are parameters.
\<close>

section \<open>Network cards\<close>

record GuestPortMapping =
  pmProtocol :: string
  pmPort :: int
  pmHostPort :: "int option"
  pmRemoteIps :: "string list"

record GuestNICNetworkAddress =
  naType :: string
  naIpAddr :: string

record GuestNIC =
  nicBridge :: string
  nicBw :: int
  nicTxBwLimit :: int
  nicRxBwLimit :: int
  nicGateway :: string
  nicIfnameHost :: string
  nicIP :: string
  nicVirtualIps :: "string list"
  nicMAC :: string
  nicMasklen :: int
  nicNetId :: string
  nicVLAN :: int
  nicWireId :: string
  nicVpcId :: string
  nicVpcProvider :: string
  nicVpcMappedIpAddr :: string
  nicVpcMappedIp6Addr :: string
  nicIP6 :: string
  nicMasklen6 :: int
  nicCtZoneId :: "16 word"
  nicCtZoneIdSet :: bool
  nicPortNo :: int
  nicSecurityRules :: "SecurityRules option"
  nicNetworkAddresses :: "GuestNICNetworkAddress list"
  nicPortMappings :: "GuestPortMapping list"

definition EnableIPv4 :: "GuestNIC \<Rightarrow> bool" where
  "EnableIPv4 nic \<longleftrightarrow> length (nicIP nic) > 0"

definition EnableIPv6 :: "GuestNIC \<Rightarrow> bool" where
  "EnableIPv6 nic \<longleftrightarrow> length (nicIP6 nic) > 0"

definition DEFAULT_HOST_LOCAL_WIRE_ID :: string where
  "DEFAULT_HOST_LOCAL_WIRE_ID = ''__host_local__''"

definition IsOnHostLocalBridge :: "GuestNIC \<Rightarrow> bool" where
  "IsOnHostLocalBridge nic \<longleftrightarrow> nicWireId nic = DEFAULT_HOST_LOCAL_WIRE_ID"

definition SubIPs :: "GuestNIC \<Rightarrow> string list" where
  "SubIPs n =
     map naIpAddr (filter (\<lambda>na. naType na = ''sub_ip'') (nicNetworkAddresses n)) @ nicVirtualIps n"

text \<open>
  The data of a template: texts, numbers and the list of further addresses.  The library
  functions on addresses are the fields of \<open>addr_lib\<close>: the link-local address of a MAC address,
  the solicited-node multicast addresses of an IPv6 address and the hexadecimal digits of the
  bytes of an address, which are not defined for a text that is no address (the code then
  indexes a nil slice), and of a MAC address (no digit for a text that is none), and the number
  of an IPv4 address.
\<close>

datatype tval = TStr string | TInt int | TStrs "string list"

type_synonym tdata = "(string, tval) gomap"

record addr_lib =
  alMac2LinkLocal :: "string \<Rightarrow> string"
  alSolicitMcastIP :: "string \<Rightarrow> string option"
  alSolicitMcastMac :: "string \<Rightarrow> string option"
  alIpHex :: "string \<Rightarrow> string option"
  alMacHex :: "string \<Rightarrow> string"
  alIPV4Addr :: "string \<Rightarrow> ip4 option"

unbundle bit_operations_syntax

definition show_hex4 :: "int \<Rightarrow> string" where
  "show_hex4 n = (let s = show_hex n in replicate (4 - length s) CHR ''0'' @ s)"

definition vlanTci :: "GuestNIC \<Rightarrow> int" where
  "vlanTci n = (if nicVLAN n > 1 then (nicVLAN n AND 0xfff) OR 0x1000 else 0)"

definition nonnil :: "'a option \<Rightarrow> 'a result" where
  "nonnil x = (case x of None \<Rightarrow> Inl (Panic ''index out of range'') | Some y \<Rightarrow> Inr y)"

definition GuestNIC_Map :: "addr_lib \<Rightarrow> GuestNIC \<Rightarrow> tdata result" where
  "GuestNIC_Map lib n =
     res_bind
       (if length (nicIP6 n) > 0 then
          res_bind (nonnil (alSolicitMcastIP lib (nicIP6 n))) (\<lambda>mcastIP.
          res_bind (nonnil (alSolicitMcastMac lib (nicIP6 n))) (\<lambda>mcastMac.
            Inr [(''IP6'', TStr (nicIP6 n)), (''IP6LOCAL'', TStr (alMac2LinkLocal lib (nicMAC n))),
                 (''IP6McastIP'', TStr mcastIP), (''IP6McastMac'', TStr mcastMac)]))
        else Inr [])
       (\<lambda>m6. Inr
         ([(''SubIPs'', TStrs (SubIPs n)), (''MAC'', TStr (nicMAC n)),
           (''VLAN'', TInt (nicVLAN n AND 0xfff)), (''CT_ZONE'', TInt (uint (nicCtZoneId n))),
           (''PortNo'', TInt (nicPortNo n))]
          @ (if length (nicIP n) > 0 then [(''IP'', TStr (nicIP n))] else [])
          @ m6
          @ [(''VLANTci'', TStr (''0x'' @ show_hex4 (vlanTci n) @ ''/0x1fff''))]))"

section \<open>Guests\<close>

record GuestNICSecgroups =
  gsSecurityRules :: string
  gsMac :: string

record guestDesc =
  gdNICs :: "GuestNIC list"
  gdSecurityRules :: string
  gdAdminSecurityRules :: string
  gdNicSecgroups :: "GuestNICSecgroups list"
  gdName :: string
  gdIsMaster :: bool
  gdIsSlave :: bool
  gdHostId :: string
  gdIsVolatileHost :: bool
  gdSrcIpCheck :: bool
  gdSrcMacCheck :: bool

text \<open>The values of the fields that the file does not set.\<close>

definition newGuestDesc :: guestDesc where
  "newGuestDesc = \<lparr>gdNICs = [], gdSecurityRules = '''', gdAdminSecurityRules = '''',
     gdNicSecgroups = [], gdName = '''', gdIsMaster = False, gdIsSlave = False, gdHostId = '''',
     gdIsVolatileHost = False, gdSrcIpCheck = True, gdSrcMacCheck = True\<rparr>"

record Guest =
  gId :: string
  gPath :: string
  gName :: string
  gSecurityRules :: "SecurityRules option"
  gNICs :: "GuestNIC list"
  gVpcNICs :: "GuestNIC list"
  gHostId :: string
  gSrcIpCheck :: bool
  gSrcMacCheck :: bool
  gIsSlave :: bool
  gIsVolatileHost :: bool

text \<open>What the code asks of the file system: whether a path exists, is a directory, and the
  content of a file.\<close>

datatype 'a file_res = FileOk 'a | FileNotExist | FileErr

record file_sys =
  fsStat :: "string \<Rightarrow> bool file_res"
  fsReadFile :: "string \<Rightarrow> string file_res"

definition IsVM :: "file_sys \<Rightarrow> Guest \<Rightarrow> bool" where
  "IsVM fs g = (case fsStat fs (gPath g @ ''/startvm'') of FileOk _ \<Rightarrow> True | _ \<Rightarrow> False)"

definition Running :: "file_sys \<Rightarrow> Guest \<Rightarrow> bool" where
  "Running fs g =
     (case fsReadFile fs (gPath g @ ''/pid'') of
        FileNotExist \<Rightarrow> False
      | FileErr \<Rightarrow> True
      | FileOk pidData \<Rightarrow>
          if length pidData = 0 then False
          else (case fsStat fs (''/proc/'' @ TrimSpace pidData) of
                  FileNotExist \<Rightarrow> False
                | FileErr \<Rightarrow> True
                | FileOk isDir \<Rightarrow> isDir))"

definition IsVolatileHost :: "Guest \<Rightarrow> bool" where
  "IsVolatileHost g \<longleftrightarrow> gIsVolatileHost g \<or> gIsSlave g"

definition nicHasDedicatedSecgroups :: "string \<Rightarrow> GuestNICSecgroups list \<Rightarrow> string option" where
  "nicHasDedicatedSecgroups mac sgs =
     (case find (\<lambda>s. gsMac s = mac) sgs of None \<Rightarrow> None | Some s \<Rightarrow> Some (gsSecurityRules s))"

text \<open>The loop over the cards runs from the last to the first: \<open>todo\<close> is the reversed list of the
  cards not yet seen, \<open>kept\<close> the cards seen and kept, \<open>vpc\<close> those moved to \<open>VpcNICs\<close>.  An error
  leaves the cards as far as they were processed.\<close>

fun load_nics ::
  "(string \<Rightarrow> sec_rule result) \<Rightarrow> (sec_rule \<Rightarrow> bool) \<Rightarrow> GuestNICSecgroups list
   \<Rightarrow> GuestNIC list \<Rightarrow> GuestNIC list \<Rightarrow> GuestNIC list
   \<Rightarrow> GuestNIC list \<times> GuestNIC list \<times> unit result" where
  "load_nics parse wild sgs vpc kept [] = (kept, vpc, Inr ())"
| "load_nics parse wild sgs vpc kept (nic # todo) =
     (let go = (\<lambda>nic. if nicVpcProvider nic \<noteq> ''''
                      then load_nics parse wild sgs (vpc @ [nic]) kept todo
                      else load_nics parse wild sgs vpc (nic # kept) todo)
      in case nicHasDedicatedSecgroups (nicMAC nic) sgs of
           None \<Rightarrow> go nic
         | Some rstr \<Rightarrow>
             (case NewSecurityRules parse wild rstr of
                Inl e \<Rightarrow> (rev todo @ nic # kept, vpc, Inl e)
              | Inr rs \<Rightarrow> go (nic\<lparr>nicSecurityRules := Some rs\<rparr>)))"

definition LoadDesc ::
  "(string \<Rightarrow> sec_rule result) \<Rightarrow> (sec_rule \<Rightarrow> bool) \<Rightarrow> guestDesc result \<Rightarrow> Guest
   \<Rightarrow> Guest \<times> unit result" where
  "LoadDesc parse wild decoded g =
     (case decoded of
        Inl e \<Rightarrow> (g, Inl e)
      | Inr desc \<Rightarrow>
          let g = g\<lparr>gName := gdName desc, gHostId := gdHostId desc, gNICs := gdNICs desc,
                    gVpcNICs := []\<rparr>
          in case NewSecurityRules parse wild (gdAdminSecurityRules desc @ ''; '' @ gdSecurityRules desc) of
               Inl e \<Rightarrow> (g, Inl e)
             | Inr rs \<Rightarrow>
                 let g = g\<lparr>gSecurityRules := Some rs\<rparr>;
                     (nics, vpc, r) = load_nics parse wild (gdNicSecgroups desc) [] [] (rev (gNICs g));
                     g = g\<lparr>gNICs := nics, gVpcNICs := vpc\<rparr>
                 in case r of
                      Inl e \<Rightarrow> (g, Inl e)
                    | Inr _ \<Rightarrow>
                        (g\<lparr>gIsVolatileHost := gdIsVolatileHost desc,
                           gIsSlave := (\<not> gdIsMaster desc \<and> gdIsSlave desc),
                           gSrcIpCheck := (if \<not> gdSrcMacCheck desc \<and> gdSrcIpCheck desc then False
                                           else gdSrcIpCheck desc),
                           gSrcMacCheck := gdSrcMacCheck desc\<rparr>, Inr ()))"

text \<open>\<open>GetJSONObjectDesc\<close> reads the description anew, for the metadata service.\<close>

definition GetJSONObjectDesc ::
  "(string \<Rightarrow> string result) \<Rightarrow> (string \<Rightarrow> 'j result) \<Rightarrow> ('j \<Rightarrow> 'd result) \<Rightarrow> Guest \<Rightarrow> 'd result" where
  "GetJSONObjectDesc readFile parse unmarshal g =
     res_bind (readFile (gPath g @ ''/desc'')) (\<lambda>data. res_bind (parse data) unmarshal)"

definition GetNicSecurityRules :: "Guest \<Rightarrow> GuestNIC \<Rightarrow> SecurityRules option" where
  "GetNicSecurityRules g nic =
     (case nicSecurityRules nic of Some rs \<Rightarrow> Some rs | None \<Rightarrow> gSecurityRules g)"

definition NeedsSync :: "Guest \<Rightarrow> bool" where
  "NeedsSync g \<longleftrightarrow> gHostId g = '''' \<and> length (gVpcNICs g) > 0"

definition SrcIpCheck :: "HostConfig \<Rightarrow> Guest \<Rightarrow> bool" where
  "SrcIpCheck hc g = (if \<not> optAllowRouterVMs (hcOptions hc) then True else gSrcIpCheck g)"

definition SrcMacCheck :: "HostConfig \<Rightarrow> Guest \<Rightarrow> bool" where
  "SrcMacCheck hc g = (if \<not> optAllowSwitchVMs (hcOptions hc) then True else gSrcMacCheck g)"

definition FindNicByNetIdIP :: "Guest \<Rightarrow> string \<Rightarrow> string \<Rightarrow> GuestNIC option" where
  "FindNicByNetIdIP g netId ip =
     (let searchNic = find (\<lambda>nic. nicNetId nic = netId \<and> nicIP nic = ip)
      in case searchNic (gVpcNICs g) of Some nic \<Rightarrow> Some nic | None \<Rightarrow> searchNic (gNICs g))"

definition FindNicByHostLocalIP ::
  "(string \<Rightarrow> string option) \<Rightarrow> digest \<Rightarrow> HostConfig \<Rightarrow> Guest \<Rightarrow> HostLocal \<Rightarrow> string
   \<Rightarrow> GuestNIC option" where
  "FindNicByHostLocalIP parse6 sha hc g hostLocal ip =
     find (\<lambda>nic. nicBridge nic = hcnBridge (hlNetwork hostLocal) \<and>
             (if MatchIP4Addr parse6 ip
              then fst (snd (HostLocal_fakeMdSrcIpMac sha hostLocal (nicPortNo nic))) = ip
              else (\<exists>metaSrvIp6 \<in> set (optMetadataServerIp6s (hcOptions hc)).
                      fst (snd (HostLocal_fakeMdSrcIp6Mac sha hostLocal (nicPortNo nic) metaSrvIp6)) = ip)))
          (gNICs g)"

section \<open>Loading a description\<close>

text \<open>A card as it is after loading: with the rules of the group dedicated to it, if there is one.\<close>

definition nic_loaded ::
  "(string \<Rightarrow> sec_rule result) \<Rightarrow> (sec_rule \<Rightarrow> bool) \<Rightarrow> GuestNICSecgroups list \<Rightarrow> GuestNIC \<Rightarrow> GuestNIC" where
  "nic_loaded parse wild sgs nic =
     (case nicHasDedicatedSecgroups (nicMAC nic) sgs of
        None \<Rightarrow> nic
      | Some s \<Rightarrow> (case NewSecurityRules parse wild s of
                     Inl e \<Rightarrow> nic | Inr rs \<Rightarrow> nic\<lparr>nicSecurityRules := Some rs\<rparr>))"

lemma nic_loaded_provider [simp]: "nicVpcProvider (nic_loaded parse wild sgs nic) = nicVpcProvider nic"
  by (simp add: nic_loaded_def split: option.split sum.split)

lemma load_nics_ok:
  "load_nics parse wild sgs vpc kept todo = (nics, vpcs, Inr ()) \<Longrightarrow>
   nics = rev (filter (\<lambda>n. nicVpcProvider n = '''') (map (nic_loaded parse wild sgs) todo)) @ kept \<and>
   vpcs = vpc @ filter (\<lambda>n. nicVpcProvider n \<noteq> '''') (map (nic_loaded parse wild sgs) todo)"
proof (induction todo arbitrary: vpc kept)
  case (Cons nic todo)
  have dest: "load_nics parse wild sgs
       (if nicVpcProvider nic \<noteq> '''' then vpc @ [nic_loaded parse wild sgs nic] else vpc)
       (if nicVpcProvider nic \<noteq> '''' then kept else nic_loaded parse wild sgs nic # kept) todo
     = (nics, vpcs, Inr ())"
    using Cons.prems by (auto simp: nic_loaded_def Let_def split: option.splits sum.splits if_splits)
  from Cons.IH [OF dest] show ?case by auto
qed simp

text \<open>A guest with one card, for the evaluation of examples.\<close>

definition demo_nic :: GuestNIC where
  "demo_nic = \<lparr>nicBridge = ''br0'', nicBw = 100, nicTxBwLimit = 0, nicRxBwLimit = 0,
     nicGateway = ''10.0.0.254'', nicIfnameHost = ''vnet0'', nicIP = ''10.0.0.2'', nicVirtualIps = [],
     nicMAC = ''00:22:00:00:00:01'', nicMasklen = 24, nicNetId = ''net0'', nicVLAN = 1,
     nicWireId = ''wire0'', nicVpcId = '''', nicVpcProvider = '''', nicVpcMappedIpAddr = '''', nicVpcMappedIp6Addr = '''', nicIP6 = '''', nicMasklen6 = 0, nicCtZoneId = 60001,
     nicCtZoneIdSet = True, nicPortNo = 7, nicSecurityRules = None, nicNetworkAddresses = [],
     nicPortMappings = []\<rparr>"

definition demo_desc :: guestDesc where
  "demo_desc = newGuestDesc\<lparr>gdNICs := [demo_nic], gdSecurityRules := ''in:allow tcp 22'', gdName := ''vm1''\<rparr>"

definition demo_guest :: Guest where
  "demo_guest = \<lparr>gId = ''g1'', gPath = ''/opt/servers/g1'', gName = '''', gSecurityRules = None,
     gNICs = [], gVpcNICs = [], gHostId = '''', gSrcIpCheck = False, gSrcMacCheck = False,
     gIsSlave = False, gIsVolatileHost = False\<rparr>"

lemma demo_LoadDesc:
  "snd (LoadDesc demo_parse demo_wild (Inr demo_desc) demo_guest) = Inr ()"
  by code_simp

lemma demo_loaded:
  "LoadDesc demo_parse demo_wild (Inr demo_desc) demo_guest
   = (fst (LoadDesc demo_parse demo_wild (Inr demo_desc) demo_guest), Inr ())"
  using demo_LoadDesc by (metis prod.collapse)

lemma LoadDesc_split:
  assumes "LoadDesc parse wild decoded g = (g', Inr ())"
  shows "\<exists>desc rs. decoded = Inr desc
    \<and> NewSecurityRules parse wild (gdAdminSecurityRules desc @ ''; '' @ gdSecurityRules desc) = Inr rs
    \<and> gSecurityRules g' = Some rs
    \<and> gNICs g' = filter (\<lambda>n. nicVpcProvider n = '''')
                   (map (nic_loaded parse wild (gdNicSecgroups desc)) (gdNICs desc))
    \<and> gVpcNICs g' = rev (filter (\<lambda>n. nicVpcProvider n \<noteq> '''')
                   (map (nic_loaded parse wild (gdNicSecgroups desc)) (gdNICs desc)))
    \<and> gId g' = gId g"
proof -
  obtain desc where d: "decoded = Inr desc"
    using assms by (cases decoded) (auto simp: LoadDesc_def)
  obtain rs where rs: "NewSecurityRules parse wild
      (gdAdminSecurityRules desc @ ''; '' @ gdSecurityRules desc) = Inr rs"
    using assms d by (cases "NewSecurityRules parse wild
      (gdAdminSecurityRules desc @ ''; '' @ gdSecurityRules desc)") (auto simp: LoadDesc_def Let_def)
  obtain nics vpc where l: "load_nics parse wild (gdNicSecgroups desc) [] [] (rev (gdNICs desc))
      = (nics, vpc, Inr ())"
    using assms d rs
    by (cases "load_nics parse wild (gdNicSecgroups desc) [] [] (rev (gdNICs desc))")
       (auto simp: LoadDesc_def Let_def split: sum.splits)
  have "gNICs g' = nics" "gVpcNICs g' = vpc" "gSecurityRules g' = Some rs" "gId g' = gId g"
    using assms d rs l by (auto simp: LoadDesc_def Let_def)
  with d rs load_nics_ok [OF l] show ?thesis by (simp add: rev_map rev_filter)
qed

text \<open>A description that loads splits the cards of the guest: those of a VPC, last card
  first, and the others in their order, each with the rules of the security group dedicated to
  its MAC address where there is one; the guest's other rules are the administrative ones
  followed by its own.\<close>

theorem LoadDesc_partition:
  assumes "LoadDesc parse wild decoded g = (g', Inr ())"
  shows "\<exists>desc rs. decoded = Inr desc
    \<and> NewSecurityRules parse wild (gdAdminSecurityRules desc @ ''; '' @ gdSecurityRules desc) = Inr rs
    \<and> gSecurityRules g' = Some rs
    \<and> gNICs g' = filter (\<lambda>n. nicVpcProvider n = '''')
                   (map (nic_loaded parse wild (gdNicSecgroups desc)) (gdNICs desc))
    \<and> gVpcNICs g' = rev (filter (\<lambda>n. nicVpcProvider n \<noteq> '''')
                   (map (nic_loaded parse wild (gdNicSecgroups desc)) (gdNICs desc)))
    \<and> gId g' = gId g"
  using assms by (rule LoadDesc_split)

theorem LoadDesc_partition_witness:
  "gVpcNICs (fst (LoadDesc demo_parse demo_wild (Inr demo_desc) demo_guest)) = []"
  using LoadDesc_partition [OF demo_loaded] by (auto simp: demo_desc_def demo_nic_def newGuestDesc_def)

text \<open>A guest whose source addresses are checked also has its source MAC addresses checked:
  the configuration never allows switch VMs without router VMs, and loading a description
  turns the address check off together with the MAC check.\<close>

theorem src_checks_consistent:
  assumes "LoadDesc parse wild decoded g0 = (g, Inr ())"
    and "hc = NewHostConfig parse6 netconf opts"
    and "SrcIpCheck hc g"
  shows "SrcMacCheck hc g"
proof -
  have "optAllowSwitchVMs (hcOptions hc) \<Longrightarrow> optAllowRouterVMs (hcOptions hc)"
    unfolding assms(2) NewHostConfig_def Let_def by (auto split: if_splits)
  moreover have "gSrcIpCheck g \<Longrightarrow> gSrcMacCheck g"
    using assms(1) by (auto simp: LoadDesc_def Let_def split: sum.splits prod.splits if_splits)
  ultimately show ?thesis using assms(3) by (auto simp: SrcIpCheck_def SrcMacCheck_def split: if_splits)
qed

theorem src_checks_consistent_witness:
  "SrcMacCheck (NewHostConfig (\<lambda>_. None) (\<lambda>_. None) demo_options)
     (fst (LoadDesc demo_parse demo_wild (Inr demo_desc) demo_guest))"
proof (rule src_checks_consistent [OF demo_loaded refl])
  show "SrcIpCheck (NewHostConfig (\<lambda>_. None) (\<lambda>_. None) demo_options)
     (fst (LoadDesc demo_parse demo_wild (Inr demo_desc) demo_guest))" by code_simp
qed

end
