(* ===== verification/FlowSource.thy ===== *)
theory FlowSource
  imports Guest
begin

text \<open>
  The flows of hosts and guests: \<open>pkg/agent/utils/flowsource.go\<close>.

  A flow is described by its table, priority and the texts of its matches and actions
  (\<open>flow_spec\<close>).  \<open>F\<close> builds the flow from that text with the parser of the OVS package, a
  parameter, and panics where the text does not parse; a list of descriptions stands for the
  calls of \<open>F\<close> in that order.  Templates only use the form \<open>{{.Key}}\<close>; \<open>tmpl\<close> evaluates it the way
  \<open>text/template\<close> does on a map, printing \<open><no value>\<close> for a missing key.
\<close>

unbundle bit_operations_syntax

section \<open>Flow texts\<close>

record flow_spec =
  fsTable :: int
  fsPriority :: int
  fsMatches :: string
  fsActions :: string

definition fl :: "int \<Rightarrow> int \<Rightarrow> string \<Rightarrow> string \<Rightarrow> flow_spec" where
  "fl table priority matches actions =
     \<lparr>fsTable = table, fsPriority = priority, fsMatches = matches, fsActions = actions\<rparr>"

definition F_text :: "flow_spec \<Rightarrow> string" where
  "F_text f = ''table='' @ show_int (fsTable f) @ '',priority='' @ show_int (fsPriority f) @ '',''
     @ fsMatches f @ '',actions='' @ fsActions f"

definition F :: "(string \<Rightarrow> 'f result) \<Rightarrow> flow_spec \<Rightarrow> 'f result" where
  "F unmarshal f = (case unmarshal (F_text f) of
                      Inl e \<Rightarrow> Inl (Panic (''bad flow: '' @ F_text f))
                    | Inr x \<Rightarrow> Inr x)"

definition tval_String :: "tval option \<Rightarrow> string" where
  "tval_String v =
     (case v of
        None \<Rightarrow> ''<no value>''
      | Some (TStr s) \<Rightarrow> s
      | Some (TInt i) \<Rightarrow> show_int i
      | Some (TStrs ss) \<Rightarrow> ''['' @ join '' '' ss @ '']'')"

function tmpl :: "tdata \<Rightarrow> string \<Rightarrow> string" where
  "tmpl d [] = []"
| "tmpl d (c # cs) =
     (if HasPrefix (c # cs) ''{{.'' then
        (let key = takeWhile (\<lambda>x. x \<noteq> CHR ''}'') (drop 2 cs)
         in tval_String (gm_get d key) @ tmpl d (drop (length key + 4) cs))
      else c # tmpl d cs)"
  by pat_completeness auto
termination by (relation "measure (length \<circ> snd)") auto

declare tmpl.simps(2) [simp del]

definition FakeArpRespActions :: "string \<Rightarrow> string" where
  "FakeArpRespActions macStr =
     (let hexMac = ''0x'' @ dropWhile (\<lambda>c. c = CHR ''0'') (filter (\<lambda>c. c \<noteq> CHR '':'') macStr)
      in join '',''
           [''move:NXM_OF_ETH_SRC[]->NXM_OF_ETH_DST[]'',
            ''load:'' @ hexMac @ ''->NXM_OF_ETH_SRC[]'',
            ''load:0x2->NXM_OF_ARP_OP[]'',
            ''load:'' @ hexMac @ ''->NXM_NX_ARP_SHA[]'',
            ''move:NXM_OF_ARP_TPA[]->NXM_OF_ARP_SPA[]'',
            ''move:NXM_NX_ARP_SHA[]->NXM_NX_ARP_THA[]'',
            ''move:NXM_OF_ARP_SPA[]->NXM_OF_ARP_TPA[]'',
            ''in_port''])"

text \<open>\<open>NetAddr\<close> of the vendored address package: the mask length is an 8-bit number, a negative
  one panics.\<close>

definition NetAddr :: "ip4 \<Rightarrow> int \<Rightarrow> ip4 result" where
  "NetAddr a masklen =
     (let m8 = sint (of_int masklen :: 8 word)
      in if m8 < 0 then Inl (Panic ''negative masklen'')
         else Inr (a AND NOT (push_bit (nat ((32 - m8) mod 256)) 1 - 1)))"

section \<open>Flows of a host-local bridge\<close>

type_synonym flows_map = "(string, flow_spec list) gomap"

definition HostLocal_Who :: "HostLocal \<Rightarrow> string" where
  "HostLocal_Who h = ''hostlocal.'' @ hcnBridge (hlNetwork h)"

text \<open>The address prefixes of the host-local networks; an address that does not parse is 0.\<close>

definition leak_flows :: "addr_lib \<Rightarrow> tdata \<Rightarrow> NetworkDetails \<Rightarrow> flow_spec list result" where
  "leak_flows lib m netConf =
     (let ip4 = (case alIPV4Addr lib (ndGuestIpStart netConf) of None \<Rightarrow> 0 | Some a \<Rightarrow> a)
      in res_bind (NetAddr ip4 (ndGuestIpMask netConf)) (\<lambda>na.
           let addrMask = ip4_String na @ ''/'' @ show_int (ndGuestIpMask netConf)
           in Inr [fl 0 39000 (tmpl m (''arp,arp_tpa='' @ addrMask)) ''drop'',
                   fl 0 39001 (tmpl m (''arp,arp_spa='' @ addrMask)) ''drop'']))"

definition local_md4_flows :: "digest \<Rightarrow> HostLocal \<Rightarrow> tdata \<Rightarrow> flow_spec list" where
  "local_md4_flows sha h m =
     (let mac = mac_String (hcnMac (hlNetwork h));
          (prefix, _, fmac) = HostLocal_fakeMdSrcIpMac sha h 0
      in [fl 0 29312 (tmpl m ''in_port={{.PortNoPhy}},arp,arp_op=1,arp_tpa=169.254.169.254'') ''drop'',
          fl 0 29311 ''arp,arp_op=1,arp_tpa=169.254.169.254'' (FakeArpRespActions mac),
          fl 0 29310 (''in_port=LOCAL,tcp,dl_dst='' @ fmac @ '',nw_dst='' @ prefix @ '',tp_src=''
                      @ show_int (hlMetadataPort h)) ''resubmit(,12)''])"

definition local_md6_flows :: "digest \<Rightarrow> HostLocal \<Rightarrow> tdata \<Rightarrow> flow_spec list" where
  "local_md6_flows sha h m =
     (let (prefix, _, mac) = HostLocal_fakeMdSrcIp6Mac sha h 0 ''''
      in map (\<lambda>(i, metaSrvIp6).
             fl 0 (40013 + int i) (tmpl m (''in_port={{.PortNoPhy}},ipv6,icmp6,icmp_type=135,nd_target=''
                                      @ metaSrvIp6)) ''drop'')
           (List.enumerate 0 (optMetadataServerIp6s (hcOptions (hlConfig h))))
         @ [fl 0 40000 (tmpl m ''dl_dst=01:00:00:00:00:00/01:00:00:00:00:00,ipv6,icmp6,ipv6_dst=ff02::/64'') ''normal'',
            fl 0 30001 (tmpl m ''in_port={{.PortNoPhy}},ipv6,icmp6,icmp_type=135'') ''normal'',
            fl 0 30002 (tmpl m ''in_port={{.PortNoPhy}},ipv6,icmp6,icmp_type=136'') ''normal'',
            fl 0 30003 (tmpl m ''in_port=LOCAL,ipv6,icmp6,icmp_type=135'') ''normal'',
            fl 0 30004 (tmpl m ''in_port=LOCAL,ipv6,icmp6,icmp_type=136'') ''normal'',
            fl 0 40001 (tmpl m ''in_port={{.PortNoPhy}},ipv6,icmp6,icmp_type=133'') (tmpl m ''mod_dl_dst:{{.MAC}},local''),
            fl 0 40002 (tmpl m ''in_port={{.PortNoPhy}},ipv6,icmp6,icmp_type=134'') (tmpl m ''mod_dl_dst:{{.MAC}},local''),
            fl 0 29310 (''in_port=LOCAL,ipv6,tcp6,dl_dst='' @ mac @ '',ipv6_dst='' @ prefix @ '',tp_src=''
                        @ show_int (hlMetadataPort h)) ''resubmit(,12)'',
            fl 0 40050 (''ipv6,icmp6,icmp_type=136,dl_dst='' @ mac @ '',ipv6_dst='' @ prefix) ''resubmit(,12)''])"

text \<open>Table 9 tracks the connections of port mappings; reg0 says where a packet comes from.\<close>

definition table9_flows :: "flow_spec list" where
  "table9_flows =
     [fl 9 40001 ''tcp,ct_state=-trk'' ''ct(table=9)'',
      fl 9 40000 ''udp,ct_state=-trk'' ''ct(table=9)'',
      fl 9 31001 ''reg0=0x4,tcp,ct_state=+new+trk'' ''drop'',
      fl 9 31000 ''reg0=0x4,udp,ct_state=+new+trk'' ''drop'',
      fl 9 30001 ''reg0=0x1,tcp,ct_state=+new+trk'' ''ct(commit),output:NXM_NX_REG1[]'',
      fl 9 30000 ''reg0=0x1,udp,ct_state=+new+trk'' ''ct(commit),output:NXM_NX_REG1[]'',
      fl 9 30001 ''reg0=0x2,tcp,ct_state=+new+trk'' ''ct(commit),local'',
      fl 9 30000 ''reg0=0x2,udp,ct_state=+new+trk'' ''ct(commit),local'',
      fl 9 20003 ''reg0=0x4,tcp,ct_state=+est+trk'' ''resubmit(,10)'',
      fl 9 20002 ''reg0=0x4,udp,ct_state=+est+trk'' ''resubmit(,10)'',
      fl 9 10001 ''reg0=0x1,tcp,ct_state=+est+trk'' ''output:NXM_NX_REG1[]'',
      fl 9 10000 ''reg0=0x1,udp,ct_state=+est+trk'' ''output:NXM_NX_REG1[]'',
      fl 9 10001 ''reg0=0x2,tcp,ct_state=+est+trk'' ''local'',
      fl 9 10000 ''reg0=0x2,udp,ct_state=+est+trk'' ''local'',
      fl 9 1000 '''' ''drop'']"

definition phy_tail_flows :: "HostConfig \<Rightarrow> tdata \<Rightarrow> flow_spec list" where
  "phy_tail_flows hc m =
     (if optAllowSwitchVMs (hcOptions hc) then [fl 0 23700 (tmpl m ''in_port={{.PortNoPhy}}'') ''normal'']
      else [fl 0 23600 (tmpl m ''in_port={{.PortNoPhy}},dl_dst=01:00:00:00:00:00/01:00:00:00:00:00'') ''normal'',
            fl 0 23500 (tmpl m ''in_port={{.PortNoPhy}}'') ''drop''])"

definition hostlocal_data :: "HostLocal \<Rightarrow> int \<Rightarrow> tdata" where
  "hostlocal_data h portNoPhy =
     (let ipv = (\<lambda>k ip. case ip of None \<Rightarrow> [] | Some s \<Rightarrow> [(k, TStr s)])
      in [(''MetadataPort'', TInt (hlMetadataPort h)), (''MAC'', TStr (mac_String (hcnMac (hlNetwork h)))),
          (''PortNoPhy'', TInt portNoPhy)]
         @ ipv ''IP'' (IP4 h) @ ipv ''IP6'' (hcnIP6 (hlNetwork h))
         @ ipv ''IP6Local'' (hcnIP6Local (hlNetwork h)))"

fun res_concat :: "('a \<Rightarrow> 'b list result) \<Rightarrow> 'a list \<Rightarrow> 'b list result" where
  "res_concat f [] = Inr []"
| "res_concat f (x # xs) = res_bind (f x) (\<lambda>ys. res_bind (res_concat f xs) (\<lambda>zs. Inr (ys @ zs)))"

definition HostLocal_FlowsMap ::
  "addr_lib \<Rightarrow> digest \<Rightarrow> (string \<Rightarrow> string \<Rightarrow> int result) \<Rightarrow> HostLocal \<Rightarrow> flows_map result" where
  "HostLocal_FlowsMap lib sha dumpPort h =
     (let n = hlNetwork h
      in res_bind (if length (hcnIfname n) > 0 then dumpPort (hcnBridge n) (hcnIfname n) else Inr (- 1)) (\<lambda>portNoPhy.
         let m = hostlocal_data h portNoPhy
         in res_bind (res_concat (leak_flows lib m) (hcnHostLocalNets n)) (\<lambda>leaks.
              Inr [(hcnBridge n,
                [fl 0 27200 ''in_port=LOCAL'' ''normal'']
                @ (if portNoPhy \<ge> 0
                   then [fl 0 26900 (tmpl m ''in_port={{.PortNoPhy}},dl_dst={{.MAC}}'') ''normal''] else [])
                @ (if hcnIP n \<noteq> None \<or> hcnIPLocal n \<noteq> None then local_md4_flows sha h m else [])
                @ (if hcnIP6 n \<noteq> None \<or> hcnIP6Local n \<noteq> None then local_md6_flows sha h m else [])
                @ (if portNoPhy \<ge> 0 then table9_flows else [fl 10 1000 '''' ''drop''])
                @ leaks
                @ (if portNoPhy \<ge> 0 then phy_tail_flows (hlConfig h) m else []))])))"

section \<open>Port mappings\<close>

record tp_names =
  tnProtoNum :: int
  tnSrcField :: string
  tnDstMatch :: string
  tnNxmSrc :: string
  tnNxmDst :: string

definition tp_names_of :: "string \<Rightarrow> tp_names" where
  "tp_names_of proto =
     (if proto = ''udp'' then
        \<lparr>tnProtoNum = 17, tnSrcField = ''udp_src'', tnDstMatch = ''NXM_OF_UDP_DST[]=NXM_OF_UDP_SRC[]'',
         tnNxmSrc = ''NXM_OF_UDP_SRC[]'', tnNxmDst = ''NXM_OF_UDP_DST[]''\<rparr>
      else
        \<lparr>tnProtoNum = 6, tnSrcField = ''tcp_src'', tnDstMatch = ''NXM_OF_TCP_DST[]=NXM_OF_TCP_SRC[]'',
         tnNxmSrc = ''NXM_OF_TCP_SRC[]'', tnNxmDst = ''NXM_OF_TCP_DST[]''\<rparr>)"

text \<open>The remote networks of a mapping; the code stores the default in the mapping, which later
  calls read back with the same effect.\<close>

definition remote_nets :: "GuestPortMapping \<Rightarrow> string list" where
  "remote_nets pm = (if length (pmRemoteIps pm) = 0 then [''0.0.0.0/0''] else pmRemoteIps pm)"

definition src_match :: "string \<Rightarrow> string" where
  "src_match remoteNet = (if remoteNet \<noteq> ''0.0.0.0/0'' then ''nw_src='' @ remoteNet @ '','' else '''')"

definition learn_common :: "string \<Rightarrow> string \<Rightarrow> tp_names \<Rightarrow> int \<Rightarrow> string" where
  "learn_common inPort ip tn port =
     ''priority=10000,idle_timeout=300,in_port='' @ inPort @ '',eth_type=0x0800,nw_src='' @ ip
     @ '',NXM_OF_IP_DST[]=NXM_OF_IP_SRC[],nw_proto='' @ show_int (tnProtoNum tn) @ '',''
     @ tnSrcField tn @ ''='' @ show_int port @ '','' @ tnDstMatch tn"

definition swap_eth :: string where
  "swap_eth = '',load:NXM_OF_ETH_DST[]->NXM_OF_ETH_SRC[],load:NXM_OF_ETH_SRC[]->NXM_OF_ETH_DST[]''"

definition HostPort :: "GuestPortMapping \<Rightarrow> int result" where
  "HostPort pm = (case pmHostPort pm of None \<Rightarrow> Inl (Panic ''nil HostPort'') | Some p \<Rightarrow> Inr p)"

definition remote_flows ::
  "GuestPortMapping \<Rightarrow> int \<Rightarrow> string \<Rightarrow> string \<Rightarrow> int \<Rightarrow> string \<Rightarrow> string \<Rightarrow> flow_spec list result" where
  "remote_flows pm portNo ip mac phyPortNo vlanMatch remoteNet =
     (let srcIpStr = src_match remoteNet;
          tn = tp_names_of (pmProtocol pm);
          port = show_int (pmPort pm);
          inPort = (if portNo < 0 then ''LOCAL'' else show_int portNo);
          learnStr1 = learn_common inPort ip tn (pmPort pm) @ swap_eth
            @ '',load:NXM_OF_IP_DST[]->NXM_OF_IP_SRC[],load:'' @ tnNxmDst tn @ ''->'' @ tnNxmSrc tn
            @ '',output:NXM_OF_IN_PORT[]'';
          learnStr2 = learn_common inPort ip tn (pmPort pm) @ '',output:NXM_OF_IN_PORT[]''
      in res_bind (HostPort pm) (\<lambda>hostPort. Inr
           (if portNo < 0 then
              [fl 0 28200 (''ip,'' @ srcIpStr @ pmProtocol pm @ '',tp_dst='' @ show_int hostPort)
                 (''learn(table=10,'' @ learnStr1 @ ''),load:0x2->NXM_NX_REG0[],mod_dl_dst:'' @ mac
                  @ '',mod_nw_dst:'' @ ip @ '',mod_tp_dst:'' @ port @ '',resubmit(,9)''),
               fl 0 28205 (''ip,'' @ srcIpStr @ ''nw_dst='' @ ip @ '','' @ pmProtocol pm @ '',tp_dst='' @ port)
                 (''learn(table=10,'' @ learnStr2 @ ''),load:0x2->NXM_NX_REG0[],resubmit(,9)'')]
            else
              [fl 0 28200 (''in_port='' @ show_int phyPortNo @ '',ip,'' @ srcIpStr @ pmProtocol pm
                           @ '',tp_dst='' @ show_int hostPort)
                 (''learn(table=10,'' @ learnStr1 @ ''),load:0x1->NXM_NX_REG0[],load:0x'' @ show_hex portNo
                  @ ''->NXM_NX_REG1[],mod_dl_dst:'' @ mac @ '',mod_nw_dst:'' @ ip @ '',mod_tp_dst:'' @ port
                  @ '',resubmit(,9)''),
               fl 0 28205 (''in_port='' @ show_int phyPortNo @ '',ip,'' @ srcIpStr @ ''nw_dst='' @ ip @ '',''
                           @ pmProtocol pm @ '',tp_dst='' @ port @ '','' @ vlanMatch)
                 (''learn(table=10,'' @ learnStr2 @ ''),load:0x1->NXM_NX_REG0[],load:0x'' @ show_hex portNo
                  @ ''->NXM_NX_REG1[],strip_vlan,resubmit(,9)'')])))"

definition eachGuestNicPortMappingFlows ::
  "int \<Rightarrow> string \<Rightarrow> string \<Rightarrow> int \<Rightarrow> string \<Rightarrow> GuestPortMapping \<Rightarrow> flow_spec list result" where
  "eachGuestNicPortMappingFlows portNo ip mac phyPortNo vlanMatch pm =
     res_bind (res_concat (remote_flows pm portNo ip mac phyPortNo vlanMatch) (remote_nets pm)) (\<lambda>flows.
       let nicPortNoStr = (if portNo < 0 then ''LOCAL'' else show_int portNo)
       in Inr (flows @
            [fl 0 28202 (''in_port='' @ nicPortNoStr @ '',ip,nw_src='' @ ip @ '','' @ pmProtocol pm
                         @ '',tp_src='' @ show_int (pmPort pm)) ''load:0x4->NXM_NX_REG0[],resubmit(,9)'']))"

definition guestNicPortMappingFlows ::
  "GuestNIC \<Rightarrow> int \<Rightarrow> string \<Rightarrow> string \<Rightarrow> int \<Rightarrow> string \<Rightarrow> flow_spec list result" where
  "guestNicPortMappingFlows nic portNo ip mac phyPortNo vlanMatch =
     res_concat (eachGuestNicPortMappingFlows portNo ip mac phyPortNo vlanMatch) (nicPortMappings nic)"

definition remote_flows_local ::
  "GuestPortMapping \<Rightarrow> string \<Rightarrow> string \<Rightarrow> int \<Rightarrow> string \<Rightarrow> string \<Rightarrow> string \<Rightarrow> flow_spec list result" where
  "remote_flows_local pm masterIp gwMAC portNo ip mac remoteNet =
     (let srcIpStr = src_match remoteNet;
          tn = tp_names_of (pmProtocol pm);
          port = show_int (pmPort pm);
          learnStr1 = learn_common (show_int portNo) ip tn (pmPort pm) @ swap_eth
            @ '',load:NXM_OF_IP_DST[]->NXM_OF_IP_SRC[],load:NXM_OF_IP_SRC[]->NXM_OF_IP_DST[],load:''
            @ tnNxmDst tn @ ''->'' @ tnNxmSrc tn @ '',load:'' @ tnNxmSrc tn @ ''->'' @ tnNxmDst tn
            @ '',output:NXM_OF_IN_PORT[]'';
          learnStr2 = learn_common (show_int portNo) ip tn (pmPort pm) @ swap_eth
            @ '',output:NXM_OF_IN_PORT[]''
      in res_bind (HostPort pm) (\<lambda>hostPort. Inr
           [fl 0 28200 (''ip,'' @ srcIpStr @ pmProtocol pm @ '',nw_dst='' @ masterIp @ '',tp_dst='' @ show_int hostPort)
              (''learn(table=10,'' @ learnStr1 @ ''),mod_dl_src:'' @ gwMAC @ '',mod_dl_dst:'' @ mac
               @ '',mod_nw_dst:'' @ ip @ '',mod_tp_dst:'' @ port @ '',output:'' @ show_int portNo),
            fl 0 28205 (''ip,'' @ srcIpStr @ ''nw_dst='' @ ip @ '','' @ pmProtocol pm @ '',tp_dst='' @ port)
              (''learn(table=10,'' @ learnStr2 @ ''),mod_dl_dst:'' @ mac @ '',output:'' @ show_int portNo)]))"

definition eachGuestNicPortMappingFlowsLocal ::
  "string \<Rightarrow> string \<Rightarrow> int \<Rightarrow> string \<Rightarrow> string \<Rightarrow> GuestPortMapping \<Rightarrow> flow_spec list result" where
  "eachGuestNicPortMappingFlowsLocal masterIp gwMAC portNo ip mac pm =
     res_bind (res_concat (remote_flows_local pm masterIp gwMAC portNo ip mac) (remote_nets pm)) (\<lambda>flows.
       Inr (flows @
         [fl 0 28202 (''in_port='' @ show_int portNo @ '',ip,nw_src='' @ ip @ '','' @ pmProtocol pm
                      @ '',tp_src='' @ show_int (pmPort pm)) ''resubmit(,10)'']))"

definition guestNicPortMappingFlowsLocal ::
  "GuestNIC \<Rightarrow> string \<Rightarrow> string \<Rightarrow> int \<Rightarrow> string \<Rightarrow> string \<Rightarrow> flow_spec list result" where
  "guestNicPortMappingFlowsLocal nic masterIp gwMAC portNo ip mac =
     res_concat (eachGuestNicPortMappingFlowsLocal masterIp gwMAC portNo ip mac) (nicPortMappings nic)"

end
