(* ===== verification/GuestFlows.thy ===== *)
theory GuestFlows
  imports FlowSource
begin

text \<open>
  The flows of a guest: the methods of \<open>Guest\<close> and \<open>SecurityRules\<close> in
  \<open>pkg/agent/utils/flowsource.go\<close>.  What the code asks of the kernel and of the switch (the routing
  table, links and their addresses, port numbers) is the record \<open>net_sys\<close>.  \<open>MAC\<close> and \<open>MasterNic\<close>
  cache what they find in the configuration, so the configuration is passed along.
\<close>

section \<open>The metadata port of a card\<close>

record link_info =
  lkIsVeth :: bool
  lkPeerIndex :: "int result"
  lkAddrs4 :: "string list result"
  lkAddrs6 :: "(string \<times> bool) list result"
  lkHwAddr :: string

record link_attrs =
  laName :: string
  laMasterIndex :: int

record net_sys =
  nsRouteLookup :: "string \<Rightarrow> Route result"
  nsLinkByName :: "string \<Rightarrow> link_info result"
  nsLinkByIndex :: "int \<Rightarrow> link_attrs result"
  nsDumpPort :: "string \<Rightarrow> string \<Rightarrow> int result"
  nsNetif :: netif_env
  nsNewIf :: "string \<Rightarrow> SNetInterface"

text \<open>\<open>getMetadataInfo\<close>: address, IPv6 address, MAC address and port of the metadata service;
  \<open>None\<close> and errors stand for \<open>useLOCAL\<close>.\<close>

definition getMetadataInfo :: "net_sys \<Rightarrow> GuestNIC \<Rightarrow> (string \<times> string \<times> string \<times> int) option result" where
  "getMetadataInfo ns nic =
     (let ipStr = (if length (nicIP nic) = 0 then nicIP6 nic else nicIP nic)
      in res_bind (nsRouteLookup ns ipStr) (\<lambda>route.
         if rtDev route = nicBridge nic then Inr None
         else res_bind (nsLinkByName ns (rtDev route)) (\<lambda>link.
           if \<not> lkIsVeth link then Inr None
           else res_bind (lkPeerIndex link) (\<lambda>idx.
             res_bind (nsLinkByIndex ns idx) (\<lambda>attrs.
             res_bind
               (case nsDumpPort ns (nicBridge nic) (laName attrs) of
                  Inr p \<Rightarrow> Inr p
                | Inl e \<Rightarrow> res_bind (nsLinkByIndex ns (laMasterIndex attrs)) (\<lambda>masterLink.
                             nsDumpPort ns (nicBridge nic) (laName masterLink))) (\<lambda>p.
             res_bind (lkAddrs4 link) (\<lambda>addrs.
             res_bind (lkAddrs6 link) (\<lambda>addrs6.
               if addrs = [] \<and> addrs6 = [] then Inr None
               else Inr (Some
                 (if addrs \<noteq> [] then hd addrs else '''',
                  case find snd addrs6 of Some (a, _) \<Rightarrow> a | None \<Rightarrow> '''',
                  lkHwAddr link, p))))))))))"

definition isNicHostLocal :: "HostConfigNetwork \<Rightarrow> GuestNIC \<Rightarrow> bool" where
  "isNicHostLocal hcn nic \<longleftrightarrow> (\<exists>n \<in> set (hcnHostLocalNets hcn). nicNetId nic = ndId n)"

section \<open>The data of the templates\<close>

abbreviation put :: "tdata \<Rightarrow> string \<Rightarrow> tval \<Rightarrow> tdata" where
  "put m k v \<equiv> gm_set m k v"

definition put_nonempty :: "tdata \<Rightarrow> string \<Rightarrow> string \<Rightarrow> tdata" where
  "put_nonempty m k s = (if s \<noteq> '''' then put m k (TStr s) else m)"

definition opt_text :: "string option \<Rightarrow> string" where
  "opt_text x = (case x of None \<Rightarrow> '''' | Some s \<Rightarrow> s)"

definition metadata_data ::
  "net_sys \<Rightarrow> HostConfigNetwork \<Rightarrow> string \<Rightarrow> int option \<Rightarrow> GuestNIC \<Rightarrow> tdata \<Rightarrow> tdata" where
  "metadata_data ns hcn mac mdPort nic m =
     (let ipPhy = opt_text (case hcnIP hcn of Some ip \<Rightarrow> Some ip | None \<Rightarrow> hcnIPLocal hcn);
          ip6Phy = opt_text (hcnIP6Local hcn);
          m = put (put_nonempty (put_nonempty m ''IPPhy'' ipPhy) ''IP6Phy'' ip6Phy) ''MACPhy'' (TStr mac);
          (mdIP, mdIP6, mdMAC, mdInPort, mdPortAction) =
            (case getMetadataInfo ns nic of
               Inr (Some (ip, ip6, lmac, p)) \<Rightarrow> (ip, ip6, lmac, show_int p, ''output:'' @ show_int p)
             | _ \<Rightarrow> (ipPhy, ip6Phy, mac, ''LOCAL'', ''LOCAL''));
          m = (case mdPort of None \<Rightarrow> m | Some p \<Rightarrow> put m ''MetadataServerPort'' (TInt p));
          m = put_nonempty (put_nonempty m ''MetadataServerIP'' mdIP) ''MetadataServerIP6'' mdIP6
      in put (put (put m ''MetadataServerMAC'' (TStr mdMAC)) ''MetadataPortInPort'' (TStr mdInPort))
           ''MetadataPortAction'' (TStr mdPortAction))"

definition dl_vlan_data :: "GuestNIC \<Rightarrow> tdata \<Rightarrow> tdata" where
  "dl_vlan_data nic m =
     put m ''_dl_vlan''
       (TStr (tmpl m (if nicVLAN nic > 1 then ''dl_vlan={{.VLAN}}'' else ''vlan_tci={{.VLANTci}}'')))"

definition tstr :: "tdata \<Rightarrow> string \<Rightarrow> string result" where
  "tstr m k = (case gm_get m k of Some (TStr s) \<Rightarrow> Inr s | _ \<Rightarrow> Inl (Panic ''interface conversion''))"

section \<open>Metadata flows\<close>

definition md4_flows :: "digest \<Rightarrow> GuestNIC \<Rightarrow> int \<Rightarrow> string \<Rightarrow> string \<Rightarrow> tdata \<Rightarrow> tdata \<times> flow_spec list" where
  "md4_flows sha nic mdPort mdIP mdMAC m =
     (let (_, fakeSrcIp, fakeSrcMac) = fakeMdSrcIpMac sha mdIP mdMAC (nicPortNo nic);
          m = put (put m ''MetadataClientFakeIP'' (TStr fakeSrcIp)) ''MetadataClientFakeMAC'' (TStr fakeSrcMac);
          learnStr = ''learn(table=12,priority=10000,idle_timeout=30,in_port=LOCAL,dl_type=0x0800,nw_proto=6,nw_dst=''
            @ fakeSrcIp @ '',tcp_src='' @ show_int mdPort
            @ swap_eth @ '',load:NXM_OF_IP_DST[]->NXM_OF_IP_SRC[],load:NXM_OF_IP_SRC[]->NXM_OF_IP_DST[],load:0x50->NXM_OF_TCP_SRC[],output:NXM_OF_IN_PORT[]),''
      in (m,
          [fl 0 29301 (''in_port=LOCAL,arp,arp_op=1,arp_tpa='' @ fakeSrcIp) (FakeArpRespActions fakeSrcMac),
           fl 0 29300 (tmpl m ''in_port={{.PortNo}},tcp,nw_dst=169.254.169.254,tp_dst=80'')
             (learnStr @ tmpl m ''mod_dl_src:{{.MetadataClientFakeMAC}},mod_dl_dst:{{.MetadataServerMAC}},mod_nw_src:{{.MetadataClientFakeIP}},mod_nw_dst:{{.MetadataServerIP}},mod_tp_dst:{{.MetadataServerPort}},{{.MetadataPortAction}}'')]))"

definition ip6ToHex :: "addr_lib \<Rightarrow> string \<Rightarrow> string result" where
  "ip6ToHex lib s = nonnil (alIpHex lib s)"

definition md6_server_flows ::
  "addr_lib \<Rightarrow> digest \<Rightarrow> GuestNIC \<Rightarrow> int \<Rightarrow> string \<Rightarrow> string \<Rightarrow> tdata \<Rightarrow> nat \<times> string
   \<Rightarrow> flow_spec list result" where
  "md6_server_flows lib sha nic mdPort mdIP6 mdMAC m = (\<lambda>(i, metaSrvIp6).
     let T = tmpl m;
         (_, fakeIp6, fakeMac6) = fakeMdSrcIp6Mac sha mdIP6 mdMAC (nicPortNo nic) metaSrvIp6;
         mdMacHex = alMacHex lib mdMAC;
         fakeMacHex = alMacHex lib fakeMac6;
         learnMdNdpAdvStr = ''learn(table=12,priority=20000,idle_timeout=30,in_port=LOCAL,dl_type=0x86dd,nw_proto=58,icmpv6_type=136,dl_dst=''
           @ fakeMac6 @ '',ipv6_dst='' @ fakeIp6
           @ '',nd_target={{.MetadataServerIP6}},load:NXM_OF_ETH_SRC[]->NXM_OF_ETH_DST[],load:0x'' @ mdMacHex
           @ ''->NXM_OF_ETH_SRC[],load:NXM_NX_IPV6_SRC[]->NXM_NX_IPV6_DST[],load:NXM_NX_ND_TARGET[]->NXM_NX_IPV6_SRC[],load:NXM_NX_ND_TARGET[]->NXM_NX_ND_TARGET[],load:0x''
           @ mdMacHex @ ''->NXM_NX_ND_TLL[],output:NXM_OF_IN_PORT[]),'';
         learnHttpStr = ''learn(table=12,priority=10000,idle_timeout=30,in_port=LOCAL,dl_type=0x86dd,nw_proto=6,ipv6_dst=''
           @ fakeIp6 @ '',tcp_src='' @ show_int mdPort @ swap_eth
           @ '',load:NXM_NX_IPV6_DST[]->NXM_NX_IPV6_SRC[],load:NXM_NX_IPV6_SRC[]->NXM_NX_IPV6_DST[],load:0x50->NXM_OF_TCP_SRC[],output:NXM_OF_IN_PORT[]),''
     in res_bind (nonnil (alSolicitMcastIP lib mdIP6)) (\<lambda>mcastIP.
        res_bind (nonnil (alSolicitMcastMac lib mdIP6)) (\<lambda>mcastMac.
        res_bind (ip6ToHex lib fakeIp6) (\<lambda>fakeHex.
        res_bind (ip6ToHex lib mcastIP) (\<lambda>mcastHex.
        res_bind (ip6ToHex lib mdIP6) (\<lambda>mdHex.
        res_bind (ip6ToHex lib metaSrvIp6) (\<lambda>srvHex.
        res_bind (res_bind (tstr m ''IP6'') (ip6ToHex lib)) (\<lambda>vmHex.
        res_bind (res_bind (tstr m ''IP6McastIP'') (ip6ToHex lib)) (\<lambda>vmMcastHex.
        Inr
         [fl 0 (40011 + int i) (T (''in_port={{.PortNo}},ipv6,icmp6,icmp_type=135,nd_target='' @ metaSrvIp6))
            (T (learnMdNdpAdvStr @ ''mod_dl_src:'' @ fakeMac6 @ '',mod_dl_dst:'' @ mcastMac @ '',load:0x'' @ fakeHex
                @ ''->NXM_NX_IPV6_SRC[0..127],load:0x'' @ mcastHex @ ''->NXM_NX_IPV6_DST[0..127],load:0x'' @ mdHex
                @ ''->NXM_NX_ND_TARGET[0..127],load:0x'' @ fakeMacHex @ ''->NXM_NX_ND_SLL[],local'')),
          fl 0 (40012 + int i) (T (''in_port=LOCAL,ipv6,icmp6,icmp_type=135,nd_target='' @ fakeIp6))
            (T (''mod_dl_dst:{{.IP6McastMac}},load:0x'' @ srvHex @ ''->NXM_NX_IPV6_SRC[0..127],load:0x'' @ vmMcastHex
                @ ''->NXM_NX_IPV6_DST[0..127],load:0x'' @ vmHex @ ''->NXM_NX_ND_TARGET[0..127],output:{{.PortNo}}'')),
          fl 0 (40013 + int i)
            (T (''in_port={{.PortNo}},dl_src={{.MAC}},dl_dst={{.MetadataServerMAC}},ipv6_src={{.IP6}},ipv6_dst=''
                @ metaSrvIp6 @ '',icmp6,icmp_type=136,nd_target={{.IP6}}''))
            (T (''mod_dl_src:'' @ fakeMac6 @ '',load:0x'' @ fakeHex @ ''->NXM_NX_IPV6_SRC[0..127],load:0x'' @ mdHex
                @ ''->NXM_NX_IPV6_DST[0..127],load:0x'' @ fakeHex @ ''->NXM_NX_ND_TARGET[0..127],load:0x'' @ fakeMacHex
                @ ''->NXM_NX_ND_TLL[],local'')),
          fl 0 (29301 + int i) (T (''in_port={{.PortNo}},ipv6,tcp6,ipv6_dst='' @ metaSrvIp6 @ '',tp_dst=80''))
            (learnHttpStr @ T (''mod_dl_src:'' @ fakeMac6 @ '',mod_dl_dst:{{.MetadataServerMAC}},load:0x'' @ fakeHex
                @ ''->NXM_NX_IPV6_SRC[0..127],load:0x'' @ mdHex
                @ ''->NXM_NX_IPV6_DST[0..127],mod_tp_dst:{{.MetadataServerPort}},{{.MetadataPortAction}}''))])))))))))"

definition md_flows ::
  "addr_lib \<Rightarrow> digest \<Rightarrow> HostConfig \<Rightarrow> GuestNIC \<Rightarrow> tdata \<Rightarrow> (tdata \<times> flow_spec list) result" where
  "md_flows lib sha hc nic m =
     (case gm_get m ''MetadataServerPort'' of
        Some (TInt mdPort) \<Rightarrow>
          res_bind (tstr m ''MetadataServerMAC'') (\<lambda>mdMAC.
          let (m, fs4) = (case gm_get m ''MetadataServerIP'' of
                            Some (TStr mdIP) \<Rightarrow> if EnableIPv4 nic then md4_flows sha nic mdPort mdIP mdMAC m else (m, [])
                          | _ \<Rightarrow> (m, []))
          in case gm_get m ''MetadataServerIP6'' of
               Some (TStr mdIP6) \<Rightarrow>
                 if EnableIPv6 nic then
                   res_bind (nonnil (alSolicitMcastIP lib mdIP6)) (\<lambda>_.
                   res_bind (res_concat (md6_server_flows lib sha nic mdPort mdIP6 mdMAC m)
                               (List.enumerate 0 (optMetadataServerIp6s (hcOptions hc)))) (\<lambda>fs6.
                     Inr (m, fs4 @ fs6)))
                 else Inr (m, fs4)
             | _ \<Rightarrow> Inr (m, fs4))
      | _ \<Rightarrow> Inr (m, []))"

section \<open>Flows of security rules\<close>

definition eachIP :: "tdata \<Rightarrow> (tdata \<Rightarrow> flow_spec list) \<Rightarrow> flow_spec list" where
  "eachIP data cb =
     (let subs = (case gm_get data ''SubIPs'' of Some (TStrs ss) \<Rightarrow> ss | _ \<Rightarrow> []);
          ips = subs @ (case gm_get data ''IP'' of Some (TStr ip) \<Rightarrow> [ip] | _ \<Rightarrow> [])
      in concat (map (\<lambda>ip. cb (put data ''IP'' (TStr ip))) ips))"

text \<open>The flows of the rules of one direction: consecutive priorities from the highest down, one
  per match.  The bound on the priority is tested before each rule.\<close>

definition match_flows :: "int \<Rightarrow> int \<Rightarrow> string \<Rightarrow> string \<Rightarrow> string list \<Rightarrow> flow_spec list" where
  "match_flows table prio pre action ms =
     map (\<lambda>(i, m). fl table (prio - int i) (pre @ '','' @ m) action) (List.enumerate 0 ms)"

fun rule_flows :: "int \<Rightarrow> int \<Rightarrow> string \<Rightarrow> string \<Rightarrow> int \<Rightarrow> sec_rule list \<Rightarrow> flow_spec list" where
  "rule_flows table limit pre allow prio [] = []"
| "rule_flows table limit pre allow prio (r # rs) =
     (if prio \<le> limit then []
      else match_flows table prio pre (if OvsActionAllow r then allow else ''drop'') (OvsMatches r)
           @ rule_flows table limit pre allow (prio - int (length (OvsMatches r))) rs)"

definition zone_flows ::
  "bool \<Rightarrow> GuestNIC \<Rightarrow> tdata \<Rightarrow> string \<Rightarrow> string \<Rightarrow> flow_spec list" where
  "zone_flows srcIpCheck nic data loadReg0BitVm loadZone =
     (let T = tmpl data;
          ct = (\<lambda>d. loadZone @ tmpl d '',ct(table=1,zone={{.CT_ZONE}})'');
          ctVm = (\<lambda>d. loadReg0BitVm @ '','' @ ct d);
          drops = (\<lambda>proto.
            [fl 0 26860 (T (''in_port={{.PortNoPhy}},dl_dst={{.MAC}},{{._dl_vlan}},'' @ proto)) ''drop'',
             fl 0 25860 (T (''in_port={{.PortNo}},dl_src={{.MAC}},'' @ proto)) ''drop'',
             fl 0 24760 (T (''dl_dst={{.MAC}},'' @ proto)) ''drop''])
      in if \<not> srcIpCheck then
           concat (map (\<lambda>proto.
             [fl 0 26870 (T (''in_port={{.PortNoPhy}},dl_dst={{.MAC}},{{._dl_vlan}},'' @ proto)) (ct data),
              fl 0 25870 (T (''in_port={{.PortNo}},dl_src={{.MAC}},'' @ proto)) (ctVm data),
              fl 0 24770 (T (''dl_dst={{.MAC}},'' @ proto)) (ct data)]) [''ip'', ''ipv6''])
         else
           (if EnableIPv4 nic then
              eachIP data (\<lambda>d.
                [fl 0 26870 (tmpl d ''in_port={{.PortNoPhy}},dl_dst={{.MAC}},{{._dl_vlan}},ip,nw_dst={{.IP}}'') (ct d),
                 fl 0 25870 (tmpl d ''in_port={{.PortNo}},dl_src={{.MAC}},ip,nw_src={{.IP}}'') (ctVm d),
                 fl 0 24770 (tmpl d ''dl_dst={{.MAC}},ip,nw_dst={{.IP}}'') (ct d)])
              @ drops ''ip''
            else [])
           @ (if length (nicIP6 nic) > 0 then
                [fl 0 26870 (T ''in_port={{.PortNoPhy}},dl_dst={{.MAC}},{{._dl_vlan}},ipv6,ipv6_dst={{.IP6}}'') (ct data),
                 fl 0 25870 (T ''in_port={{.PortNo}},dl_src={{.MAC}},ipv6,ipv6_src={{.IP6}}'') (ctVm data),
                 fl 0 24770 (T ''dl_dst={{.MAC}},ipv6,ipv6_dst={{.IP6}}'') (ct data)]
                @ drops ''ipv6''
              else []))"

definition ct_flows :: "bool \<Rightarrow> tdata \<Rightarrow> string \<Rightarrow> flow_spec list" where
  "ct_flows allowInvalid data loadZoneDstVM =
     (let T = tmpl data
      in (if \<not> allowInvalid then
            [fl 1 7900 ''ip,ct_state=+inv+trk'' ''drop'', fl 1 7900 ''ipv6,ct_state=+inv+trk'' ''drop'']
          else
            [fl 1 7650 (T ''ip,ct_state=+inv+trk,{{._in_port_not_vm}}'') ''resubmit(,3)'',
             fl 1 7650 (T ''ipv6,ct_state=+inv+trk,{{._in_port_not_vm}}'') ''resubmit(,3)'',
             fl 1 7640 (T ''ip,ct_state=+inv+trk,{{._in_port_vm}}'') ''resubmit(,2)'',
             fl 1 7640 (T ''ipv6,ct_state=+inv+trk,{{._in_port_vm}}'') ''resubmit(,2)''])
         @ [fl 1 7800 (T ''ip,ct_state=+new+trk,{{._in_port_not_vm}}'') ''resubmit(,3)'',
            fl 1 7800 (T ''ipv6,ct_state=+new+trk,{{._in_port_not_vm}}'') ''resubmit(,3)'',
            fl 1 7700 (T ''ip,ct_state=+new+trk,{{._in_port_vm}}'') ''resubmit(,2)'',
            fl 1 7700 (T ''ipv6,ct_state=+new+trk,{{._in_port_vm}}'') ''resubmit(,2)'',
            fl 1 7600 ''ip'' ''resubmit(,4)'',
            fl 1 7600 ''ipv6'' ''resubmit(,4)'',
            fl 4 5600 (T ''ip,dl_dst={{.MAC}}'') (loadZoneDstVM @ '',resubmit(,5),''),
            fl 4 5600 (T ''ipv6,dl_dst={{.MAC}}'') (loadZoneDstVM @ '',resubmit(,5),''),
            fl 4 5500 ''ip'' ''ct(commit,zone=NXM_NX_REG0[0..15]),normal'',
            fl 4 5500 ''ipv6'' ''ct(commit,zone=NXM_NX_REG0[0..15]),normal''])"

definition commit_flows :: "tdata \<Rightarrow> flow_spec list" where
  "commit_flows data =
     (let T = tmpl data
      in [fl 3 30 ''ip'' ''ct(commit,zone=NXM_NX_REG0[0..15]),normal'',
          fl 3 30 ''ipv6'' ''ct(commit,zone=NXM_NX_REG0[0..15]),normal'',
          fl 5 20 (T ''ip,{{._in_port_not_vm}}'') ''ct(commit,zone=NXM_NX_REG1[0..15]),normal'',
          fl 5 20 (T ''ipv6,{{._in_port_not_vm}}'') ''ct(commit,zone=NXM_NX_REG1[0..15]),normal'',
          fl 5 10 (T ''ip,{{._in_port_vm}}'') ''ct(commit,zone=NXM_NX_REG1[0..15]),ct(commit,zone=NXM_NX_REG0[0..15]),normal'',
          fl 5 10 (T ''ipv6,{{._in_port_vm}}'') ''ct(commit,zone=NXM_NX_REG1[0..15]),ct(commit,zone=NXM_NX_REG0[0..15]),normal''])"

text \<open>The zone is an unsigned 16-bit number in the template data, so the comparison of that
  interface value with the integer 0 is false and the zone is always printed after \<open>0x\<close>.\<close>

definition zone_hex :: "tdata \<Rightarrow> string" where
  "zone_hex data = (case gm_get data ''CT_ZONE'' of Some (TInt z) \<Rightarrow> ''0x'' @ show_hex z | _ \<Rightarrow> ''0x%!x(<nil>)'')"

definition secrules_data :: "GuestNIC \<Rightarrow> tdata \<Rightarrow> tdata" where
  "secrules_data nic data =
     (let data = (if length (nicIP nic) > 0 then put data ''IP'' (TStr (nicIP nic)) else gm_del data ''IP'');
          data = (if length (nicIP6 nic) > 0 then put data ''IP6'' (TStr (nicIP6 nic)) else gm_del data ''IP6'')
      in put (put data ''_in_port_vm'' (TStr ''reg0=0x10000/0x10000'')) ''_in_port_not_vm'' (TStr ''reg0=0x0/0x10000''))"

definition SecurityRules_Flows ::
  "HostConfig \<Rightarrow> Guest \<Rightarrow> SecurityRules \<Rightarrow> GuestNIC \<Rightarrow> tdata \<Rightarrow> flow_spec list" where
  "SecurityRules_Flows hc g sr nic data0 =
     (let data = secrules_data nic data0;
          T = tmpl data;
          loadReg0BitVm = ''load:0x1->NXM_NX_REG0[16]'';
          loadZone = ''load:'' @ zone_hex data @ ''->NXM_NX_REG0[0..15]'';
          loadZoneDstVM = ''load:'' @ zone_hex data @ ''->NXM_NX_REG1[0..15]'';
          ct = loadZone @ T '',ct(table=1,zone={{.CT_ZONE}})''
      in [fl 0 27300 (T ''in_port=LOCAL,dl_dst={{.MAC}},ip'') ct,
          fl 0 27300 (T ''in_port=LOCAL,dl_dst={{.MAC}},ipv6'') ct]
         @ zone_flows (SrcIpCheck hc g) nic data loadReg0BitVm loadZone
         @ [fl 0 25600 (T ''in_port={{.PortNo}},dl_src={{.MAC}}'') ''normal'']
         @ ct_flows (optSdnAllowConntrackInvalid (hcOptions hc)) data loadZoneDstVM
         @ rule_flows 2 20 (T ''in_port={{.PortNo}}'') ''resubmit(,3)'' 40000 (outRules sr)
         @ rule_flows 3 30 (T ''dl_dst={{.MAC}}'') (loadZoneDstVM @ '',resubmit(,5)'') 40000 (inRules sr)
         @ commit_flows data)"

section \<open>Flows of a card\<close>

definition base_flows :: "tdata \<Rightarrow> flow_spec list" where
  "base_flows m =
     (let T = tmpl m
      in [fl 0 28400 (T ''in_port={{.PortNo}},ip,udp,tp_src=68,tp_dst=67'') (T ''mod_tp_dst:{{.DHCPServerPort}},local''),
          fl 0 28300 (T ''in_port=LOCAL,dl_dst={{.MAC}},ip,udp,tp_src={{.DHCPServerPort}},tp_dst=68'') (T ''mod_tp_src:67,output:{{.PortNo}}''),
          fl 0 28400 (T ''in_port={{.PortNo}},ipv6,udp6,tp_src=546,tp_dst=547'') (T ''mod_dl_dst:{{.MACPhy}},mod_tp_dst:{{.DHCPServerPort6}},local''),
          fl 0 28300 (T ''in_port=LOCAL,dl_dst={{.MAC}},ipv6,udp6,tp_src={{.DHCPServerPort6}},tp_dst=546'') (T ''mod_tp_src:547,output:{{.PortNo}}''),
          fl 0 28400 (T ''in_port={{.PortNo}},ipv6,icmp6,icmp_type=133'') (T ''mod_dl_dst:{{.MACPhy}},local''),
          fl 0 28300 (T ''in_port=LOCAL,dl_dst={{.MAC}},ipv6,icmp6,icmp_type=134'') (T ''mod_dl_dst:33:33:00:00:00:01,output:{{.PortNo}}''),
          fl 0 26700 (T ''in_port={{.PortNoPhy}},dl_dst={{.MAC}},{{._dl_vlan}}'') ''normal''])"

text \<open>Neighbour discovery and ARP from the card, without and with a check of the source address.\<close>

definition nosrcmac_flows :: "GuestNIC \<Rightarrow> tdata \<Rightarrow> flow_spec list" where
  "nosrcmac_flows nic m =
     [fl 0 24670 (tmpl m ''in_port={{.PortNo}}'') ''normal'']
     @ (if EnableIPv6 nic then
          [fl 0 27770 (tmpl m ''in_port={{.PortNo}},ipv6,icmp6,icmp_type=135'') ''normal'',
           fl 0 27770 (tmpl m ''in_port={{.PortNo}},ipv6,icmp6,icmp_type=136'') ''normal'']
        else [])"

definition nosrcip_flows :: "GuestNIC \<Rightarrow> tdata \<Rightarrow> flow_spec list" where
  "nosrcip_flows nic m =
     [fl 0 27770 (tmpl m ''in_port={{.PortNo}},arp,dl_src={{.MAC}},arp_sha={{.MAC}}'') ''normal'']
     @ (if EnableIPv6 nic then
          [fl 0 27770 (tmpl m ''in_port={{.PortNo}},dl_src={{.MAC}},ipv6,icmp6,icmp_type=135'') ''normal'',
           fl 0 27770 (tmpl m ''in_port={{.PortNo}},dl_src={{.MAC}},ipv6,icmp6,icmp_type=136'') ''normal'']
        else [])"

definition arp_flows :: "addr_lib \<Rightarrow> HostConfigNetwork \<Rightarrow> GuestNIC \<Rightarrow> tdata \<Rightarrow> flow_spec list result" where
  "arp_flows lib hcn nic m =
     (if EnableIPv4 nic then
        (if IsOnHostLocalBridge nic \<or> isNicHostLocal hcn nic then
           (case alIPV4Addr lib (nicGateway nic) of
              None \<Rightarrow> Inr []
            | Some gw \<Rightarrow> res_bind (NetAddr gw (nicMasklen nic)) (\<lambda>gwNetAddr.
                Inr (eachIP m (\<lambda>d.
                  [fl 0 39011 (tmpl d (''in_port=LOCAL,arp,arp_op=1,arp_spa='' @ nicGateway nic @ '',arp_tpa={{.IP}}''))
                     (FakeArpRespActions (nicMAC nic)),
                   fl 0 39010 (tmpl d (''in_port={{.PortNo}},arp,arp_op=1,dl_src={{.MAC}},arp_sha={{.MAC}},arp_spa={{.IP}},arp_tpa=''
                                  @ ip4_String gwNetAddr @ ''/'' @ show_int (nicMasklen nic)))
                     (FakeArpRespActions (mac_String (hcnMac hcn)))]))))
         else Inr (eachIP m (\<lambda>d.
                [fl 0 27770 (tmpl d ''in_port={{.PortNo}},arp,dl_src={{.MAC}},arp_sha={{.MAC}},arp_spa={{.IP}}'') ''normal''])))
      else Inr [])"

definition nd_flows :: "GuestNIC \<Rightarrow> tdata \<Rightarrow> flow_spec list" where
  "nd_flows nic m =
     (if EnableIPv6 nic then
        [fl 0 27774 (tmpl m ''in_port={{.PortNo}},dl_src={{.MAC}},ipv6,ipv6_src={{.IP6}},icmp6,icmp_type=135'') ''normal'',
         fl 0 27773 (tmpl m ''in_port={{.PortNo}},dl_src={{.MAC}},ipv6,ipv6_src={{.IP6LOCAL}},icmp6,icmp_type=135'') ''normal'',
         fl 0 27772 (tmpl m ''in_port={{.PortNo}},dl_src={{.MAC}},ipv6,ipv6_src={{.IP6}},icmp6,icmp_type=136'') ''normal'',
         fl 0 27771 (tmpl m ''in_port={{.PortNo}},dl_src={{.MAC}},ipv6,ipv6_src={{.IP6LOCAL}},icmp6,icmp_type=136'') ''normal'']
      else [])"

text \<open>The flows that take the place of the security rules when these are disabled.\<close>

definition nosecgroup_flows :: "bool \<Rightarrow> GuestNIC \<Rightarrow> tdata \<Rightarrow> flow_spec list" where
  "nosecgroup_flows srcIpCheck nic m =
     (let T = tmpl m;
          three = (\<lambda>d p1 p2 p3 src dst act.
            [fl 0 p1 (tmpl d (''in_port={{.PortNoPhy}},dl_dst={{.MAC}},{{._dl_vlan}},'' @ dst)) act,
             fl 0 p2 (tmpl d (''in_port={{.PortNo}},dl_src={{.MAC}},'' @ src)) act,
             fl 0 p3 (tmpl d (''dl_dst={{.MAC}},'' @ dst)) act])
      in if \<not> srcIpCheck then
           three m 26870 25870 24770 ''ip'' ''ip'' ''normal''
           @ (if EnableIPv6 nic then three m 26870 25870 24770 ''ipv6'' ''ipv6'' ''normal'' else [])
         else
           (if EnableIPv4 nic then
              eachIP m (\<lambda>d. three d 26870 25870 24770 ''ip,nw_src={{.IP}}'' ''ip,nw_dst={{.IP}}'' ''normal'')
              @ three m 26860 25860 24760 ''ip'' ''ip'' ''drop''
            else [])
           @ (if EnableIPv6 nic then
                three m 26870 25870 24770 ''ipv6,ipv6_src={{.IP6}}'' ''ipv6,ipv6_dst={{.IP6}}'' ''normal''
                @ three m 26871 25871 24771 ''ipv6,ipv6_src={{.IP6LOCAL}}'' ''ipv6,ipv6_dst={{.IP6LOCAL}}'' ''normal''
                @ three m 26860 25860 24760 ''ipv6'' ''ipv6'' ''drop''
              else []))"

text \<open>The environment of the generation of flows.\<close>

record flow_env =
  feLib :: addr_lib
  feSha :: digest
  feParse6 :: "string \<Rightarrow> string option"
  feNet :: net_sys

text \<open>\<open>MAC\<close> of the network with a given index, cached in the configuration.\<close>

definition hc_MAC :: "flow_env \<Rightarrow> HostConfig \<Rightarrow> nat \<Rightarrow> HostConfig \<times> string result" where
  "hc_MAC env hc i =
     (let (n, r) = HostConfigNetwork_MAC (feParse6 env) (nsNetif (feNet env)) (hcNetworks hc ! i)
      in (hc\<lparr>hcNetworks := (hcNetworks hc)[i := n]\<rparr>, r))"

definition network_index :: "HostConfig \<Rightarrow> string \<Rightarrow> nat option" where
  "network_index hc bridge =
     find (\<lambda>i. hcnBridge (hcNetworks hc ! i) = bridge) [0..<length (hcNetworks hc)]"

text \<open>The mapping flows that a card on the host-local bridge adds to the other bridges.\<close>

definition append_flows :: "flows_map \<Rightarrow> string \<Rightarrow> flow_spec list \<Rightarrow> flows_map" where
  "append_flows fm bridge fs =
     (case gm_get fm bridge of None \<Rightarrow> gm_set fm bridge fs | Some old \<Rightarrow> gm_set fm bridge (old @ fs))"

fun mapping_loop ::
  "flow_env \<Rightarrow> GuestNIC \<Rightarrow> HostConfig \<Rightarrow> flows_map \<Rightarrow> nat list \<Rightarrow> HostConfig \<times> flows_map result" where
  "mapping_loop env nic hc fm [] = (hc, Inr fm)"
| "mapping_loop env nic hc fm (i # is) =
     (let hcn = hcNetworks hc ! i
      in if hcnBridge hcn = nicBridge nic \<or> hcnIP hcn = None \<or> hcnIfname hcn = ''''
         then mapping_loop env nic hc fm is
         else case hc_MAC env hc i of
                (hc', Inl e) \<Rightarrow> mapping_loop env nic hc' fm is
              | (hc', Inr mac) \<Rightarrow>
                  (case guestNicPortMappingFlows nic (- 1) (nicIP nic) mac 0 '''' of
                     Inl e \<Rightarrow> (hc', Inl e)
                   | Inr fs \<Rightarrow> mapping_loop env nic hc' (append_flows fm (hcnBridge hcn) fs) is))"

definition mapping_flows ::
  "flow_env \<Rightarrow> GuestNIC \<Rightarrow> tdata \<Rightarrow> int \<Rightarrow> HostConfig
   \<Rightarrow> HostConfig \<times> (flows_map \<times> flow_spec list) result" where
  "mapping_flows env nic m portNoPhy hc =
     (if \<not> (EnableIPv4 nic \<and> length (nicPortMappings nic) > 0) then (hc, Inr ([], []))
      else if IsOnHostLocalBridge nic then
        (case mapping_loop env nic hc [] [0..<length (hcNetworks hc)] of
           (hc, Inl e) \<Rightarrow> (hc, Inl e)
         | (hc, Inr fm) \<Rightarrow>
             let (hc, master) = MasterNic (nsNewIf (feNet env)) hc
             in (hc, res_bind (case master of None \<Rightarrow> Inl (Panic ''nil master nic'') | Some n \<Rightarrow> Inr (nifAddr n)) (\<lambda>addr.
                     res_bind (tstr m ''MACPhy'') (\<lambda>gwMAC.
                     res_bind (guestNicPortMappingFlowsLocal nic addr gwMAC (nicPortNo nic) (nicIP nic) (nicMAC nic)) (\<lambda>fs.
                       Inr (fm, fs))))))
      else
        (hc, res_bind (tstr m ''_dl_vlan'') (\<lambda>vlan.
             res_bind (guestNicPortMappingFlows nic (nicPortNo nic) (nicIP nic) (nicMAC nic) portNoPhy vlan) (\<lambda>fs.
               Inr ([], fs)))))"

definition srcmac_flows ::
  "flow_env \<Rightarrow> HostConfigNetwork \<Rightarrow> Guest \<Rightarrow> GuestNIC \<Rightarrow> tdata \<Rightarrow> int \<Rightarrow> HostConfig
   \<Rightarrow> HostConfig \<times> (flows_map \<times> flow_spec list) result" where
  "srcmac_flows env hcn g nic m portNoPhy hc =
     (case (if \<not> SrcIpCheck hc g then Inr (nosrcip_flows nic m)
            else res_bind (arp_flows (feLib env) hcn nic m) (\<lambda>fs. Inr (fs @ nd_flows nic m))) of
        Inl e \<Rightarrow> (hc, Inl e)
      | Inr arps \<Rightarrow>
          let (hc', r) = mapping_flows env nic m portNoPhy hc
          in (hc', res_bind r (\<lambda>(fm, maps). Inr (fm,
               arps @ maps
               @ (if optDisableSecurityGroup (hcOptions hc) then nosecgroup_flows (SrcIpCheck hc g) nic m else [])
               @ [fl 0 25760 (tmpl m ''in_port={{.PortNo}},arp'') ''drop'',
                  fl 0 24660 (tmpl m ''in_port={{.PortNo}}'') ''drop'']))))"

text \<open>The data of the templates of a card, once the network and its MAC address are known.\<close>

definition nic_data ::
  "flow_env \<Rightarrow> HostConfig \<Rightarrow> HostConfigNetwork \<Rightarrow> string \<Rightarrow> int option \<Rightarrow> int \<Rightarrow> GuestNIC \<Rightarrow> tdata \<Rightarrow> tdata" where
  "nic_data env hc hcn mac mdPort portNoPhy nic m =
     dl_vlan_data nic (metadata_data (feNet env) hcn mac mdPort nic
       (put (put (put m ''DHCPServerPort'' (TInt (optDhcpServerPort (hcOptions hc))))
              ''DHCPServerPort6'' (TInt (optDhcp6ServerPort (hcOptions hc))))
         ''PortNoPhy'' (TInt portNoPhy)))"

definition secgroup_flows :: "HostConfig \<Rightarrow> Guest \<Rightarrow> GuestNIC \<Rightarrow> tdata \<Rightarrow> flow_spec list result" where
  "secgroup_flows hc g nic m =
     (if optDisableSecurityGroup (hcOptions hc) then Inr []
      else case GetNicSecurityRules g nic of
             None \<Rightarrow> Inl (Panic ''nil security rules'')
           | Some sr \<Rightarrow> Inr (SecurityRules_Flows hc g sr nic m))"

definition nic_flows ::
  "flow_env \<Rightarrow> HostConfigNetwork \<Rightarrow> Guest \<Rightarrow> GuestNIC \<Rightarrow> tdata \<Rightarrow> int \<Rightarrow> HostConfig
   \<Rightarrow> HostConfig \<times> flows_map result" where
  "nic_flows env hcn g nic m0 portNoPhy hc =
     (case md_flows (feLib env) (feSha env) hc nic m0 of
        Inl e \<Rightarrow> (hc, Inl e)
      | Inr (m, mds) \<Rightarrow>
          let (hc', r) = (if \<not> SrcMacCheck hc g then (hc, Inr ([], nosrcmac_flows nic m))
                          else srcmac_flows env hcn g nic m portNoPhy hc)
          in (hc', res_bind r (\<lambda>(fm, fs).
                   res_bind (secgroup_flows hc g nic m) (\<lambda>secs.
                     Inr (gm_set fm (nicBridge nic) (mds @ base_flows m @ fs @ secs))))))"

definition FlowsMapForNic ::
  "flow_env \<Rightarrow> (string \<Rightarrow> int option) \<Rightarrow> Guest \<Rightarrow> HostConfig \<Rightarrow> GuestNIC
   \<Rightarrow> HostConfig \<times> flows_map result" where
  "FlowsMapForNic env mdPort g hc nic =
     (if nicPortNo nic \<le> 0 then (hc, Inl (Err ''nic.PortNo <= 0''))
      else case network_index hc (nicBridge nic) of
             None \<Rightarrow> (hc, Inl (Err ''no host network config''))
           | Some i \<Rightarrow>
               (case (if \<not> IsOnHostLocalBridge nic
                      then nsDumpPort (feNet env) (nicBridge nic) (hcnIfname (hcNetworks hc ! i))
                      else Inr (- 1)) of
                  Inl e \<Rightarrow> (hc, Inl (Err ''fetch phy port_no failed''))
                | Inr portNoPhy \<Rightarrow>
                    (case GuestNIC_Map (feLib env) nic of
                       Inl e \<Rightarrow> (hc, Inl e)
                     | Inr m \<Rightarrow>
                         (case hc_MAC env hc i of
                            (hc, Inl e) \<Rightarrow> (hc, Inl (Err ''host network find ip mac''))
                          | (hc, Inr mac) \<Rightarrow>
                              let hcn = hcNetworks hc ! i
                              in nic_flows env hcn g nic
                                   (nic_data env hc hcn mac (mdPort (nicBridge nic)) portNoPhy nic m)
                                   portNoPhy hc))))"

text \<open>\<open>FlowsMap\<close> merges the flows of the cards by bridge.  A card that fails with an error is left
  out and reported at the end; a panic is not recovered.\<close>

fun merge_flows_map :: "flows_map \<Rightarrow> flows_map \<Rightarrow> flows_map" where
  "merge_flows_map r [] = r"
| "merge_flows_map r ((b, fs) # fm) = merge_flows_map (append_flows r b fs) fm"

fun FlowsMap_loop ::
  "flow_env \<Rightarrow> (string \<Rightarrow> int option) \<Rightarrow> Guest \<Rightarrow> HostConfig \<Rightarrow> flows_map \<Rightarrow> bool \<Rightarrow> GuestNIC list
   \<Rightarrow> HostConfig \<times> (flows_map \<times> bool) result" where
  "FlowsMap_loop env mdPort g hc r allGood [] = (hc, Inr (r, allGood))"
| "FlowsMap_loop env mdPort g hc r allGood (nic # nics) =
     (case FlowsMapForNic env mdPort g hc nic of
        (hc', Inl (Panic e)) \<Rightarrow> (hc', Inl (Panic e))
      | (hc', Inl (Err e)) \<Rightarrow> FlowsMap_loop env mdPort g hc' r False nics
      | (hc', Inr fm) \<Rightarrow> FlowsMap_loop env mdPort g hc' (merge_flows_map r fm) allGood nics)"

definition FlowsMap ::
  "flow_env \<Rightarrow> (string \<Rightarrow> int option) \<Rightarrow> Guest \<Rightarrow> HostConfig
   \<Rightarrow> HostConfig \<times> (flows_map \<times> unit result) result" where
  "FlowsMap env mdPort g hc =
     (let (hc', r) = FlowsMap_loop env mdPort g hc [] True (gNICs g)
      in (hc', res_bind r (\<lambda>(fm, allGood).
            Inr (fm, if allGood then Inr () else Inl (Err ''not all nics ready'')))))"

section \<open>Cards that are not ready\<close>

text \<open>The flows of a card do not depend on the other cards of the guest.\<close>

lemma other_nics_checks:
  "SrcIpCheck hc (g\<lparr>gNICs := x\<rparr>) = SrcIpCheck hc g"
  "SrcMacCheck hc (g\<lparr>gNICs := x\<rparr>) = SrcMacCheck hc g"
  "GetNicSecurityRules (g\<lparr>gNICs := x\<rparr>) nic = GetNicSecurityRules g nic"
  by (simp_all add: SrcIpCheck_def SrcMacCheck_def GetNicSecurityRules_def split: option.split)

lemma FlowsMapForNic_other_nics [simp]:
  "FlowsMapForNic env mdPort (g\<lparr>gNICs := x\<rparr>) hc nic = FlowsMapForNic env mdPort g hc nic"
  unfolding FlowsMapForNic_def nic_flows_def srcmac_flows_def secgroup_flows_def
    SecurityRules_Flows_def other_nics_checks ..

lemma FlowsMap_loop_other_nics [simp]:
  "FlowsMap_loop env mdPort (g\<lparr>gNICs := x\<rparr>) hc r ok nics = FlowsMap_loop env mdPort g hc r ok nics"
  by (induction nics arbitrary: hc r ok) (auto split: prod.splits sum.splits go_error.splits)

definition with_flag :: "bool \<Rightarrow> HostConfig \<times> (flows_map \<times> bool) result \<Rightarrow> HostConfig \<times> (flows_map \<times> bool) result" where
  "with_flag b L = (fst L, res_bind (snd L) (\<lambda>(fm, good). Inr (fm, good \<and> b)))"

lemma with_flag_True [simp]: "with_flag True L = L"
  by (cases L; cases "snd L") (auto simp: with_flag_def)

lemma with_flag_with_flag [simp]: "with_flag a (with_flag b L) = with_flag (a \<and> b) L"
  by (cases L; cases "snd L") (auto simp: with_flag_def)

lemma with_flag_simps [simp]:
  "with_flag b (hc, Inl e) = (hc, Inl e)" "with_flag b (hc, Inr (fm, good)) = (hc, Inr (fm, good \<and> b))"
  by (simp_all add: with_flag_def)

lemma FlowsMap_loop_flag:
  "FlowsMap_loop env mdPort g hc r ok nics = with_flag ok (FlowsMap_loop env mdPort g hc r True nics)"
proof (induction nics arbitrary: hc r ok)
  case (Cons nic nics)
  show ?case
    using Cons.IH [of _ _ ok] Cons.IH [of _ _ False]
    by (cases ok) (auto split: prod.splits sum.splits go_error.splits)
qed simp

lemma FlowsMap_loop_ready:
  "FlowsMap_loop env mdPort g hc r True nics =
   with_flag (list_all (\<lambda>n. 0 < nicPortNo n) nics)
     (FlowsMap_loop env mdPort g hc r True (filter (\<lambda>n. 0 < nicPortNo n) nics))"
proof (induction nics arbitrary: hc r)
  case (Cons nic nics)
  note IH = Cons.IH
  show ?case
  proof (cases "0 < nicPortNo nic")
    case True
    then show ?thesis
      using IH FlowsMap_loop_flag [of env mdPort g _ _ False nics]
        FlowsMap_loop_flag [of env mdPort g _ _ False "filter (\<lambda>n. 0 < nicPortNo n) nics"]
      by (auto split: prod.splits sum.splits go_error.splits)
  next
    case False
    then have "FlowsMapForNic env mdPort g hc nic = (hc, Inl (Err ''nic.PortNo <= 0''))"
      by (simp add: FlowsMapForNic_def)
    then have "FlowsMap_loop env mdPort g hc r True (nic # nics) = FlowsMap_loop env mdPort g hc r False nics"
      by simp
    with False IH [of hc r] show ?thesis by (subst (asm) FlowsMap_loop_flag) simp
  qed
qed simp

text \<open>C19: cards without a port number are left out and do not disturb the others: the flows of a
  guest are those of the guest with only its ready cards, and the call reports that not all
  cards are ready.\<close>

theorem FlowsMap_skips_unready:
  "FlowsMap env mdPort g hc =
   (let (hc', x) = FlowsMap env mdPort (g\<lparr>gNICs := filter (\<lambda>n. 0 < nicPortNo n) (gNICs g)\<rparr>) hc
    in (hc', res_bind x (\<lambda>(fm, e). Inr (fm, if list_all (\<lambda>n. 0 < nicPortNo n) (gNICs g) then e
                                            else Inl (Err ''not all nics ready'')))))"
  unfolding FlowsMap_def FlowsMap_loop_ready [of _ _ _ _ _ "gNICs g"]
  by (cases "FlowsMap_loop env mdPort g hc [] True (filter (\<lambda>n. 0 < nicPortNo n) (gNICs g))";
      cases "snd (FlowsMap_loop env mdPort g hc [] True (filter (\<lambda>n. 0 < nicPortNo n) (gNICs g)))")
     auto

end
