(* ===== verification/SecGroup.thy ===== *)
theory SecGroup
  imports GuestFlows
begin

text \<open>
  What the flows of the security rules do in a switch.  A table of the switch answers a packet
  with the action of its matching flow of highest priority; the theorems below show that the
  tables 2 and 3 the agent generates answer with the decision of the first rule, in list order,
  that matches the packet.  How the switch reads the text of a match is a parameter.
\<close>

section \<open>Tables\<close>

definition table_of :: "int \<Rightarrow> flow_spec list \<Rightarrow> flow_spec list" where
  "table_of t fs = filter (\<lambda>f. fsTable f = t) fs"

text \<open>A flow wins when it matches and every other matching flow has a lower priority.\<close>

definition wins :: "(string \<Rightarrow> 'p \<Rightarrow> bool) \<Rightarrow> flow_spec list \<Rightarrow> 'p \<Rightarrow> flow_spec \<Rightarrow> bool" where
  "wins sat fs p f \<longleftrightarrow> f \<in> set fs \<and> sat (fsMatches f) p \<and>
     (\<forall>f'\<in>set fs. sat (fsMatches f') p \<longrightarrow> f' = f \<or> fsPriority f' < fsPriority f)"

definition answers :: "(string \<Rightarrow> 'p \<Rightarrow> bool) \<Rightarrow> flow_spec list \<Rightarrow> 'p \<Rightarrow> string option \<Rightarrow> bool" where
  "answers sat fs p a =
     (case a of
        None \<Rightarrow> (\<forall>f\<in>set fs. \<not> sat (fsMatches f) p)
      | Some act \<Rightarrow> (\<exists>f. wins sat fs p f \<and> fsActions f = act))"

text \<open>The specification: the first rule with a match that the packet satisfies.\<close>

definition rule_sat :: "(string \<Rightarrow> 'p \<Rightarrow> bool) \<Rightarrow> string \<Rightarrow> sec_rule \<Rightarrow> 'p \<Rightarrow> bool" where
  "rule_sat sat pre r p \<longleftrightarrow> (\<exists>m\<in>set (OvsMatches r). sat (pre @ '','' @ m) p)"

definition first_rule :: "(string \<Rightarrow> 'p \<Rightarrow> bool) \<Rightarrow> string \<Rightarrow> sec_rule list \<Rightarrow> 'p \<Rightarrow> sec_rule option" where
  "first_rule sat pre rs p = find (\<lambda>r. rule_sat sat pre r p) rs"

definition match_count :: "sec_rule list \<Rightarrow> nat" where
  "match_count rs = sum_list (map (\<lambda>r. length (OvsMatches r)) rs)"

section \<open>Blocks of descending priorities\<close>

lemma answers_unique:
  "answers sat fs p a \<Longrightarrow> answers sat fs p b \<Longrightarrow> a = b"
  by (cases a; cases b) (auto simp: answers_def wins_def, fastforce)

lemma answers_append:
  assumes "\<And>f f'. f \<in> set fs \<Longrightarrow> f' \<in> set gs \<Longrightarrow> fsPriority f' < fsPriority f"
    and "answers sat fs p a" "answers sat gs p b"
  shows "answers sat (fs @ gs) p (case a of None \<Rightarrow> b | Some act \<Rightarrow> Some act)"
proof (cases a)
  case None
  with assms(2,3) show ?thesis by (cases b) (auto simp: answers_def wins_def)
next
  case (Some act)
  then obtain f where "wins sat fs p f" "fsActions f = act" using assms(2) by (auto simp: answers_def)
  moreover from this(1) have "wins sat (fs @ gs) p f" using assms(1) by (auto simp: wins_def)
  ultimately show ?thesis using Some by (auto simp: answers_def)
qed

lemma match_flows_Nil [simp]: "match_flows t prio pre act [] = []"
  by (simp add: match_flows_def)

lemma match_flows_Cons:
  "match_flows t prio pre act (m # ms) =
     fl t prio (pre @ '','' @ m) act # match_flows t (prio - 1) pre act ms"
  by (simp add: match_flows_def enumerate_Suc_eq [of 0, simplified] case_prod_unfold algebra_simps)

lemma fl_simps [simp]:
  "fsTable (fl t p m a) = t" "fsPriority (fl t p m a) = p"
  "fsMatches (fl t p m a) = m" "fsActions (fl t p m a) = a"
  by (simp_all add: fl_def)

lemma match_flows_prio:
  "f \<in> set (match_flows t prio pre act ms) \<Longrightarrow>
   prio - int (length ms) < fsPriority f \<and> fsPriority f \<le> prio \<and> fsTable f = t"
  by (induction ms arbitrary: prio) (auto simp: match_flows_Cons, fastforce+)

lemma match_flows_answers:
  "answers sat (match_flows t prio pre act ms) p
     (if \<exists>m\<in>set ms. sat (pre @ '','' @ m) p then Some act else None)"
proof (induction ms arbitrary: prio)
  case (Cons m ms)
  have one: "answers sat [fl t prio (pre @ '','' @ m) act] p (if sat (pre @ '','' @ m) p then Some act else None)"
    by (auto simp: answers_def wins_def)
  have "answers sat ([fl t prio (pre @ '','' @ m) act] @ match_flows t (prio - 1) pre act ms) p
      (case (if sat (pre @ '','' @ m) p then Some act else None) of
         None \<Rightarrow> (if \<exists>m\<in>set ms. sat (pre @ '','' @ m) p then Some act else None) | Some a \<Rightarrow> Some a)"
    by (rule answers_append [OF _ one Cons.IH]) (auto dest: match_flows_prio)
  then show ?case by (auto simp: match_flows_Cons split: if_splits)
qed (simp add: answers_def)

lemma rule_flows_prio:
  "f \<in> set (rule_flows t limit pre allow prio rs) \<Longrightarrow> fsPriority f \<le> prio \<and> fsTable f = t"
proof (induction rs arbitrary: prio)
  case (Cons r rs)
  then show ?case by (fastforce dest: match_flows_prio split: if_splits)
qed simp

text \<open>With room for all matches above the limit the flows answer with the first rule.\<close>

lemma rule_flows_answers:
  "int (match_count rs) + limit \<le> prio \<Longrightarrow> \<forall>r\<in>set rs. OvsMatches r \<noteq> [] \<Longrightarrow>
   answers sat (rule_flows t limit pre allow prio rs) p
     (map_option (\<lambda>r. if OvsActionAllow r then allow else ''drop'') (first_rule sat pre rs p))"
proof (induction rs arbitrary: prio)
  case (Cons r rs)
  let ?act = "if OvsActionAllow r then allow else ''drop''"
  let ?rest = "rule_flows t limit pre allow (prio - int (length (OvsMatches r))) rs"
  have "int (match_count (r # rs)) = int (length (OvsMatches r)) + int (match_count rs)"
    by (simp add: match_count_def)
  moreover have "0 < length (OvsMatches r)" using Cons.prems(2) by auto
  ultimately have "\<not> prio \<le> limit" using Cons.prems(1) by linarith
  then have step: "rule_flows t limit pre allow prio (r # rs)
      = match_flows t prio pre ?act (OvsMatches r) @ ?rest" by simp
  have IH: "answers sat ?rest p
      (map_option (\<lambda>r. if OvsActionAllow r then allow else ''drop'') (first_rule sat pre rs p))"
    using Cons.prems by (intro Cons.IH) (auto simp: match_count_def)
  have "answers sat (rule_flows t limit pre allow prio (r # rs)) p
      (case (if rule_sat sat pre r p then Some ?act else None) of
         None \<Rightarrow> map_option (\<lambda>r. if OvsActionAllow r then allow else ''drop'') (first_rule sat pre rs p)
       | Some a \<Rightarrow> Some a)"
    unfolding step rule_sat_def
    by (rule answers_append [OF _ match_flows_answers IH])
       (auto dest!: match_flows_prio rule_flows_prio)
  then show ?case by (auto simp: first_rule_def split: if_splits)
qed (simp add: first_rule_def answers_def)

lemma rule_flows_above:
  "int (match_count rs) + limit \<le> prio \<Longrightarrow>
   f \<in> set (rule_flows t limit pre allow prio rs) \<Longrightarrow> limit < fsPriority f"
proof (induction rs arbitrary: prio)
  case (Cons r rs)
  have fits: "int (match_count rs) + limit \<le> prio - int (length (OvsMatches r))"
    using Cons.prems(1) by (simp add: match_count_def)
  have "limit \<le> prio - int (length (OvsMatches r))" using fits by linarith
  with Cons.prems(2) Cons.IH [OF fits] show ?case by (auto dest!: match_flows_prio split: if_splits)
qed simp

text \<open>Every rule has a match.\<close>

lemma OvsMatches_ne [simp]: "OvsMatches r \<noteq> []"
  by (simp add: OvsMatches_def Let_def case_prod_unfold)

section \<open>The tables of the generated flows\<close>

lemma table_of_simps [simp]:
  "table_of t [] = []"
  "table_of t (f # fs) = (if fsTable f = t then f # table_of t fs else table_of t fs)"
  "table_of t (fs @ gs) = table_of t fs @ table_of t gs"
  by (simp_all add: table_of_def)

lemma table_of_none: "(\<And>f. f \<in> set fs \<Longrightarrow> fsTable f \<noteq> t) \<Longrightarrow> table_of t fs = []"
  by (auto simp: table_of_def filter_empty_conv)

lemma table_of_rules [simp]:
  "table_of t (rule_flows t' limit pre allow prio rs)
   = (if t = t' then rule_flows t' limit pre allow prio rs else [])"
  by (auto simp: table_of_def filter_empty_conv filter_id_conv dest: rule_flows_prio)

lemma table_of_zone [simp]: "t \<noteq> 0 \<Longrightarrow> table_of t (zone_flows c nic d a b) = []"
  by (rule table_of_none) (auto simp: zone_flows_def eachIP_def Let_def split: if_splits)

lemma tables_of_Flows:
  "table_of 2 (SecurityRules_Flows hc g sr nic data) =
     rule_flows 2 20 (tmpl (secrules_data nic data) ''in_port={{.PortNo}}'') ''resubmit(,3)'' 40000 (outRules sr)"
  "table_of 3 (SecurityRules_Flows hc g sr nic data) =
     rule_flows 3 30 (tmpl (secrules_data nic data) ''dl_dst={{.MAC}}'')
       (''load:'' @ zone_hex (secrules_data nic data) @ ''->NXM_NX_REG1[0..15],resubmit(,5)'') 40000 (inRules sr)
     @ [fl 3 30 ''ip'' ''ct(commit,zone=NXM_NX_REG0[0..15]),normal'',
        fl 3 30 ''ipv6'' ''ct(commit,zone=NXM_NX_REG0[0..15]),normal'']"
  by (simp_all add: SecurityRules_Flows_def Let_def ct_flows_def commit_flows_def)

lemma tmpl_PortNo: "tmpl d ''in_port={{.PortNo}}'' = ''in_port='' @ tval_String (gm_get d ''PortNo'')"
  and tmpl_MAC: "tmpl d ''dl_dst={{.MAC}}'' = ''dl_dst='' @ tval_String (gm_get d ''MAC'')"
  by (simp_all add: tmpl.simps HasPrefix_def Let_def)

lemma secrules_data_other:
  "k \<notin> {''IP'', ''IP6'', ''_in_port_vm'', ''_in_port_not_vm''} \<Longrightarrow>
   gm_get (secrules_data nic data) k = gm_get data k"
  by (auto simp: secrules_data_def Let_def)

section \<open>The other flows of a card\<close>

definition in_table0 :: "flow_spec list \<Rightarrow> bool" where
  "in_table0 fs \<longleftrightarrow> (\<forall>f\<in>set fs. fsTable f = 0)"

lemma in_table0_simps [simp]:
  "in_table0 []" "in_table0 (f # fs) \<longleftrightarrow> fsTable f = 0 \<and> in_table0 fs"
  "in_table0 (fs @ gs) \<longleftrightarrow> in_table0 fs \<and> in_table0 gs"
  "in_table0 (concat fss) \<longleftrightarrow> (\<forall>fs\<in>set fss. in_table0 fs)"
  by (auto simp: in_table0_def)

lemma in_table0_table: "in_table0 fs \<Longrightarrow> t \<noteq> 0 \<Longrightarrow> table_of t fs = []"
  by (rule table_of_none) (auto simp: in_table0_def)

lemma res_concat_table0:
  "res_concat f xs = Inr ys \<Longrightarrow> (\<And>x fs. f x = Inr fs \<Longrightarrow> in_table0 fs) \<Longrightarrow> in_table0 ys"
  by (induction xs arbitrary: ys) (auto simp: res_bind_Inr_iff)

lemma eachIP_table0: "(\<And>d. in_table0 (cb d)) \<Longrightarrow> in_table0 (eachIP m cb)"
  by (simp add: eachIP_def Let_def)

lemma mapping_table0:
  "guestNicPortMappingFlows nic pn ip mac phy vlan = Inr fs \<Longrightarrow> in_table0 fs"
  "guestNicPortMappingFlowsLocal nic mip gw pn ip mac = Inr fs \<Longrightarrow> in_table0 fs"
  unfolding guestNicPortMappingFlows_def guestNicPortMappingFlowsLocal_def
  by (erule res_concat_table0, auto simp: eachGuestNicPortMappingFlows_def
      eachGuestNicPortMappingFlowsLocal_def res_bind_Inr_iff Let_def remote_flows_def
      remote_flows_local_def elim!: res_concat_table0 split: if_splits)+

lemma base_table0 [simp]:
  "in_table0 (base_flows m)" "in_table0 (nosrcmac_flows nic m)" "in_table0 (nosrcip_flows nic m)"
  "in_table0 (nd_flows nic m)"
  by (simp_all add: base_flows_def nosrcmac_flows_def nosrcip_flows_def nd_flows_def Let_def)

lemma nosecgroup_table0 [simp]: "in_table0 (nosecgroup_flows c nic m)"
  by (simp add: nosecgroup_flows_def Let_def eachIP_table0)

lemma arp_table0: "arp_flows lib hcn nic m = Inr fs \<Longrightarrow> in_table0 fs"
  by (auto simp: arp_flows_def res_bind_Inr_iff eachIP_table0 split: if_splits option.splits)

lemma md4_data:
  "k \<noteq> ''MetadataClientFakeIP'' \<Longrightarrow> k \<noteq> ''MetadataClientFakeMAC'' \<Longrightarrow>
   gm_get (fst (md4_flows sha nic mdPort ip mac m)) k = gm_get m k"
  by (simp add: md4_flows_def Let_def case_prod_unfold)

lemma md4_table0: "in_table0 (snd (md4_flows sha nic mdPort ip mac m))"
  by (simp add: md4_flows_def Let_def case_prod_unfold)

lemma md6_table0: "md6_server_flows lib sha nic mdPort ip6 mac m im = Inr fs \<Longrightarrow> in_table0 fs"
  unfolding md6_server_flows_def case_prod_unfold Let_def res_bind_Inr_iff by clarsimp

text \<open>The metadata flows, and the keys that their data keep.\<close>

lemma md_flows_cases:
  assumes "md_flows lib sha hc nic m = Inr (m', fs)"
  shows "in_table0 fs \<and> (\<forall>k. k \<noteq> ''MetadataClientFakeIP'' \<and> k \<noteq> ''MetadataClientFakeMAC'' \<longrightarrow>
           gm_get m' k = gm_get m k)"
proof -
  define four where "four = (\<lambda>mdPort mdMAC. case gm_get m ''MetadataServerIP'' of
      Some (TStr mdIP) \<Rightarrow> if EnableIPv4 nic then md4_flows sha nic mdPort mdIP mdMAC m else (m, [])
    | _ \<Rightarrow> (m, []))"
  have four: "in_table0 (snd (four p mac)) \<and> (\<forall>k. k \<noteq> ''MetadataClientFakeIP'' \<and> k \<noteq> ''MetadataClientFakeMAC'' \<longrightarrow>
           gm_get (fst (four p mac)) k = gm_get m k)" for p mac
    by (auto simp: four_def md4_data md4_table0 split: option.splits tval.splits)
  have six: "res_concat (md6_server_flows lib sha nic p ip6 mac d) xs = Inr gs \<Longrightarrow> in_table0 gs"
    for p ip6 mac d xs gs
    by (erule res_concat_table0) (rule md6_table0)
  show ?thesis
  proof (cases "gm_get m ''MetadataServerPort''")
    case (Some v)
    show ?thesis
    proof (cases v)
      case (TInt p)
      obtain mac where mac: "tstr m ''MetadataServerMAC'' = Inr mac"
        using assms Some TInt by (auto simp: md_flows_def res_bind_Inr_iff)
      obtain d f4 where d: "four p mac = (d, f4)" by fastforce
      have "m' = d \<and> (fs = f4 \<or> (\<exists>gs ip6. fs = f4 @ gs \<and>
          res_concat (md6_server_flows lib sha nic p ip6 mac d)
            (List.enumerate 0 (optMetadataServerIp6s (hcOptions hc))) = Inr gs))"
        using assms Some TInt mac d unfolding md_flows_def four_def
        by (auto simp: res_bind_Inr_iff split: option.splits tval.splits if_splits)
      with four [of p mac] six d show ?thesis by auto
    qed (use assms Some in \<open>auto simp: md_flows_def\<close>)
  qed (use assms in \<open>auto simp: md_flows_def\<close>)
qed

lemma mapping_flows_table0:
  "mapping_flows env nic m phy hc = (hc', Inr (fm, fs)) \<Longrightarrow> in_table0 fs"
  by (auto simp: mapping_flows_def res_bind_Inr_iff Let_def mapping_table0
      split: if_splits prod.splits sum.splits)

lemma srcmac_flows_table0:
  "srcmac_flows env hcn g nic m phy hc = (hc', Inr (fm, fs)) \<Longrightarrow> in_table0 fs"
  by (auto simp: srcmac_flows_def res_bind_Inr_iff Let_def
      dest!: mapping_flows_table0 arp_table0 split: if_splits sum.splits prod.splits)

lemma nic_flows_shape:
  assumes "nic_flows env hcn g nic m phy hc = (hc', Inr fm)"
  obtains pre m' secs where "gm_get fm (nicBridge nic) = Some (pre @ secs)" "in_table0 pre"
    "secgroup_flows hc g nic m' = Inr secs"
    "\<And>k. k \<noteq> ''MetadataClientFakeIP'' \<Longrightarrow> k \<noteq> ''MetadataClientFakeMAC'' \<Longrightarrow> gm_get m' k = gm_get m k"
proof -
  obtain m' mds where md: "md_flows (feLib env) (feSha env) hc nic m = Inr (m', mds)"
    using assms by (auto simp: nic_flows_def split: sum.splits)
  define src where "src = (if \<not> SrcMacCheck hc g then (hc, Inr ([], nosrcmac_flows nic m'))
      else srcmac_flows env hcn g nic m' phy hc)"
  have eq: "nic_flows env hcn g nic m phy hc = (fst src, res_bind (snd src) (\<lambda>(fm, fs).
      res_bind (secgroup_flows hc g nic m') (\<lambda>secs.
        Inr (gm_set fm (nicBridge nic) (mds @ base_flows m' @ fs @ secs)))))"
    by (simp add: nic_flows_def md src_def Let_def case_prod_unfold)
  obtain fm0 fs secs where src: "snd src = Inr (fm0, fs)" and sec: "secgroup_flows hc g nic m' = Inr secs"
    and fm: "fm = gm_set fm0 (nicBridge nic) (mds @ base_flows m' @ fs @ secs)"
    using assms unfolding eq by (auto simp: res_bind_Inr_iff)
  have "in_table0 fs"
    using src unfolding src_def
    by (cases "srcmac_flows env hcn g nic m' phy hc") (auto split: if_splits dest: srcmac_flows_table0)
  then show thesis
    using that [of "mds @ base_flows m' @ fs" secs m'] md_flows_cases [OF md] sec fm by simp
qed

lemma put_nonempty_other [simp]: "k \<noteq> k' \<Longrightarrow> gm_get (put_nonempty m k' s) k = gm_get m k"
  by (simp add: put_nonempty_def)

lemma nic_data_keys:
  assumes "GuestNIC_Map lib nic = Inr m"
  shows "gm_get (nic_data env hc hcn mac mdPort phy nic m) ''PortNo'' = Some (TInt (nicPortNo nic))"
    "gm_get (nic_data env hc hcn mac mdPort phy nic m) ''MAC'' = Some (TStr (nicMAC nic))"
    "gm_get (nic_data env hc hcn mac mdPort phy nic m) ''CT_ZONE'' = Some (TInt (uint (nicCtZoneId nic)))"
  using assms
  by (auto simp: GuestNIC_Map_def res_bind_Inr_iff nic_data_def dl_vlan_data_def metadata_data_def Let_def
      split: option.splits prod.splits if_splits)

lemma hc_MAC_options: "hc_MAC env hc i = (hc', r) \<Longrightarrow> hcOptions hc' = hcOptions hc"
  by (auto simp: hc_MAC_def Let_def split: prod.splits)

lemma checks_options:
  "hcOptions hc' = hcOptions hc \<Longrightarrow> SecurityRules_Flows hc' g sr nic m = SecurityRules_Flows hc g sr nic m"
  by (simp add: SecurityRules_Flows_def SrcIpCheck_def)

text \<open>The flows of a card on its bridge: flows of table 0, then those of its security rules.\<close>

lemma FlowsMapForNic_shape:
  assumes "FlowsMapForNic env mdPort g hc nic = (hc', Inr fm)"
    and "\<not> optDisableSecurityGroup (hcOptions hc)" "GetNicSecurityRules g nic = Some sr"
  obtains pre m where "gm_get fm (nicBridge nic) = Some (pre @ SecurityRules_Flows hc g sr nic m)"
    "in_table0 pre" "gm_get m ''PortNo'' = Some (TInt (nicPortNo nic))"
    "gm_get m ''MAC'' = Some (TStr (nicMAC nic))"
    "gm_get m ''CT_ZONE'' = Some (TInt (uint (nicCtZoneId nic)))"
proof -
  obtain i phy m0 hc1 mac where
    m0: "GuestNIC_Map (feLib env) nic = Inr m0" and mac: "hc_MAC env hc i = (hc1, Inr mac)" and
    nf: "nic_flows env (hcNetworks hc1 ! i) g nic
      (nic_data env hc1 (hcNetworks hc1 ! i) mac (mdPort (nicBridge nic)) phy nic m0) phy hc1 = (hc', Inr fm)"
    using assms(1) by (auto simp: FlowsMapForNic_def Let_def split: if_splits option.splits sum.splits prod.splits)
  note opts = hc_MAC_options [OF mac]
  from nf show thesis
  proof (rule nic_flows_shape)
    fix pre m' secs
    assume a: "gm_get fm (nicBridge nic) = Some (pre @ secs)" "in_table0 pre"
      "secgroup_flows hc1 g nic m' = Inr secs"
      and k: "\<And>k. k \<noteq> ''MetadataClientFakeIP'' \<Longrightarrow> k \<noteq> ''MetadataClientFakeMAC'' \<Longrightarrow> gm_get m' k
        = gm_get (nic_data env hc1 (hcNetworks hc1 ! i) mac (mdPort (nicBridge nic)) phy nic m0) k"
    have "secs = SecurityRules_Flows hc g sr nic m'"
      using a(3) assms(2,3) opts checks_options [OF opts] by (simp add: secgroup_flows_def)
    with a(1,2) k [of "''PortNo''"] k [of "''MAC''"] k [of "''CT_ZONE''"] nic_data_keys [OF m0]
    show thesis by (intro that [of pre m']) simp_all
  qed
qed

section \<open>Rules as tables\<close>

lemma secgroup_out_answers:
  assumes "match_count (outRules sr) \<le> 39980"
    and "gm_get data ''PortNo'' = Some (TInt (nicPortNo nic))"
  shows "answers sat (table_of 2 (SecurityRules_Flows hc g sr nic data)) p
    (map_option (\<lambda>r. if OvsActionAllow r then ''resubmit(,3)'' else ''drop'')
       (first_rule sat (''in_port='' @ show_int (nicPortNo nic)) (outRules sr) p))"
proof -
  have "tmpl (secrules_data nic data) ''in_port={{.PortNo}}'' = ''in_port='' @ show_int (nicPortNo nic)"
    unfolding tmpl_PortNo using assms(2) by (simp add: secrules_data_other tval_String_def)
  moreover have "int (match_count (outRules sr)) + 20 \<le> 40000" using assms(1) by simp
  ultimately show ?thesis
    unfolding tables_of_Flows by (simp only:) (rule rule_flows_answers, simp_all)
qed

lemma secgroup_in_answers:
  assumes "match_count (inRules sr) \<le> 39970"
    and "gm_get data ''MAC'' = Some (TStr (nicMAC nic))"
    and "gm_get data ''CT_ZONE'' = Some (TInt (uint (nicCtZoneId nic)))"
    and "\<not> (sat ''ip'' p \<and> sat ''ipv6'' p)"
  shows "answers sat (table_of 3 (SecurityRules_Flows hc g sr nic data)) p
    (case first_rule sat (''dl_dst='' @ nicMAC nic) (inRules sr) p of
       Some r \<Rightarrow> Some (if OvsActionAllow r
                      then ''load:0x'' @ show_hex (uint (nicCtZoneId nic)) @ ''->NXM_NX_REG1[0..15],resubmit(,5)''
                      else ''drop'')
     | None \<Rightarrow> if sat ''ip'' p \<or> sat ''ipv6'' p then Some ''ct(commit,zone=NXM_NX_REG0[0..15]),normal'' else None)"
proof -
  let ?d = "secrules_data nic data"
  let ?allow = "''load:0x'' @ show_hex (uint (nicCtZoneId nic)) @ ''->NXM_NX_REG1[0..15],resubmit(,5)''"
  let ?fb = "[fl 3 30 ''ip'' ''ct(commit,zone=NXM_NX_REG0[0..15]),normal'',
      fl 3 30 ''ipv6'' ''ct(commit,zone=NXM_NX_REG0[0..15]),normal'']"
  let ?rules = "rule_flows 3 30 (''dl_dst='' @ nicMAC nic) ?allow 40000 (inRules sr)"
  have "tmpl ?d ''dl_dst={{.MAC}}'' = ''dl_dst='' @ nicMAC nic"
    unfolding tmpl_MAC using assms(2) by (simp add: secrules_data_other tval_String_def)
  moreover have "zone_hex ?d = ''0x'' @ show_hex (uint (nicCtZoneId nic))"
    using assms(3) by (simp add: zone_hex_def secrules_data_other)
  ultimately have tab: "table_of 3 (SecurityRules_Flows hc g sr nic data) = ?rules @ ?fb"
    unfolding tables_of_Flows by simp
  have fits: "int (match_count (inRules sr)) + 30 \<le> 40000" using assms(1) by simp
  have fb: "answers sat ?fb p (if sat ''ip'' p \<or> sat ''ipv6'' p
      then Some ''ct(commit,zone=NXM_NX_REG0[0..15]),normal'' else None)"
    using assms(4) by (auto simp: answers_def wins_def)
  have "answers sat (?rules @ ?fb) p
      (case map_option (\<lambda>r. if OvsActionAllow r then ?allow else ''drop'')
              (first_rule sat (''dl_dst='' @ nicMAC nic) (inRules sr) p) of
         None \<Rightarrow> (if sat ''ip'' p \<or> sat ''ipv6'' p
           then Some ''ct(commit,zone=NXM_NX_REG0[0..15]),normal'' else None)
       | Some a \<Rightarrow> Some a)"
    by (rule answers_append [OF _ rule_flows_answers [OF fits] fb])
       (auto dest: rule_flows_above [OF fits])
  then show ?thesis unfolding tab
    by (cases "first_rule sat (''dl_dst='' @ nicMAC nic) (inRules sr) p")
       (simp_all only: option.map option.case)
qed

text \<open>C17: table 2 of the flows generated for a card decides the packets the card sends the way its
  list of outgoing rules does: the first rule in list order that the packet satisfies passes it
  on to the incoming rules or drops it, whatever the number of matches each rule expands to, as
  long as all of them fit above the priority limit.  No other flow of the card is in that table.\<close>

theorem secgroup_out_first_match:
  assumes "FlowsMapForNic env mdPort g hc nic = (hc', Inr fm)"
    and "\<not> optDisableSecurityGroup (hcOptions hc)" "GetNicSecurityRules g nic = Some sr"
    and "match_count (outRules sr) \<le> 39980"
  shows "\<exists>fs. gm_get fm (nicBridge nic) = Some fs \<and> answers sat (table_of 2 fs) p
    (map_option (\<lambda>r. if OvsActionAllow r then ''resubmit(,3)'' else ''drop'')
       (first_rule sat (''in_port='' @ show_int (nicPortNo nic)) (outRules sr) p))"
  using assms(1-3)
proof (rule FlowsMapForNic_shape)
  fix pre m
  assume fs: "gm_get fm (nicBridge nic) = Some (pre @ SecurityRules_Flows hc g sr nic m)"
    and pre: "in_table0 pre" and port: "gm_get m ''PortNo'' = Some (TInt (nicPortNo nic))"
  have "table_of 2 (pre @ SecurityRules_Flows hc g sr nic m) = table_of 2 (SecurityRules_Flows hc g sr nic m)"
    using in_table0_table [OF pre] by simp
  with fs secgroup_out_answers [OF assms(4) port] show ?thesis by auto
qed

text \<open>C18: table 3 of the flows generated for a card decides the packets sent to the card the way
  its list of incoming rules does; a packet that satisfies none of them is committed and
  forwarded if it is an IP packet.\<close>

theorem secgroup_in_first_match:
  assumes "FlowsMapForNic env mdPort g hc nic = (hc', Inr fm)"
    and "\<not> optDisableSecurityGroup (hcOptions hc)" "GetNicSecurityRules g nic = Some sr"
    and "match_count (inRules sr) \<le> 39970"
    and "\<not> (sat ''ip'' p \<and> sat ''ipv6'' p)"
  shows "\<exists>fs. gm_get fm (nicBridge nic) = Some fs \<and> answers sat (table_of 3 fs) p
    (case first_rule sat (''dl_dst='' @ nicMAC nic) (inRules sr) p of
       Some r \<Rightarrow> Some (if OvsActionAllow r
                      then ''load:0x'' @ show_hex (uint (nicCtZoneId nic)) @ ''->NXM_NX_REG1[0..15],resubmit(,5)''
                      else ''drop'')
     | None \<Rightarrow> if sat ''ip'' p \<or> sat ''ipv6'' p then Some ''ct(commit,zone=NXM_NX_REG0[0..15]),normal'' else None)"
  using assms(1-3)
proof (rule FlowsMapForNic_shape)
  fix pre m
  assume fs: "gm_get fm (nicBridge nic) = Some (pre @ SecurityRules_Flows hc g sr nic m)"
    and pre: "in_table0 pre" and mac: "gm_get m ''MAC'' = Some (TStr (nicMAC nic))"
    and zone: "gm_get m ''CT_ZONE'' = Some (TInt (uint (nicCtZoneId nic)))"
  have "table_of 3 (pre @ SecurityRules_Flows hc g sr nic m) = table_of 3 (SecurityRules_Flows hc g sr nic m)"
    using in_table0_table [OF pre] by simp
  with fs secgroup_in_answers [where sr = sr and data = m and nic = nic and sat = sat and p = p
      and hc = hc and g = g, OF assms(4) mac zone assms(5)] show ?thesis by metis
qed

text \<open>Rules, a network environment and flows for the evaluation of examples; a packet is the set of the
  texts it satisfies.\<close>

definition demo_rules :: SecurityRules where
  "demo_rules = \<lparr>inRules = [demo_rule ''in'' ''allow'' ''tcp'' 22, demo_rule ''in'' ''deny'' ''any'' 0],
     outRules = [demo_rule ''out'' ''allow'' ''any'' 0]\<rparr>"

lemma demo_matches:
  "OvsMatches (demo_rule ''out'' ''allow'' ''any'' 0) = [''ipv6'', ''ip'']"
  "OvsMatches (demo_rule ''in'' ''allow'' ''tcp'' 22) = [''tcp,tp_dst=22'']"
  "OvsMatches (demo_rule ''in'' ''deny'' ''any'' 0) = [''ipv6'', ''ip'']"
  by code_simp+

definition demo_net :: net_sys where
  "demo_net = \<lparr>nsRouteLookup = (\<lambda>_. Inl (Err ''no route'')), nsLinkByName = (\<lambda>_. Inl (Err ''no link'')),
     nsLinkByIndex = (\<lambda>_. Inl (Err ''no link'')), nsDumpPort = (\<lambda>_ _. Inr 1),
     nsNetif = (\<lambda>_ ip _ _. \<lparr>nifExist = True, nifAddr = ip, nifAddr6 = '''', nifAddr4LinkLocal = '''',
                  nifAddr6LinkLocal = '''', nifHardwareAddr = Some ''00:22:3a:00:00:01''\<rparr>),
     nsNewIf = (\<lambda>_. \<lparr>nifExist = True, nifAddr = ''10.0.0.1'', nifAddr6 = '''', nifAddr4LinkLocal = '''',
                  nifAddr6LinkLocal = '''', nifHardwareAddr = Some ''00:22:3a:00:00:01''\<rparr>)\<rparr>"

definition demo_env :: flow_env where
  "demo_env = \<lparr>feLib = \<lparr>alMac2LinkLocal = (\<lambda>_. ''fe80::1''), alSolicitMcastIP = (\<lambda>_. None),
       alSolicitMcastMac = (\<lambda>_. None), alIpHex = (\<lambda>_. None), alMacHex = (\<lambda>_. ''''), alIPV4Addr = parseIPv4\<rparr>,
     feSha = (\<lambda>s i. of_nat (length s)), feParse6 = (\<lambda>_. None), feNet = demo_net\<rparr>"

definition demo_hc :: HostConfig where
  "demo_hc = NewHostConfig (\<lambda>_. None) (\<lambda>_. None) demo_options"

definition demo_running :: Guest where
  "demo_running = demo_guest\<lparr>gNICs := [demo_nic], gSecurityRules := Some demo_rules\<rparr>"

lemma demo_flows_ok: "is_ok (snd (FlowsMapForNic demo_env (\<lambda>_. Some 9886) demo_running demo_hc demo_nic))"
  by code_simp

lemma demo_flows:
  obtains hc' fm where "FlowsMapForNic demo_env (\<lambda>_. Some 9886) demo_running demo_hc demo_nic = (hc', Inr fm)"
  using demo_flows_ok by (metis is_ok_simps(2) prod.collapse sum.exhaust_sel sumE)

lemma demo_running_facts:
  "\<not> optDisableSecurityGroup (hcOptions demo_hc)"
  "GetNicSecurityRules demo_running demo_nic = Some demo_rules"
  "match_count (outRules demo_rules) \<le> 39980" "match_count (inRules demo_rules) \<le> 39970"
  by (simp_all add: demo_hc_def NewHostConfig_def demo_options_def Let_def GetNicSecurityRules_def
      demo_running_def demo_nic_def demo_rules_def match_count_def demo_matches)

lemma demo_answers:
  "map_option (\<lambda>r. if OvsActionAllow r then ''resubmit(,3)'' else ''drop'')
     (first_rule (\<lambda>m p. m \<in> p) (''in_port='' @ show_int (nicPortNo demo_nic)) (outRules demo_rules)
        {''in_port=7,ip''}) = Some ''resubmit(,3)''"
  "first_rule (\<lambda>m p. m \<in> p) (''dl_dst='' @ nicMAC demo_nic) (inRules demo_rules)
     {''ip'', ''dl_dst=00:22:00:00:00:01,ip''} = Some (demo_rule ''in'' ''deny'' ''any'' 0)"
proof -
  have "''in_port='' @ show_int (nicPortNo demo_nic) = ''in_port=7''" by code_simp
  moreover have "OvsActionAllow (demo_rule ''out'' ''allow'' ''any'' 0)" by code_simp
  ultimately show "map_option (\<lambda>r. if OvsActionAllow r then ''resubmit(,3)'' else ''drop'')
     (first_rule (\<lambda>m p. m \<in> p) (''in_port='' @ show_int (nicPortNo demo_nic)) (outRules demo_rules)
        {''in_port=7,ip''}) = Some ''resubmit(,3)''"
    by (simp add: first_rule_def demo_rules_def rule_sat_def demo_matches)
  show "first_rule (\<lambda>m p. m \<in> p) (''dl_dst='' @ nicMAC demo_nic) (inRules demo_rules)
     {''ip'', ''dl_dst=00:22:00:00:00:01,ip''} = Some (demo_rule ''in'' ''deny'' ''any'' 0)"
    by (simp add: first_rule_def demo_rules_def rule_sat_def demo_matches demo_nic_def)
qed

theorem secgroup_out_first_match_witness:
  "\<exists>hc' fm fs. FlowsMapForNic demo_env (\<lambda>_. Some 9886) demo_running demo_hc demo_nic = (hc', Inr fm)
     \<and> gm_get fm (nicBridge demo_nic) = Some fs
     \<and> answers (\<lambda>m p. m \<in> p) (table_of 2 fs) {''in_port=7,ip''} (Some ''resubmit(,3)'')"
proof (rule demo_flows)
  fix hc' fm assume f: "FlowsMapForNic demo_env (\<lambda>_. Some 9886) demo_running demo_hc demo_nic = (hc', Inr fm)"
  from secgroup_out_first_match [where sat = "\<lambda>m p. m \<in> p" and p = "{''in_port=7,ip''}",
      OF f demo_running_facts(1-3)]
  show ?thesis using f unfolding demo_answers by blast
qed

theorem secgroup_in_first_match_witness:
  "\<exists>hc' fm fs. FlowsMapForNic demo_env (\<lambda>_. Some 9886) demo_running demo_hc demo_nic = (hc', Inr fm)
     \<and> gm_get fm (nicBridge demo_nic) = Some fs
     \<and> answers (\<lambda>m p. m \<in> p) (table_of 3 fs) {''ip'', ''dl_dst=00:22:00:00:00:01,ip''} (Some ''drop'')"
proof (rule demo_flows)
  fix hc' fm assume f: "FlowsMapForNic demo_env (\<lambda>_. Some 9886) demo_running demo_hc demo_nic = (hc', Inr fm)"
  have "\<not> OvsActionAllow (demo_rule ''in'' ''deny'' ''any'' 0)" by code_simp
  with secgroup_in_first_match [where sat = "\<lambda>m p. m \<in> p" and p = "{''ip'', ''dl_dst=00:22:00:00:00:01,ip''}",
      OF f demo_running_facts(1,2,4)]
  show ?thesis using f unfolding demo_answers option.case by simp
qed

end
