(* ===== verification/GuestSync.thy ===== *)
theory GuestSync
  imports GuestFlows ZoneMan FlowMan TcMan
begin

text \<open>
  Bringing the settings of a guest up to date: \<open>pkg/agent/server/guest.go\<close>.

  The guest manager sends commands to the flow managers, the tc manager and the OVN managers.
  They are values of \<open>effect\<close>, kept in the order in which they are sent; the commands themselves
  are those the managers of \<open>FlowMan\<close> and \<open>TcMan\<close> execute.  The record \<open>sync_env\<close> is what the code
  reads from outside: the decoded description files, the file system, the kernel and the switch,
  the time, and which bridges have a flow manager.  A panic ends the process, so it has no state.
\<close>

section \<open>State\<close>

datatype effect =
    FlowCmd string flowManCmd
  | TcCmd TcManCmd
  | OvnSetHostId string
  | OvnSetGuestNICs string "GuestNIC list"
  | OvnMdSetGuestNICs string "GuestNIC list"
  | AgentHostId string
  | ServerSync string
  | InotifyAdd string
  | RouteAdd string string

record sync_env =
  seFlow :: flow_env
  seParse :: "string \<Rightarrow> sec_rule result"
  seWild :: "sec_rule \<Rightarrow> bool"
  seDesc :: "string \<Rightarrow> guestDesc result"
  seFiles :: file_sys
  seNow :: int
  seUnmarshal :: "string \<Rightarrow> flow result"
  seFlowMan :: "string \<Rightarrow> bool"

record SrvGuest =
  sgGuest :: Guest
  sgLastSeenPending :: "int option"

record sync_state =
  ssHostConfig :: HostConfig
  ssZoneMan :: zone_man
  ssHostLocals :: "(string, HostLocalRef) gomap"
  ssTcMan :: bool
  ssOut :: "effect list"

definition emit :: "effect list \<Rightarrow> sync_state \<Rightarrow> sync_state" where
  "emit es st = st\<lparr>ssOut := ssOut st @ es\<rparr>"

definition NewGuest :: "Guest \<Rightarrow> SrvGuest" where
  "NewGuest g = \<lparr>sgGuest = g, sgLastSeenPending = None\<rparr>"

section \<open>Reloading\<close>

definition refreshNicPortNo :: "sync_env \<Rightarrow> GuestNIC list \<Rightarrow> GuestNIC list \<times> bool" where
  "refreshNicPortNo env nics =
     (let dump = (\<lambda>nic. nsDumpPort (feNet (seFlow env)) (nicBridge nic) (nicIfnameHost nic))
      in (map (\<lambda>nic. case dump nic of Inr p \<Rightarrow> nic\<lparr>nicPortNo := p\<rparr> | Inl e \<Rightarrow> nic) nics,
          list_ex (\<lambda>nic. is_ok (dump nic)) nics))"

definition old_zones :: "GuestNIC list \<Rightarrow> (string, 16 word) gomap" where
  "old_zones nics =
     foldl (\<lambda>m nic. if nicCtZoneIdSet nic then gm_set m (nicMAC nic) (nicCtZoneId nic) else m) [] nics"

text \<open>A card whose MAC address had a zone keeps it; the flag of the new card object is not set.\<close>

fun alloc_nics ::
  "zone_man \<Rightarrow> (string, 16 word) gomap \<Rightarrow> GuestNIC list
   \<Rightarrow> zone_man \<times> (string, 16 word) gomap \<times> GuestNIC list \<times> unit result" where
  "alloc_nics z oldM [] = (z, oldM, [], Inr ())"
| "alloc_nics z oldM (nic # nics) =
     (case gm_get oldM (nicMAC nic) of
        Some i \<Rightarrow>
          let (z, oldM, ns, r) = alloc_nics z (gm_del oldM (nicMAC nic)) nics
          in (z, oldM, nic\<lparr>nicCtZoneId := i\<rparr> # ns, r)
      | None \<Rightarrow>
          (case AllocateZoneId z (nicMAC nic) of
             (z, Inl (Panic e)) \<Rightarrow> (z, oldM, nic # nics, Inl (Panic e))
           | (z, Inl (Err e)) \<Rightarrow> (z, oldM, nic # nics, Inl (Err (''ct zone id allocation failed: '' @ e)))
           | (z, Inr zoneId) \<Rightarrow>
               let (z, oldM, ns, r) = alloc_nics z oldM nics
               in (z, oldM, nic\<lparr>nicCtZoneId := zoneId, nicCtZoneIdSet := True\<rparr> # ns, r)))"

definition free_zones :: "zone_man \<Rightarrow> string list \<Rightarrow> zone_man" where
  "free_zones z macs = foldl (\<lambda>z mac. fst (FreeZoneId z mac)) z macs"

definition reloadDesc ::
  "sync_env \<Rightarrow> sync_state \<Rightarrow> Guest \<Rightarrow> sync_state \<times> Guest \<times> unit result" where
  "reloadDesc env st g =
     (let oldM = old_zones (gNICs g)
      in case LoadDesc (seParse env) (seWild env) (seDesc env (gPath g)) g of
           (g, Inl e) \<Rightarrow> (st, g, Inl e)
         | (g, Inr _) \<Rightarrow>
             let st = (if NeedsSync g then emit [ServerSync (gId g)] st else st);
                 (z, oldM, nics, r) = alloc_nics (ssZoneMan st) oldM (gNICs g);
                 g = g\<lparr>gNICs := nics\<rparr>
             in case r of
                  Inl e \<Rightarrow> (st\<lparr>ssZoneMan := z\<rparr>, g, Inl e)
                | Inr _ \<Rightarrow> (st\<lparr>ssZoneMan := free_zones z (map fst oldM)\<rparr>, g, Inr ()))"

section \<open>Refreshing\<close>

definition WatcherRecentPendingTime :: int where
  "WatcherRecentPendingTime = 3 * 5"

definition setPending :: "sync_env \<Rightarrow> SrvGuest \<Rightarrow> SrvGuest" where
  "setPending env sg =
     (if sgLastSeenPending sg = None then sg\<lparr>sgLastSeenPending := Some (seNow env)\<rparr> else sg)"

definition clearPending :: "SrvGuest \<Rightarrow> SrvGuest" where
  "clearPending sg = sg\<lparr>sgLastSeenPending := None\<rparr>"

definition IsPending :: "sync_env \<Rightarrow> SrvGuest \<Rightarrow> bool" where
  "IsPending env sg =
     (case sgLastSeenPending sg of
        None \<Rightarrow> False
      | Some t \<Rightarrow> seNow env - t < WatcherRecentPendingTime)"

datatype refresh_res = ROk | RNotRunning | RPortNotReady | RVolatileHost | RFailed go_error

definition guest_refresh ::
  "sync_env \<Rightarrow> sync_state \<Rightarrow> SrvGuest \<Rightarrow> sync_state \<times> SrvGuest \<times> refresh_res" where
  "guest_refresh env st sg =
     (case reloadDesc env st (sgGuest sg) of
        (st, g, Inl e) \<Rightarrow> (st, setPending env (sg\<lparr>sgGuest := g\<rparr>), RFailed e)
      | (st, g, Inr _) \<Rightarrow>
          if IsVolatileHost g then (st, sg\<lparr>sgGuest := g\<rparr>, RVolatileHost)
          else
            let (nics, someOk0) = refreshNicPortNo env (gNICs g);
                (vpcs, someOk1) = refreshNicPortNo env (gVpcNICs g);
                sg = sg\<lparr>sgGuest := g\<lparr>gNICs := nics, gVpcNICs := vpcs\<rparr>\<rparr>
            in if \<not> someOk0 \<and> \<not> someOk1 then
                 (if IsVM (seFiles env) g \<and> \<not> Guest.Running (seFiles env) g
                  then (st, sg, RNotRunning)
                  else (st, setPending env sg, RPortNotReady))
               else (st, clearPending sg, ROk))"

section \<open>Commands to the managers\<close>

definition nic_TcData :: "GuestNIC \<Rightarrow> TcData" where
  "nic_TcData n =
     (let rx = of_int (nicRxBwLimit n) :: 64 word;
          tx = of_int (nicTxBwLimit n) :: 64 word;
          bw = of_int (nicBw n) :: 64 word
      in \<lparr>tdIfname = nicIfnameHost n,
          IngressMbps = (if rx = 0 then bw else rx),
          EgressMbps = (if tx = 0 then bw else tx),
          tdBridge = nicBridge n, tdPortNo = nicPortNo n\<rparr>)"

definition flow_cmds :: "sync_env \<Rightarrow> string \<Rightarrow> (string \<times> flow list) list \<Rightarrow> effect list" where
  "flow_cmds env who bfs =
     map (\<lambda>(br, fs). FlowCmd br (UpdateFlowsCmd who fs)) (filter (\<lambda>(br, _). seFlowMan env br) bfs)"

definition built_flows :: "sync_env \<Rightarrow> flows_map \<Rightarrow> (string \<times> flow list) list result" where
  "built_flows env fm =
     res_map (\<lambda>(br, fs). res_bind (res_map (F (seUnmarshal env)) fs) (\<lambda>ofs. Inr (br, ofs))) fm"

definition md_ports :: "sync_state \<Rightarrow> string \<Rightarrow> int option" where
  "md_ports st br = map_option hlPort (findHostLocalByBridge (ssHostLocals st) br)"

definition updateClassicFlows :: "sync_env \<Rightarrow> sync_state \<Rightarrow> Guest \<Rightarrow> sync_state result" where
  "updateClassicFlows env st g =
     (case FlowsMap (seFlow env) (md_ports st) g (ssHostConfig st) of
        (hc, Inl e) \<Rightarrow> Inl e
      | (hc, Inr (fm, _)) \<Rightarrow>
          res_bind (built_flows env fm) (\<lambda>bfs.
            Inr (emit (flow_cmds env (gId g) bfs) (st\<lparr>ssHostConfig := hc\<rparr>))))"

definition clearClassicFlows ::
  "sync_env \<Rightarrow> sync_state \<Rightarrow> SrvGuest \<Rightarrow> sync_state \<times> SrvGuest" where
  "clearClassicFlows env st sg =
     (let g = sgGuest sg;
          bridges = remdups (map nicBridge (gNICs g));
          st = st\<lparr>ssZoneMan := free_zones (ssZoneMan st) (map nicMAC (gNICs g))\<rparr>
      in (emit (flow_cmds env (gId g) (map (\<lambda>br. (br, [])) bridges)) st, clearPending sg))"

definition updateTc :: "bool \<Rightarrow> sync_state \<Rightarrow> Guest \<Rightarrow> sync_state" where
  "updateTc sync st g =
     (if \<not> ssTcMan st then st
      else emit [TcCmd (AddIfaces (gId g) (map nic_TcData (gNICs g)) sync)] st)"

definition clearTc :: "sync_state \<Rightarrow> Guest \<Rightarrow> sync_state" where
  "clearTc st g = (if \<not> ssTcMan st then st else emit [TcCmd (ClearIfaces (gId g))] st)"

definition updateOvn :: "sync_state \<Rightarrow> Guest \<Rightarrow> sync_state" where
  "updateOvn st g =
     (if optDisableLocalVpc (hcOptions (ssHostConfig st)) then st
      else if length (gVpcNICs g) > 0 \<and> gHostId g \<noteq> ''''
      then emit [OvnSetHostId (gHostId g), OvnSetGuestNICs (gId g) (gVpcNICs g),
                 OvnMdSetGuestNICs (gId g) (gVpcNICs g)] st
      else st)"

definition clearOvn :: "sync_state \<Rightarrow> Guest \<Rightarrow> sync_state" where
  "clearOvn st g =
     (if optDisableLocalVpc (hcOptions (ssHostConfig st)) then st
      else emit [OvnSetGuestNICs (gId g) [], OvnMdSetGuestNICs (gId g) []] st)"

definition guest_ClearSettings ::
  "sync_env \<Rightarrow> sync_state \<Rightarrow> SrvGuest \<Rightarrow> sync_state \<times> SrvGuest" where
  "guest_ClearSettings env st sg =
     (let (st, sg) = clearClassicFlows env st sg
      in (clearOvn (clearTc st (sgGuest sg)) (sgGuest sg), sg))"

definition guest_UpdateSettings ::
  "sync_env \<Rightarrow> bool \<Rightarrow> sync_state \<Rightarrow> SrvGuest \<Rightarrow> (sync_state \<times> SrvGuest) result" where
  "guest_UpdateSettings env sync st sg =
     (case guest_refresh env st sg of
        (st, sg, ROk) \<Rightarrow>
          let g = sgGuest sg
          in res_bind (updateClassicFlows env st g) (\<lambda>st.
               let st = updateOvn (updateTc sync st g) g
               in Inr (if gHostId g \<noteq> '''' then emit [AgentHostId (gHostId g)] st else st, sg))
      | (st, sg, RFailed (Panic e)) \<Rightarrow> Inl (Panic e)
      | (st, sg, RFailed (Err e)) \<Rightarrow> Inr (st, sg)
      | (st, sg, _) \<Rightarrow> Inr (guest_ClearSettings env st sg))"

section \<open>Zones of reloaded cards\<close>

text \<open>A card that says it has a zone has the one the table gives its MAC address.\<close>

definition zones_held :: "zone_man \<Rightarrow> GuestNIC list \<Rightarrow> bool" where
  "zones_held z nics \<longleftrightarrow>
     (\<forall>nic\<in>set nics. nicCtZoneIdSet nic \<longrightarrow> zone_of z (nicMAC nic) = Some (nicCtZoneId nic))"

lemma old_zones_snoc:
  "old_zones (nics @ [nic]) =
     (if nicCtZoneIdSet nic then gm_set (old_zones nics) (nicMAC nic) (nicCtZoneId nic) else old_zones nics)"
  by (simp add: old_zones_def)

lemma old_zones_get:
  "gm_get (old_zones nics) mac = Some i \<Longrightarrow>
   \<exists>nic\<in>set nics. nicCtZoneIdSet nic \<and> nicMAC nic = mac \<and> nicCtZoneId nic = i"
proof (induction nics rule: rev_induct)
  case (snoc nic nics)
  then show ?case by (auto simp: old_zones_snoc split: if_splits)
qed (simp add: old_zones_def)

lemma old_zones_None:
  "gm_get (old_zones nics) mac = None \<longleftrightarrow> (\<forall>nic\<in>set nics. nicCtZoneIdSet nic \<longrightarrow> nicMAC nic \<noteq> mac)"
proof (induction nics rule: rev_induct)
  case (snoc nic nics)
  then show ?case by (auto simp: old_zones_snoc)
qed (simp add: old_zones_def)

lemma AllocateZoneId_ok:
  assumes "zone_ok z" "AllocateZoneId z mac = (z', Inr i)"
  shows "zone_ok z'" "zone_of z' = (zone_of z)(mac \<mapsto> i)" "zone_of z \<subseteq>\<^sub>m zone_of z'"
proof -
  show "zone_ok z'" using zones.alloc_invar [OF assms(1), of mac] assms(2) by simp
  show *: "zone_of z' = (zone_of z)(mac \<mapsto> i)" by (rule zones.alloc_ok [OF assms])
  have "zone_of z mac = Some j \<Longrightarrow> j = i" for j
    using zones.alloc_known [OF assms(1), of mac j] assms(2) by simp
  with * show "zone_of z \<subseteq>\<^sub>m zone_of z'" by (auto simp: map_le_def)
qed

text \<open>What the loop over the cards does: each card ends with the zone of the table, no zone is
  lost, and what remains of the old zones belongs to no card.\<close>

lemma alloc_nics_ok:
  assumes "alloc_nics z oldM nics = (z', oldM', ns, Inr ())" "zone_ok z"
    and "\<And>mac i. gm_get oldM mac = Some i \<Longrightarrow> zone_of z mac = Some i"
  shows "zone_ok z' \<and> zone_of z \<subseteq>\<^sub>m zone_of z' \<and> map nicMAC ns = map nicMAC nics
    \<and> (\<forall>nic\<in>set ns. zone_of z' (nicMAC nic) = Some (nicCtZoneId nic))
    \<and> (\<forall>mac. gm_get oldM' mac = (if mac \<in> nicMAC ` set nics then None else gm_get oldM mac))"
  using assms
proof (induction nics arbitrary: z oldM z' oldM' ns)
  case (Cons nic nics)
  show ?case
  proof (cases "gm_get oldM (nicMAC nic)")
    case (Some i)
    obtain ns1 where l: "alloc_nics z (gm_del oldM (nicMAC nic)) nics = (z', oldM', ns1, Inr ())"
      and ns: "ns = nic\<lparr>nicCtZoneId := i\<rparr> # ns1"
      using Cons.prems(1) Some by (auto simp: Let_def split: prod.splits)
    have "gm_get (gm_del oldM (nicMAC nic)) mac = Some j \<Longrightarrow> zone_of z mac = Some j" for mac j
      using Cons.prems(3) by (auto split: if_splits)
    note IH = Cons.IH [OF l Cons.prems(2) this]
    moreover have "zone_of z' (nicMAC nic) = Some i"
      using IH Cons.prems(3) [OF Some] by (auto simp: map_le_def dom_def)
    ultimately show ?thesis by (auto simp: ns)
  next
    case None
    obtain z1 i where a: "AllocateZoneId z (nicMAC nic) = (z1, Inr i)"
      using Cons.prems(1) None
      by (cases "AllocateZoneId z (nicMAC nic)") (auto split: sum.splits go_error.splits)
    obtain ns1 where l: "alloc_nics z1 oldM nics = (z', oldM', ns1, Inr ())"
      and ns: "ns = nic\<lparr>nicCtZoneId := i, nicCtZoneIdSet := True\<rparr> # ns1"
      using Cons.prems(1) None a by (auto simp: Let_def split: prod.splits)
    note ok = AllocateZoneId_ok [OF Cons.prems(2) a]
    have "gm_get oldM mac = Some j \<Longrightarrow> zone_of z1 mac = Some j" for mac j
      using Cons.prems(3) [of mac j] ok(3) by (auto simp: map_le_def dom_def)
    note IH = Cons.IH [OF l ok(1) this]
    moreover have "zone_of z' (nicMAC nic) = Some i"
      using IH ok(2) by (auto simp: map_le_def dom_def split: if_splits)
    moreover have "zone_of z \<subseteq>\<^sub>m zone_of z'" using IH ok(3) map_le_trans by blast
    ultimately show ?thesis using None by (auto simp: ns)
  qed
qed simp

lemma free_zones_of:
  "zone_ok z \<Longrightarrow> zone_of (free_zones z macs) mac = (if mac \<in> set macs then None else zone_of z mac)"
  unfolding free_zones_def by (rule zones.foldl_free_owner)

lemma free_zones_ok: "zone_ok z \<Longrightarrow> zone_ok (free_zones z macs)"
  unfolding free_zones_def by (rule zones.foldl_free_invar)

text \<open>A successful reload, taken apart.\<close>

lemma reloadDesc_ok:
  assumes "reloadDesc env st g = (st', g', Inr ())"
  obtains g1 st1 z oldM nics where
    "LoadDesc (seParse env) (seWild env) (seDesc env (gPath g)) g = (g1, Inr ())"
    "ssZoneMan st1 = ssZoneMan st"
    "alloc_nics (ssZoneMan st) (old_zones (gNICs g)) (gNICs g1) = (z, oldM, nics, Inr ())"
    "st' = st1\<lparr>ssZoneMan := free_zones z (map fst oldM)\<rparr>" "g' = g1\<lparr>gNICs := nics\<rparr>"
proof -
  obtain g1 where l: "LoadDesc (seParse env) (seWild env) (seDesc env (gPath g)) g = (g1, Inr ())"
    using assms by (auto simp: reloadDesc_def Let_def split: prod.splits sum.splits)
  define st1 where "st1 = (if NeedsSync g1 then emit [ServerSync (gId g1)] st else st)"
  have z: "ssZoneMan st1 = ssZoneMan st" by (simp add: st1_def emit_def)
  obtain z oldM nics r where a: "alloc_nics (ssZoneMan st) (old_zones (gNICs g)) (gNICs g1) = (z, oldM, nics, r)"
    by (metis prod_cases4)
  from assms l a z have "r = Inr () \<and> st' = st1\<lparr>ssZoneMan := free_zones z (map fst oldM)\<rparr> \<and> g' = g1\<lparr>gNICs := nics\<rparr>"
    by (auto simp: reloadDesc_def Let_def st1_def [symmetric] split: sum.splits)
  with that l z a show thesis by blast
qed

text \<open>An environment in which every guest has the description \<open>demo_desc\<close>.\<close>

definition demo_sync_env :: sync_env where
  "demo_sync_env = \<lparr>
     seFlow = \<lparr>feLib = \<lparr>alMac2LinkLocal = (\<lambda>_. ''fe80::1''), alSolicitMcastIP = (\<lambda>_. None),
         alSolicitMcastMac = (\<lambda>_. None), alIpHex = (\<lambda>_. None), alMacHex = (\<lambda>_. ''''), alIPV4Addr = parseIPv4\<rparr>,
       feSha = (\<lambda>s i. of_nat (length s)), feParse6 = (\<lambda>_. None),
       feNet = \<lparr>nsRouteLookup = (\<lambda>_. Inl (Err ''no route'')), nsLinkByName = (\<lambda>_. Inl (Err ''no link'')),
         nsLinkByIndex = (\<lambda>_. Inl (Err ''no link'')), nsDumpPort = (\<lambda>_ _. Inr 1),
         nsNetif = (\<lambda>_ ip _ _. \<lparr>nifExist = True, nifAddr = ip, nifAddr6 = '''', nifAddr4LinkLocal = '''',
                      nifAddr6LinkLocal = '''', nifHardwareAddr = Some ''00:22:3a:00:00:01''\<rparr>),
         nsNewIf = (\<lambda>_. \<lparr>nifExist = True, nifAddr = ''10.0.0.1'', nifAddr6 = '''', nifAddr4LinkLocal = '''',
                      nifAddr6LinkLocal = '''', nifHardwareAddr = Some ''00:22:3a:00:00:01''\<rparr>)\<rparr>\<rparr>,
     seParse = demo_parse, seWild = demo_wild, seDesc = (\<lambda>_. Inr demo_desc),
     seFiles = \<lparr>fsStat = (\<lambda>_. FileNotExist), fsReadFile = (\<lambda>_. FileNotExist)\<rparr>,
     seNow = 0, seUnmarshal = (\<lambda>_. Inl (Err ''unmarshal'')), seFlowMan = (\<lambda>_. True)\<rparr>"

definition demo_state :: sync_state where
  "demo_state = \<lparr>ssHostConfig = NewHostConfig (\<lambda>_. None) (\<lambda>_. None) demo_options,
     ssZoneMan = \<lparr>zm = [(''00:22:00:00:00:01'', 1)], zmr = [(1, ''00:22:00:00:00:01'')], base = 60000\<rparr>,
     ssHostLocals = [], ssTcMan = True, ssOut = []\<rparr>"

definition demo_sg :: SrvGuest where
  "demo_sg = NewGuest (demo_guest\<lparr>gNICs := [demo_nic]\<rparr>)"

lemma demo_zone_ok: "zone_ok (ssZoneMan demo_state)"
  by (auto simp: demo_state_def zone_ok_def zone_inv_def gm_wf_def ntotal_def)

lemma demo_reload: "snd (snd (reloadDesc demo_sync_env demo_state (sgGuest demo_sg))) = Inr ()"
  "snd (snd (reloadDesc demo_sync_env (fst (guest_ClearSettings demo_sync_env demo_state demo_sg))
     (sgGuest (snd (guest_ClearSettings demo_sync_env demo_state demo_sg))))) = Inr ()"
  by code_simp+

lemma triple_collapse: "snd (snd t) = c \<Longrightarrow> t = (fst t, fst (snd t), c)"
  by (cases t) auto

text \<open>C20: a reload that succeeds keeps the zone table sound and gives every card of the guest the
  zone that the table has for its MAC address, provided the cards that said they had a zone had
  theirs; so no other MAC address of the table has the zone of one of its cards.\<close>

theorem reloadDesc_zones:
  assumes "reloadDesc env st g = (st', g', Inr ())"
    and "zone_ok (ssZoneMan st)" "zones_held (ssZoneMan st) (gNICs g)"
  shows "zone_ok (ssZoneMan st') \<and>
    (\<forall>nic\<in>set (gNICs g'). \<forall>mac. zone_of (ssZoneMan st') mac = Some (nicCtZoneId nic) \<longleftrightarrow> mac = nicMAC nic)"
  using assms(1)
proof (rule reloadDesc_ok)
  fix g1 st1 z oldM nics
  assume a: "alloc_nics (ssZoneMan st) (old_zones (gNICs g)) (gNICs g1) = (z, oldM, nics, Inr ())"
    and st': "st' = st1\<lparr>ssZoneMan := free_zones z (map fst oldM)\<rparr>" and g': "g' = g1\<lparr>gNICs := nics\<rparr>"
  have "gm_get (old_zones (gNICs g)) mac = Some i \<Longrightarrow> zone_of (ssZoneMan st) mac = Some i" for mac i
    using old_zones_get [of "gNICs g" mac i] assms(3) by (auto simp: zones_held_def)
  note L = alloc_nics_ok [OF a assms(2) this]
  have ok: "zone_ok (free_zones z (map fst oldM))" using L free_zones_ok by blast
  have "zone_of (free_zones z (map fst oldM)) (nicMAC nic) = Some (nicCtZoneId nic)"
    if nic: "nic \<in> set nics" for nic
  proof -
    have "nicMAC nic \<in> nicMAC ` set (gNICs g1)"
      using nic L by (metis image_eqI list.set_map)
    then have "gm_get oldM (nicMAC nic) = None" using L by simp
    then have "nicMAC nic \<notin> set (map fst oldM)" by (simp add: map_of_eq_None_iff)
    with nic L free_zones_of [of z] show ?thesis by auto
  qed
  with ok show ?thesis unfolding st' g' by (auto dest: zones.owner_inj [OF ok])
qed

theorem reloadDesc_zones_witness:
  "zone_ok (ssZoneMan (fst (reloadDesc demo_sync_env demo_state (sgGuest demo_sg))))"
proof -
  have "zones_held (ssZoneMan demo_state) (gNICs (sgGuest demo_sg))"
    by (simp add: zones_held_def demo_state_def demo_sg_def NewGuest_def demo_nic_def zone_of_def)
  from reloadDesc_zones [OF triple_collapse [OF demo_reload(1)] demo_zone_ok this] show ?thesis by blast
qed

text \<open>Carried zones and the rest of the table, without any assumption on the old zones.\<close>

lemma alloc_nics_carry:
  assumes "alloc_nics z oldM nics = (z', oldM', ns, Inr ())" "zone_ok z" "distinct (map nicMAC nics)"
  shows "map nicMAC ns = map nicMAC nics \<and> zone_ok z'
    \<and> (\<forall>mac. gm_get oldM' mac = (if mac \<in> nicMAC ` set nics then None else gm_get oldM mac))
    \<and> (\<forall>mac. mac \<notin> nicMAC ` set nics \<or> gm_get oldM mac \<noteq> None \<longrightarrow> zone_of z' mac = zone_of z mac)
    \<and> (\<forall>nic\<in>set ns. \<forall>i. gm_get oldM (nicMAC nic) = Some i \<longrightarrow>
          nicCtZoneId nic = i \<and> (\<exists>nic0\<in>set nics. nicMAC nic0 = nicMAC nic \<and> nicCtZoneIdSet nic0 = nicCtZoneIdSet nic))"
  using assms
proof (induction nics arbitrary: z oldM z' oldM' ns)
  case (Cons nic nics)
  show ?case
  proof (cases "gm_get oldM (nicMAC nic)")
    case (Some i)
    obtain ns1 where l: "alloc_nics z (gm_del oldM (nicMAC nic)) nics = (z', oldM', ns1, Inr ())"
      and ns: "ns = nic\<lparr>nicCtZoneId := i\<rparr> # ns1"
      using Cons.prems(1) Some by (auto simp: Let_def split: prod.splits)
    have d: "distinct (map nicMAC nics)" "nicMAC nic \<notin> nicMAC ` set nics" using Cons.prems(3) by auto
    note IH = Cons.IH [OF l Cons.prems(2) d(1)]
    have "nicMAC nic' \<noteq> nicMAC nic" if "nic' \<in> set ns1" for nic'
      using that IH d(2) by (metis image_eqI list.set_map)
    with IH d(2) Some show ?thesis by (auto simp: ns)
  next
    case None
    obtain z1 i where a: "AllocateZoneId z (nicMAC nic) = (z1, Inr i)"
      using Cons.prems(1) None
      by (cases "AllocateZoneId z (nicMAC nic)") (auto split: sum.splits go_error.splits)
    obtain ns1 where l: "alloc_nics z1 oldM nics = (z', oldM', ns1, Inr ())"
      and ns: "ns = nic\<lparr>nicCtZoneId := i, nicCtZoneIdSet := True\<rparr> # ns1"
      using Cons.prems(1) None a by (auto simp: Let_def split: prod.splits)
    note ok = AllocateZoneId_ok [OF Cons.prems(2) a]
    have "distinct (map nicMAC nics)" using Cons.prems(3) by auto
    note IH = Cons.IH [OF l ok(1) this]
    show ?thesis using IH ok(2) None by (auto simp: ns)
  qed
qed simp

lemma old_zones_some:
  assumes "nic \<in> set nics" "nicCtZoneIdSet nic" "distinct (map nicMAC nics)"
  shows "gm_get (old_zones nics) (nicMAC nic) = Some (nicCtZoneId nic)"
proof -
  obtain i where i: "gm_get (old_zones nics) (nicMAC nic) = Some i"
    using assms(1,2) old_zones_None [of nics "nicMAC nic"] by (cases "gm_get (old_zones nics) (nicMAC nic)") auto
  from old_zones_get [OF this] obtain nic' where "nic' \<in> set nics" "nicMAC nic' = nicMAC nic" "nicCtZoneId nic' = i"
    by auto
  with assms(1,3) i show ?thesis by (metis distinct_map inj_on_def)
qed

lemma ClearSettings_effect:
  assumes "guest_ClearSettings env st sg = (st1, sg1)"
  shows "sgGuest sg1 = sgGuest sg"
    "ssZoneMan st1 = free_zones (ssZoneMan st) (map nicMAC (gNICs (sgGuest sg)))"
  using assms by (auto simp: guest_ClearSettings_def clearClassicFlows_def clearPending_def clearTc_def
      clearOvn_def emit_def Let_def)

lemma alloc_nics_macs: "alloc_nics z oldM nics = (z', oldM', ns, r) \<Longrightarrow> map nicMAC ns = map nicMAC nics"
  by (induction nics arbitrary: z oldM z' oldM' ns)
     (fastforce simp: Let_def split: option.splits prod.splits sum.splits go_error.splits)+

text \<open>C21: after the settings of a guest have been cleared and loaded again, a card that had a zone
  carries it over without asking the allocator: the card uses a zone that the table counts as
  free and may give to another card.\<close>

theorem clear_then_reload_stale_zone:
  assumes "guest_ClearSettings env st sg = (st1, sg1)" "zone_ok (ssZoneMan st)"
    and "nic \<in> set (gNICs (sgGuest sg))" "nicCtZoneIdSet nic" "distinct (map nicMAC (gNICs (sgGuest sg)))"
    and "reloadDesc env' st1 (sgGuest sg1) = (st2, g2, Inr ())"
    and "nic2 \<in> set (gNICs g2)" "nicMAC nic2 = nicMAC nic" "distinct (map nicMAC (gNICs g2))"
  shows "nicCtZoneId nic2 = nicCtZoneId nic \<and> zone_of (ssZoneMan st2) (nicMAC nic) = None"
  using assms(6)
proof (rule reloadDesc_ok)
  fix g1 st0 z oldM nics
  assume a: "alloc_nics (ssZoneMan st1) (old_zones (gNICs (sgGuest sg1))) (gNICs g1) = (z, oldM, nics, Inr ())"
    and st2: "st2 = st0\<lparr>ssZoneMan := free_zones z (map fst oldM)\<rparr>" and g2: "g2 = g1\<lparr>gNICs := nics\<rparr>"
  note clr = ClearSettings_effect [OF assms(1)]
  have ok1: "zone_ok (ssZoneMan st1)" unfolding clr(2) by (rule free_zones_ok [OF assms(2)])
  have "length nics = length (gNICs g1)" "map nicMAC nics = map nicMAC (gNICs g1)"
    using alloc_nics_macs [OF a] by (auto dest: map_eq_imp_length_eq)
  with assms(9) g2 have d: "distinct (map nicMAC (gNICs g1))" by simp
  have old: "gm_get (old_zones (gNICs (sgGuest sg1))) (nicMAC nic) = Some (nicCtZoneId nic)"
    using old_zones_some [OF assms(3,4,5)] clr(1) by simp
  note C = alloc_nics_carry [OF a ok1 d]
  have "zone_of (ssZoneMan st1) (nicMAC nic) = None"
    unfolding clr(2) using free_zones_of [OF assms(2)] assms(3) by simp
  then have "zone_of z (nicMAC nic) = None" using C old by simp
  moreover have "zone_ok z" using C by blast
  ultimately have "zone_of (ssZoneMan st2) (nicMAC nic) = None"
    unfolding st2 using free_zones_of [of z] by simp
  moreover have "nicCtZoneId nic2 = nicCtZoneId nic" using C old assms(7,8) g2 by auto
  ultimately show ?thesis by simp
qed



theorem clear_then_reload_stale_zone_witness:
  "\<exists>st2 g2 nic2. reloadDesc demo_sync_env (fst (guest_ClearSettings demo_sync_env demo_state demo_sg))
       (sgGuest (snd (guest_ClearSettings demo_sync_env demo_state demo_sg))) = (st2, g2, Inr ())
     \<and> nic2 \<in> set (gNICs g2) \<and> nicCtZoneId nic2 = 60001
     \<and> zone_of (ssZoneMan st2) ''00:22:00:00:00:01'' = None"
proof -
  let ?c = "guest_ClearSettings demo_sync_env demo_state demo_sg"
  let ?r = "reloadDesc demo_sync_env (fst ?c) (sgGuest (snd ?c))"
  note r = triple_collapse [OF demo_reload(2)]
  have macs: "map nicMAC (gNICs (fst (snd ?r))) = [''00:22:00:00:00:01'']" by code_simp
  then obtain nic2 where n: "nic2 \<in> set (gNICs (fst (snd ?r)))" "nicMAC nic2 = ''00:22:00:00:00:01''"
    by (cases "gNICs (fst (snd ?r))") auto
  have sg: "gNICs (sgGuest demo_sg) = [demo_nic]" by (simp add: demo_sg_def NewGuest_def)
  have "nicCtZoneId nic2 = nicCtZoneId demo_nic \<and> zone_of (ssZoneMan (fst ?r)) (nicMAC demo_nic) = None"
  proof (rule clear_then_reload_stale_zone [OF prod.collapse [symmetric] demo_zone_ok _ _ _ r n(1)])
    show "demo_nic \<in> set (gNICs (sgGuest demo_sg))" "distinct (map nicMAC (gNICs (sgGuest demo_sg)))"
      by (simp_all add: sg)
    show "nicCtZoneIdSet demo_nic" by (simp add: demo_nic_def)
    show "nicMAC nic2 = nicMAC demo_nic" using n(2) by (simp add: demo_nic_def)
    show "distinct (map nicMAC (gNICs (fst (snd ?r))))" unfolding macs by simp
  qed
  then have "nicCtZoneId nic2 = 60001 \<and> zone_of (ssZoneMan (fst ?r)) ''00:22:00:00:00:01'' = None"
    by (simp add: demo_nic_def)
  with r n(1) show ?thesis by blast
qed

lemma nic_loaded_keeps [simp]:
  "nicMAC (nic_loaded parse wild sgs nic) = nicMAC nic"
  "nicCtZoneIdSet (nic_loaded parse wild sgs nic) = nicCtZoneIdSet nic"
  by (simp_all add: nic_loaded_def split: option.split sum.split)

lemma reloadDesc_carry:
  assumes "reloadDesc env st g = (st', g', Inr ())" "zone_ok (ssZoneMan st)"
    and "distinct (map nicMAC (gNICs g'))"
  shows "zone_ok (ssZoneMan st')"
    and "mac \<notin> nicMAC ` set (gNICs g') \<Longrightarrow> gm_get (old_zones (gNICs g)) mac = None \<Longrightarrow>
         zone_of (ssZoneMan st') mac = zone_of (ssZoneMan st) mac"
    and "mac \<in> nicMAC ` set (gNICs g') \<Longrightarrow> gm_get (old_zones (gNICs g)) mac = Some i \<Longrightarrow>
         seDesc env (gPath g) = Inr desc \<Longrightarrow> list_all (\<lambda>n. \<not> nicCtZoneIdSet n) (gdNICs desc) \<Longrightarrow>
         zone_of (ssZoneMan st') mac = zone_of (ssZoneMan st) mac \<and> gm_get (old_zones (gNICs g')) mac = None"
proof -
  obtain g1 st1 z oldM nics where
    l: "LoadDesc (seParse env) (seWild env) (seDesc env (gPath g)) g = (g1, Inr ())" and
    a: "alloc_nics (ssZoneMan st) (old_zones (gNICs g)) (gNICs g1) = (z, oldM, nics, Inr ())" and
    st': "st' = st1\<lparr>ssZoneMan := free_zones z (map fst oldM)\<rparr>" and g': "g' = g1\<lparr>gNICs := nics\<rparr>"
    using assms(1) by (rule reloadDesc_ok)
  have d: "distinct (map nicMAC (gNICs g1))" using assms(3) alloc_nics_macs [OF a] g' by simp
  note C = alloc_nics_carry [OF a assms(2) d]
  have m: "nicMAC ` set (gNICs g1) = nicMAC ` set nics" using C by (metis list.set_map)
  have z: "zone_ok z" using C by blast
  show "zone_ok (ssZoneMan st')" using z free_zones_ok st' by simp
  have free: "gm_get oldM mac = None \<Longrightarrow> zone_of (ssZoneMan st') mac = zone_of z mac" for mac
    unfolding st' using free_zones_of [OF z] by (auto simp: map_of_eq_None_iff)
  show "zone_of (ssZoneMan st') mac = zone_of (ssZoneMan st) mac"
    if "mac \<notin> nicMAC ` set (gNICs g')" "gm_get (old_zones (gNICs g)) mac = None"
    using that C m g' free by auto
  show "zone_of (ssZoneMan st') mac = zone_of (ssZoneMan st) mac \<and> gm_get (old_zones (gNICs g')) mac = None"
    if mac: "mac \<in> nicMAC ` set (gNICs g')" "gm_get (old_zones (gNICs g)) mac = Some i"
      and desc: "seDesc env (gPath g) = Inr desc" "list_all (\<lambda>n. \<not> nicCtZoneIdSet n) (gdNICs desc)"
  proof
    show "zone_of (ssZoneMan st') mac = zone_of (ssZoneMan st) mac"
      using mac C m g' free by auto
    have "\<not> nicCtZoneIdSet n" if "n \<in> set (gNICs g1)" for n
      using LoadDesc_split [OF l] that desc by (auto simp: list_all_iff)
    then have "\<not> nicCtZoneIdSet nic" if "nic \<in> set nics" "nicMAC nic = mac" for nic
      using C mac(2) that by metis
    then show "gm_get (old_zones (gNICs g')) mac = None" unfolding g' old_zones_None by auto
  qed
qed

text \<open>A zone leaks: the card object that carries a zone over is not marked as having one, so
  when the card disappears from the description at the next reload the zone of its MAC address
  stays allocated.\<close>

theorem reload_leaks_zone:
  assumes "zone_ok (ssZoneMan st)" "distinct (map nicMAC (gNICs g))"
    and "nic \<in> set (gNICs g)" "nicCtZoneIdSet nic"
    and "seDesc env (gPath g) = Inr desc" "list_all (\<lambda>n. \<not> nicCtZoneIdSet n) (gdNICs desc)"
    and "reloadDesc env st g = (st1, g1, Inr ())" "distinct (map nicMAC (gNICs g1))"
    and "nicMAC nic \<in> nicMAC ` set (gNICs g1)"
    and "reloadDesc env' st1 g1 = (st2, g2, Inr ())" "distinct (map nicMAC (gNICs g2))"
    and "nicMAC nic \<notin> nicMAC ` set (gNICs g2)"
  shows "zone_of (ssZoneMan st2) (nicMAC nic) = zone_of (ssZoneMan st) (nicMAC nic)"
proof -
  note one = reloadDesc_carry [OF assms(7,1,8)]
  from one(3) [OF assms(9) old_zones_some [OF assms(3,4,2)] assms(5,6)]
  have "zone_of (ssZoneMan st1) (nicMAC nic) = zone_of (ssZoneMan st) (nicMAC nic)"
    "gm_get (old_zones (gNICs g1)) (nicMAC nic) = None" by auto
  with reloadDesc_carry(2) [OF assms(10) one(1) assms(11,12)] show ?thesis by simp
qed

text \<open>The description of the example as the decoder leaves it, and one without cards.\<close>

definition demo_desc0 :: guestDesc where
  "demo_desc0 = demo_desc\<lparr>gdNICs := [demo_nic\<lparr>nicCtZoneIdSet := False, nicCtZoneId := 0\<rparr>]\<rparr>"

theorem reload_leaks_zone_witness:
  "\<exists>st1 g1 st2 g2.
     reloadDesc (demo_sync_env\<lparr>seDesc := \<lambda>_. Inr demo_desc0\<rparr>) demo_state (sgGuest demo_sg) = (st1, g1, Inr ())
   \<and> reloadDesc (demo_sync_env\<lparr>seDesc := \<lambda>_. Inr (demo_desc0\<lparr>gdNICs := []\<rparr>)\<rparr>) st1 g1 = (st2, g2, Inr ())
   \<and> gNICs g2 = [] \<and> zone_of (ssZoneMan st2) ''00:22:00:00:00:01'' = Some 60001"
proof -
  let ?e1 = "demo_sync_env\<lparr>seDesc := \<lambda>_. Inr demo_desc0\<rparr>"
  let ?e2 = "demo_sync_env\<lparr>seDesc := \<lambda>_. Inr (demo_desc0\<lparr>gdNICs := []\<rparr>)\<rparr>"
  let ?r1 = "reloadDesc ?e1 demo_state (sgGuest demo_sg)"
  let ?r2 = "reloadDesc ?e2 (fst ?r1) (fst (snd ?r1))"
  have r1: "snd (snd ?r1) = Inr ()" and m1: "map nicMAC (gNICs (fst (snd ?r1))) = [''00:22:00:00:00:01'']"
    by code_simp+
  have r2: "snd (snd ?r2) = Inr ()" and m2: "gNICs (fst (snd ?r2)) = []" by code_simp+
  have sg: "gNICs (sgGuest demo_sg) = [demo_nic]" by (simp add: demo_sg_def NewGuest_def)
  have mac: "nicMAC demo_nic = ''00:22:00:00:00:01''" by (simp add: demo_nic_def)
  have "zone_of (ssZoneMan (fst ?r2)) (nicMAC demo_nic) = zone_of (ssZoneMan demo_state) (nicMAC demo_nic)"
  proof (rule reload_leaks_zone [OF demo_zone_ok _ _ _ _ _ triple_collapse [OF r1] _ _ triple_collapse [OF r2]])
    show "seDesc ?e1 (gPath (sgGuest demo_sg)) = Inr demo_desc0" by simp
    show "list_all (\<lambda>n. \<not> nicCtZoneIdSet n) (gdNICs demo_desc0)" by (simp add: demo_desc0_def)
    show "distinct (map nicMAC (gNICs (fst (snd ?r1))))" unfolding m1 by simp
    show "nicMAC demo_nic \<in> nicMAC ` set (gNICs (fst (snd ?r1)))"
      unfolding mac using m1 by (metis list.set_intros(1) list.set_map)
  qed (simp_all add: sg m2 demo_nic_def)
  moreover have "zone_of (ssZoneMan demo_state) (nicMAC demo_nic) = Some 60001"
    by (simp add: zone_of_def demo_state_def demo_nic_def)
  ultimately have "zone_of (ssZoneMan (fst ?r2)) ''00:22:00:00:00:01'' = Some 60001" by (simp add: mac)
  with triple_collapse [OF r1] triple_collapse [OF r2] m2 show ?thesis by blast
qed

end
