(* ===== verification/GoPath.thy ===== *)
theory GoPath
  imports GoStr
begin

text \<open>
  The parts of the Go packages \<open>path\<close> and \<open>path/filepath\<close> that the watcher uses to read the
  names of inotify events.
\<close>

section \<open>Operations\<close>

text \<open>\<open>filepath.Split\<close> cuts after the last slash: the directory keeps it.\<close>

definition filepath_Split :: "string \<Rightarrow> string \<times> string" where
  "filepath_Split p =
     (let r = rev p
      in (rev (dropWhile (\<lambda>c. c \<noteq> CHR ''/'') r), rev (takeWhile (\<lambda>c. c \<noteq> CHR ''/'') r)))"

text \<open>\<open>path.Clean\<close> over the elements of the path: empty elements and dots disappear, a double dot
  takes the element before it along, and stays only at the front of a relative path.\<close>

fun clean_elems :: "bool \<Rightarrow> string list \<Rightarrow> string list \<Rightarrow> string list" where
  "clean_elems rooted stack [] = rev stack"
| "clean_elems rooted stack (e # es) =
     (if e = '''' \<or> e = ''.'' then clean_elems rooted stack es
      else if e = ''..'' then
        (case stack of
           [] \<Rightarrow> clean_elems rooted (if rooted then [] else [''..'']) es
         | t # ts \<Rightarrow> clean_elems rooted (if t = ''..'' then ''..'' # stack else ts) es)
      else clean_elems rooted (e # stack) es)"

definition path_Clean :: "string \<Rightarrow> string" where
  "path_Clean p =
     (let rooted = HasPrefix p ''/'';
          out = join ''/'' (clean_elems rooted [] (split_on (CHR ''/'') p))
      in if rooted then CHR ''/'' # out else if out = '''' then ''.'' else out)"

definition path_Join :: "string list \<Rightarrow> string" where
  "path_Join es =
     (let es = filter (\<lambda>e. e \<noteq> '''') es in if es = [] then '''' else path_Clean (join ''/'' es))"

section \<open>Names below a directory\<close>

text \<open>An element that \<open>path.Clean\<close> keeps.\<close>

definition plain_elem :: "string \<Rightarrow> bool" where
  "plain_elem e \<longleftrightarrow> e \<noteq> '''' \<and> e \<noteq> ''.'' \<and> e \<noteq> ''..'' \<and> CHR ''/'' \<notin> set e"

text \<open>An absolute clean path other than the root.\<close>

definition abs_path :: "string list \<Rightarrow> string" where
  "abs_path es = CHR ''/'' # join ''/'' es"

lemma filepath_Split_append:
  "CHR ''/'' \<notin> set f \<Longrightarrow> filepath_Split (d @ CHR ''/'' # f) = (d @ ''/'', f)"
  by (simp add: filepath_Split_def dropWhile_append takeWhile_append)

lemma clean_elems_plain:
  "list_all plain_elem es \<Longrightarrow> clean_elems rooted stack (es @ rest) = clean_elems rooted (rev es @ stack) rest"
  by (induction es arbitrary: stack) (auto simp: plain_elem_def)

lemma split_on_slash_end: "split_on c (p @ [c]) = split_on c p @ [[]]"
  by (induction p) (auto split: list.splits)

lemma split_abs_path:
  assumes "list_all plain_elem es" "es \<noteq> []"
  shows "split_on (CHR ''/'') (abs_path es) = '''' # es"
  using assms split_join [of es "CHR ''/''"] by (auto simp: abs_path_def plain_elem_def list_all_iff)

lemma join_snoc: "es \<noteq> [] \<Longrightarrow> join sep (es @ [e]) = join sep es @ sep @ e"
  by (induction sep es rule: join.induct) auto

lemma abs_path_snoc: "es \<noteq> [] \<Longrightarrow> abs_path (es @ [e]) = abs_path es @ CHR ''/'' # e"
  by (simp add: abs_path_def join_snoc)

lemma path_Clean_abs:
  assumes "list_all plain_elem es" "es \<noteq> []"
  shows "path_Clean (abs_path es) = abs_path es" "path_Clean (abs_path es @ ''/'') = abs_path es"
proof -
  have "clean_elems True [] es = es" using clean_elems_plain [OF assms(1), of True "[]" "[]"] by simp
  then show "path_Clean (abs_path es) = abs_path es"
    unfolding path_Clean_def split_abs_path [OF assms] by (simp add: HasPrefix_def abs_path_def)
  have "split_on (CHR ''/'') (abs_path es @ ''/'') = '''' # es @ ['''']"
    using split_on_slash_end [of "CHR ''/''" "abs_path es"] split_abs_path [OF assms] by simp
  moreover have "clean_elems True [] (es @ ['''']) = es"
    using clean_elems_plain [OF assms(1), of True "[]" "['''']"] by simp
  ultimately show "path_Clean (abs_path es @ ''/'') = abs_path es"
    unfolding path_Clean_def by (simp add: HasPrefix_def abs_path_def)
qed

lemma path_Join_abs:
  assumes "list_all plain_elem es" "es \<noteq> []" "plain_elem e"
  shows "path_Join [abs_path es, e] = abs_path (es @ [e])"
proof -
  have "path_Join [abs_path es, e] = path_Clean (abs_path (es @ [e]))"
    using assms by (simp add: path_Join_def abs_path_def join_snoc plain_elem_def)
  then show ?thesis using path_Clean_abs(1) [of "es @ [e]"] assms by simp
qed

lemma filepath_Split_abs:
  assumes "es \<noteq> []" "plain_elem e"
  shows "filepath_Split (abs_path (es @ [e])) = (abs_path es @ ''/'', e)"
  using assms by (simp add: abs_path_snoc filepath_Split_append plain_elem_def)

end
