(* ===== verification/Watcher.thy ===== *)
theory Watcher
  imports GuestSync GoPath
begin

text \<open>
  The watcher of the servers directory, \<open>pkg/agent/server/watch.go\<close>, and the flows and tc sections
  of the host's own bridges, \<open>pkg/agent/server/hostlocal.go\<close>.

  The watcher is one goroutine.  Its state is the state of \<open>GuestSync\<close>, the map of guests and two
  caches; a turn of its \<open>select\<close> loop is \<open>watcher_turn\<close>, a function of the message received.  The
  environment \<open>watch_env\<close> holds what it reads: the directory, the kernel's routes, the description
  files, and the vendored cache (\<open>hashcache\<close>), whose operations are parameters.  A panic ends the
  process.  The time does not advance within a turn.
\<close>

section \<open>Environment and state\<close>

record ('c, 'd) watch_env =
  weSync :: sync_env
  weNewWatcher :: "unit result"
  weInotifyAdd :: "string \<Rightarrow> unit result"
  weReadDir :: "string \<Rightarrow> (string \<times> bool) list result"
  weRouteKnown :: "string \<Rightarrow> string \<Rightarrow> bool"
  weRouteAdd :: "string \<Rightarrow> string \<Rightarrow> unit result"
  weJSONDesc :: "string \<Rightarrow> 'd result"
  weCacheGet :: "'c \<Rightarrow> string \<Rightarrow> 'd option"
  weCacheSet :: "'c \<Rightarrow> string \<Rightarrow> 'd \<Rightarrow> 'c"

record 'c serversWatcher =
  wSync :: sync_state
  wGuests :: "(string, SrvGuest) gomap"
  wNetIdIpNicCache :: 'c
  wBridgeIpNicCache :: 'c
  wBridgeMap :: "(string, HostLocalRef) gomap"

abbreviation wConfig :: "'c serversWatcher \<Rightarrow> HostConfig" where
  "wConfig w \<equiv> ssHostConfig (wSync w)"

abbreviation ServersPath :: "'c serversWatcher \<Rightarrow> string" where
  "ServersPath w \<equiv> optServersPath (hcOptions (wConfig w))"

definition GuestCtZoneBase :: "16 word" where
  "GuestCtZoneBase = 60000"

text \<open>\<open>newServersWatcher\<close>, with the configuration that \<open>newForwardService\<close> sets afterwards.\<close>

definition newServersWatcher :: "HostConfig \<Rightarrow> 'c \<Rightarrow> 'c serversWatcher" where
  "newServersWatcher hc emptyCache =
     \<lparr>wSync = \<lparr>ssHostConfig = hc, ssZoneMan = NewZoneMan GuestCtZoneBase, ssHostLocals = [],
               ssTcMan = False, ssOut = []\<rparr>,
      wGuests = [], wNetIdIpNicCache = emptyCache, wBridgeIpNicCache = emptyCache, wBridgeMap = []\<rparr>"

text \<open>Sequencing over a list: the first panic ends it.\<close>

fun res_foldl :: "('s \<Rightarrow> 'a \<Rightarrow> 's result) \<Rightarrow> 's \<Rightarrow> 'a list \<Rightarrow> 's result" where
  "res_foldl f s [] = Inr s"
| "res_foldl f s (x # xs) = res_bind (f s x) (\<lambda>s. res_foldl f s xs)"

section \<open>File events\<close>

definition is_hex_lower :: "char \<Rightarrow> bool" where
  "is_hex_lower c \<longleftrightarrow> c \<in> set ''abcdef0123456789''"

text \<open>The regular expression: five groups of hexadecimal digits between dashes.\<close>

definition REGEX_UUID :: "string \<Rightarrow> bool" where
  "REGEX_UUID s =
     (let gs = split_on (CHR ''-'') s
      in map length gs = [8, 4, 4, 4, 12] \<and> list_all (list_all is_hex_lower) gs)"

record fs_event =
  evName :: string
  evCreate :: bool
  evWrite :: bool
  evRemove :: bool

datatype watchEventType =
    watchEventTypeAddServerDir
  | watchEventTypeDelServerDir
  | watchEventTypeUpdServer
  | watchEventTypeDelServer

record watchEvent =
  weType :: watchEventType
  weGuestId :: string
  weGuestPath :: string

definition watch_event :: "string \<Rightarrow> fs_event \<Rightarrow> watchEvent option" where
  "watch_event serversPath ev =
     (let (dir, file) = filepath_Split (evName ev);
          dir = path_Clean dir
      in if REGEX_UUID file \<and> dir = serversPath then
           if evCreate ev then
             Some \<lparr>weType = watchEventTypeAddServerDir, weGuestId = file, weGuestPath = evName ev\<rparr>
           else if evRemove ev then
             Some \<lparr>weType = watchEventTypeDelServerDir, weGuestId = file, weGuestPath = evName ev\<rparr>
           else None
         else if file = ''desc'' then
           let guestId = snd (filepath_Split dir)
           in if evWrite ev
              then Some \<lparr>weType = watchEventTypeUpdServer, weGuestId = guestId, weGuestPath = dir\<rparr>
              else None
         else if file = ''pid'' then
           let guestId = snd (filepath_Split dir)
           in if evRemove ev
              then Some \<lparr>weType = watchEventTypeDelServer, weGuestId = guestId, weGuestPath = dir\<rparr>
              else if evWrite ev
              then Some \<lparr>weType = watchEventTypeUpdServer, weGuestId = guestId, weGuestPath = dir\<rparr>
              else None
         else None)"

section \<open>Guests\<close>

text \<open>A fresh \<open>utils.Guest\<close> has only its id, path and configuration.\<close>

definition fresh_guest :: "string \<Rightarrow> string \<Rightarrow> Guest" where
  "fresh_guest gid p = \<lparr>gId = gid, gPath = p, gName = '''', gSecurityRules = None, gNICs = [],
     gVpcNICs = [], gHostId = '''', gSrcIpCheck = False, gSrcMacCheck = False, gIsSlave = False,
     gIsVolatileHost = False\<rparr>"

definition addGuestWatch ::
  "('c, 'd) watch_env \<Rightarrow> 'c serversWatcher \<Rightarrow> string \<Rightarrow> string \<Rightarrow> 'c serversWatcher \<times> unit result" where
  "addGuestWatch env w gid p =
     (case gm_get (wGuests w) gid of
        Some g \<Rightarrow> (w, Inr ())
      | None \<Rightarrow>
          (w\<lparr>wGuests := gm_set (wGuests w) gid (NewGuest (fresh_guest gid p)),
             wSync := emit [InotifyAdd p] (wSync w)\<rparr>,
           weInotifyAdd env p))"

definition update_guest ::
  "('c, 'd) watch_env \<Rightarrow> bool \<Rightarrow> 'c serversWatcher \<Rightarrow> string \<Rightarrow> 'c serversWatcher result" where
  "update_guest env sync w gid =
     (case gm_get (wGuests w) gid of
        None \<Rightarrow> Inr w
      | Some g \<Rightarrow>
          res_bind (guest_UpdateSettings (weSync env) sync (wSync w) g) (\<lambda>(st, g).
            Inr (w\<lparr>wSync := st, wGuests := gm_set (wGuests w) gid g\<rparr>)))"

definition clear_guest ::
  "('c, 'd) watch_env \<Rightarrow> 'c serversWatcher \<Rightarrow> string \<Rightarrow> 'c serversWatcher" where
  "clear_guest env w gid =
     (case gm_get (wGuests w) gid of
        None \<Rightarrow> w
      | Some g \<Rightarrow>
          let (st, g) = guest_ClearSettings (weSync env) (wSync w) g
          in w\<lparr>wSync := st, wGuests := gm_set (wGuests w) gid g\<rparr>)"

definition scan_entry ::
  "('c, 'd) watch_env \<Rightarrow> 'c serversWatcher \<Rightarrow> string \<times> bool \<Rightarrow> 'c serversWatcher result" where
  "scan_entry env w fi =
     (if \<not> snd fi then Inr w
      else if REGEX_UUID (fst fi) then
        let (w, err) = addGuestWatch env w (fst fi) (path_Join [ServersPath w, fst fi])
        in update_guest env False w (fst fi)
      else Inr w)"

definition scan :: "('c, 'd) watch_env \<Rightarrow> 'c serversWatcher \<Rightarrow> 'c serversWatcher result" where
  "scan env w =
     (case weReadDir env (ServersPath w) of
        Inl e \<Rightarrow> Inr w
      | Inr fis \<Rightarrow> res_foldl (scan_entry env) w fis)"

definition hasRecentPending :: "('c, 'd) watch_env \<Rightarrow> 'c serversWatcher \<Rightarrow> bool" where
  "hasRecentPending env w = list_ex (\<lambda>(_, g). IsPending (weSync env) g) (wGuests w)"

definition refresh_pending ::
  "('c, 'd) watch_env \<Rightarrow> 'c serversWatcher \<Rightarrow> 'c serversWatcher result" where
  "refresh_pending env w =
     res_foldl (\<lambda>w gid. case gm_get (wGuests w) gid of
                          None \<Rightarrow> Inr w
                        | Some g \<Rightarrow> if IsPending (weSync env) g then update_guest env False w gid else Inr w)
       w (map fst (wGuests w))"

section \<open>The host's own bridges\<close>

text \<open>\<open>EnsureFakeLocalMetadataRoute\<close> and its IPv6 twin: the prefix of the bridge's metadata client
  addresses is routed to the bridge unless a route to it is known.\<close>

definition ensure_route ::
  "('c, 'd) watch_env \<Rightarrow> string \<Rightarrow> string \<Rightarrow> sync_state \<Rightarrow> sync_state \<times> unit result" where
  "ensure_route env br prefix st =
     (if weRouteKnown env br prefix then (st, Inr ())
      else (emit [RouteAdd br prefix] st, weRouteAdd env br prefix))"

definition EnsureFakeLocalMetadataRoute ::
  "('c, 'd) watch_env \<Rightarrow> HostLocal \<Rightarrow> sync_state \<Rightarrow> sync_state \<times> unit result" where
  "EnsureFakeLocalMetadataRoute env h =
     ensure_route env (hcnBridge (hlNetwork h)) (fst (HostLocal_fakeMdSrcIpMac (feSha (seFlow (weSync env))) h 0))"

definition EnsureFakeLocalMetadataRoute6 ::
  "('c, 'd) watch_env \<Rightarrow> HostLocal \<Rightarrow> sync_state \<Rightarrow> sync_state \<times> unit result" where
  "EnsureFakeLocalMetadataRoute6 env h =
     ensure_route env (hcnBridge (hlNetwork h))
       (fst (HostLocal_fakeMdSrcIp6Mac (feSha (seFlow (weSync env))) h 0 ''''))"

definition ensure_routes ::
  "('c, 'd) watch_env \<Rightarrow> HostLocal \<Rightarrow> sync_state \<Rightarrow> sync_state result" where
  "ensure_routes env h st =
     (let (st, r) = (if IP4 h \<noteq> None then EnsureFakeLocalMetadataRoute env h st else (st, Inr ()))
      in case r of
           Inl (Panic e) \<Rightarrow> Inl (Panic e)
         | Inl (Err e) \<Rightarrow> Inr st
         | Inr _ \<Rightarrow>
             let (st, r) = (if hcnIP6Local (hlNetwork h) \<noteq> None
                            then EnsureFakeLocalMetadataRoute6 env h st else (st, Inr ()))
             in case r of Inl (Panic e) \<Rightarrow> Inl (Panic e) | _ \<Rightarrow> Inr st)"

text \<open>One network of the configuration in the loop of \<open>updateFlows\<close>.\<close>

definition hostlocal_network ::
  "('c, 'd) watch_env \<Rightarrow> sync_state \<Rightarrow> nat \<Rightarrow> sync_state result" where
  "hostlocal_network env st i =
     (let fe = seFlow (weSync env);
          br = hcnBridge (hcNetworks (ssHostConfig st) ! i);
          (hc, mac) = hc_MAC fe (ssHostConfig st) i;
          st = st\<lparr>ssHostConfig := hc\<rparr>
      in case mac of
           Inl _ \<Rightarrow> Inr st
         | Inr _ \<Rightarrow>
             let (hc, hlm, r) = FetchHostLocal hc (ssHostLocals st) i;
                 st = st\<lparr>ssHostConfig := hc, ssHostLocals := hlm\<rparr>;
                 h = hl_view hc r
             in case HostLocal_FlowsMap (feLib fe) (feSha fe) (nsDumpPort (feNet fe)) h of
                  Inl (Panic e) \<Rightarrow> Inl (Panic e)
                | Inl (Err e) \<Rightarrow> Inr st
                | Inr fm \<Rightarrow>
                    res_bind (built_flows (weSync env) fm) (\<lambda>bfs.
                      let fs = (case gm_get bfs br of None \<Rightarrow> [] | Some fs \<Rightarrow> fs)
                      in ensure_routes env h (emit (flow_cmds (weSync env) (HostLocal_Who h) [(br, fs)]) st)))"

definition hostlocal_updateFlows ::
  "('c, 'd) watch_env \<Rightarrow> sync_state \<Rightarrow> sync_state result" where
  "hostlocal_updateFlows env st =
     res_foldl (hostlocal_network env) st [0..<length (HostNetworkConfigs (ssHostConfig st))]"

definition hostlocal_updateTc :: "bool \<Rightarrow> sync_state \<Rightarrow> sync_state" where
  "hostlocal_updateTc sync st =
     (if \<not> ssTcMan st then st
      else emit [TcCmd (AddIfaces tcManHostLocalWho
             (map (\<lambda>hcn. \<lparr>tdIfname = hcnBridge hcn, IngressMbps = 0, EgressMbps = 0,
                          tdBridge = hcnBridge hcn, tdPortNo = 0\<rparr>) (HostNetworkConfigs (ssHostConfig st)))
             sync)] st)"

definition hostlocal_UpdateSettings ::
  "('c, 'd) watch_env \<Rightarrow> bool \<Rightarrow> sync_state \<Rightarrow> sync_state result" where
  "hostlocal_UpdateSettings env sync st =
     res_bind (hostlocal_updateFlows env st) (\<lambda>st. Inr (hostlocal_updateTc sync st))"

text \<open>The metadata server of a registered bridge starts in its own goroutine, some time after
  \<open>FetchHostLocal\<close>.\<close>

definition metadata_started ::
  "(int \<Rightarrow> bool) \<Rightarrow> string \<Rightarrow> sync_state \<Rightarrow> sync_state result" where
  "metadata_started used br st =
     (case gm_get (ssHostLocals st) br of
        None \<Rightarrow> Inr st
      | Some r \<Rightarrow>
          res_bind (StartMetadataServer used (ssHostConfig st) r) (\<lambda>r.
            Inr (st\<lparr>ssHostLocals := gm_set (ssHostLocals st) br r\<rparr>)))"

definition GetHostLocalByIp4 :: "'c serversWatcher \<Rightarrow> string \<Rightarrow> HostLocalRef option" where
  "GetHostLocalByIp4 w ip =
     map_option snd (find (\<lambda>(_, r). IP4 (hl_view (wConfig w) r) = Some ip) (wBridgeMap w))"

section \<open>Waiting\<close>

text \<open>The bridges whose flow manager got an update among the given commands, in the order of their
  first update: the keys of \<open>waitData\<close>.\<close>

definition flow_bridges :: "effect list \<Rightarrow> string list" where
  "flow_bridges es =
     rev (remdups (rev (concat (map (\<lambda>e. case e of FlowCmd br _ \<Rightarrow> [br] | _ \<Rightarrow> []) es))))"

text \<open>\<open>withWait\<close>: the commands that \<open>f\<close> sends, then a sync of every flow manager that got one of
  them, then a sync of the tc manager, through a pointer that is nil without tc manager.\<close>

definition watcher_withWait ::
  "('c serversWatcher \<Rightarrow> 'c serversWatcher result) \<Rightarrow> 'c serversWatcher \<Rightarrow> 'c serversWatcher result" where
  "watcher_withWait f w =
     res_bind (f w) (\<lambda>w1.
       let sent = drop (length (ssOut (wSync w))) (ssOut (wSync w1));
           syncs = map (\<lambda>br. FlowCmd br SyncFlowsCmd) (flow_bridges sent)
       in if \<not> ssTcMan (wSync w1) then Inl (Panic ''nil pointer dereference'')
          else Inr (w1\<lparr>wSync := emit (syncs @ [TcCmd SyncAll]) (wSync w1)\<rparr>))"

definition full_refresh :: "('c, 'd) watch_env \<Rightarrow> 'c serversWatcher \<Rightarrow> 'c serversWatcher result" where
  "full_refresh env w =
     res_bind (hostlocal_UpdateSettings env False (wSync w)) (\<lambda>st. scan env (w\<lparr>wSync := st\<rparr>))"

section \<open>The loop\<close>

datatype w_input =
    InEvent fs_event
  | InEventsClosed
  | InPending
  | InRefresh
  | InError string
  | InErrorsClosed
  | InFindByIdIP string string
  | InFindByHostLocalIP HostLocalRef string
  | InDone

text \<open>What a turn ends with.  \<open>WDisabled\<close>: the select cannot choose that case, because the channel
  is nil.\<close>

datatype ('c, 'd) w_result =
    WGo "'c serversWatcher"
  | WReply "'c serversWatcher" "'d option"
  | WExit "'c serversWatcher"
  | WCrash string
  | WDisabled

definition w_of :: "'c serversWatcher result \<Rightarrow> ('c, 'd) w_result" where
  "w_of r = (case r of Inr w \<Rightarrow> WGo w | Inl (Err e) \<Rightarrow> WCrash e | Inl (Panic e) \<Rightarrow> WCrash e)"

definition handle_event ::
  "('c, 'd) watch_env \<Rightarrow> 'c serversWatcher \<Rightarrow> watchEvent \<Rightarrow> 'c serversWatcher result" where
  "handle_event env w wev =
     (case weType wev of
        watchEventTypeAddServerDir \<Rightarrow>
          let (w, err) = addGuestWatch env w (weGuestId wev) (weGuestPath wev)
          in update_guest env True w (weGuestId wev)
      | watchEventTypeDelServerDir \<Rightarrow>
          let w = clear_guest env w (weGuestId wev)
          in Inr (w\<lparr>wGuests := gm_del (wGuests w) (weGuestId wev)\<rparr>)
      | watchEventTypeUpdServer \<Rightarrow> update_guest env True w (weGuestId wev)
      | watchEventTypeDelServer \<Rightarrow> Inr (clear_guest env w (weGuestId wev)))"

text \<open>The first guest, in the order of the map, one of whose cards satisfies the condition.\<close>

definition find_desc ::
  "('c, 'd) watch_env \<Rightarrow> 'c serversWatcher \<Rightarrow> (Guest \<Rightarrow> bool) \<Rightarrow> 'd option" where
  "find_desc env w has =
     (case find (\<lambda>(_, g). has (sgGuest g)) (wGuests w) of
        None \<Rightarrow> None
      | Some (_, g) \<Rightarrow> (case weJSONDesc env (gPath (sgGuest g)) of Inl _ \<Rightarrow> None | Inr d \<Rightarrow> Some d))"

definition cmdFindGuestDescByIdIP ::
  "('c, 'd) watch_env \<Rightarrow> 'c serversWatcher \<Rightarrow> string \<Rightarrow> string \<Rightarrow> 'c serversWatcher \<times> 'd option" where
  "cmdFindGuestDescByIdIP env w netId ip =
     (case weCacheGet env (wNetIdIpNicCache w) netId of
        Some d \<Rightarrow> (w, Some d)
      | None \<Rightarrow>
          (case find_desc env w (\<lambda>g. FindNicByNetIdIP g netId ip \<noteq> None) of
             None \<Rightarrow> (w, None)
           | Some d \<Rightarrow> (w\<lparr>wNetIdIpNicCache := weCacheSet env (wNetIdIpNicCache w) netId d\<rparr>, Some d)))"

definition cmdFindGuestDescByHostLocalIP ::
  "('c, 'd) watch_env \<Rightarrow> 'c serversWatcher \<Rightarrow> HostLocalRef \<Rightarrow> string \<Rightarrow> 'c serversWatcher \<times> 'd option" where
  "cmdFindGuestDescByHostLocalIP env w r ip =
     (let h = hl_view (wConfig w) r;
          fe = seFlow (weSync env);
          mapKey = hcnBridge (hlNetwork h) @ '':'' @ ip
      in case weCacheGet env (wBridgeIpNicCache w) mapKey of
           Some d \<Rightarrow> (w, Some d)
         | None \<Rightarrow>
             (case find_desc env w (\<lambda>g. FindNicByHostLocalIP (feParse6 fe) (feSha fe) (wConfig w) g h ip \<noteq> None) of
                None \<Rightarrow> (w, None)
              | Some d \<Rightarrow> (w\<lparr>wBridgeIpNicCache := weCacheSet env (wBridgeIpNicCache w) mapKey d\<rparr>, Some d)))"

definition watcher_turn ::
  "('c, 'd) watch_env \<Rightarrow> 'c serversWatcher \<Rightarrow> w_input \<Rightarrow> ('c, 'd) w_result" where
  "watcher_turn env w inp =
     (case inp of
        InEvent ev \<Rightarrow>
          (case watch_event (ServersPath w) ev of
             None \<Rightarrow> WGo w
           | Some wev \<Rightarrow> w_of (handle_event env w wev))
      | InEventsClosed \<Rightarrow> WExit w
      | InPending \<Rightarrow>
          if hasRecentPending env w then w_of (watcher_withWait (refresh_pending env) w) else WDisabled
      | InRefresh \<Rightarrow> w_of (watcher_withWait (full_refresh env) w)
      | InError e \<Rightarrow> WCrash (''watcher error: %s'' @ e)
      | InErrorsClosed \<Rightarrow> WExit w
      | InFindByIdIP netId ip \<Rightarrow> (case cmdFindGuestDescByIdIP env w netId ip of (w, d) \<Rightarrow> WReply w d)
      | InFindByHostLocalIP r ip \<Rightarrow> (case cmdFindGuestDescByHostLocalIP env w r ip of (w, d) \<Rightarrow> WReply w d)
      | InDone \<Rightarrow> WExit w)"

text \<open>\<open>Start\<close> up to the loop.  An error makes it return, a panic ends the process.\<close>

definition watcher_start ::
  "('c, 'd) watch_env \<Rightarrow> 'c serversWatcher \<Rightarrow> 'c serversWatcher result" where
  "watcher_start env w =
     res_bind (weNewWatcher env) (\<lambda>_.
     res_bind (weInotifyAdd env (ServersPath w)) (\<lambda>_.
       let w = w\<lparr>wSync := (wSync w)\<lparr>ssTcMan := optSdnEnableTcMan (hcOptions (wConfig w)),
                                    ssOut := ssOut (wSync w) @ [InotifyAdd (ServersPath w)]\<rparr>\<rparr>
       in watcher_withWait (full_refresh env) (w\<lparr>wBridgeMap := []\<rparr>)))"

section \<open>Names of events\<close>

lemma split_on_chars: "set s \<subseteq> insert c (\<Union>p\<in>set (split_on c s). set p)"
proof (induction s)
  case (Cons x s)
  then show ?case by (cases "split_on c s") auto
qed simp

lemma split_on_length: "sum_list (map length (split_on c s)) + length (split_on c s) = length s + 1"
proof (induction s)
  case (Cons x s)
  then show ?case by (cases "split_on c s") auto
qed simp

lemma REGEX_UUID_chars: "REGEX_UUID s \<Longrightarrow> x \<in> set s \<Longrightarrow> x = CHR ''-'' \<or> is_hex_lower x"
  using split_on_chars [of s "CHR ''-''"] by (auto simp: REGEX_UUID_def Let_def list_all_iff)

lemma REGEX_UUID_length:
  assumes "REGEX_UUID s"
  shows "length s = 36"
proof -
  have m: "map length (split_on (CHR ''-'') s) = [8, 4, 4, 4, 12]" using assms by (simp add: REGEX_UUID_def Let_def)
  from arg_cong [OF this, of length] have "length (split_on (CHR ''-'') s) = 5" by simp
  with m split_on_length [of "CHR ''-''" s] show ?thesis by simp
qed

lemma REGEX_UUID_plain: "REGEX_UUID s \<Longrightarrow> plain_elem s"
  using REGEX_UUID_length [of s] REGEX_UUID_chars [of s "CHR ''/''"]
  by (auto simp: plain_elem_def is_hex_lower_def)

lemma abs_path_inj_length: "es \<noteq> [] \<Longrightarrow> abs_path (es @ [e]) \<noteq> abs_path es"
  by (simp add: abs_path_snoc)

text \<open>Events below the servers directory, a clean absolute path, are classified as their names
  mean.  For the directory of a guest: its creation adds the guest and its removal deletes it.
  For a file of it: a write to the description updates the guest, so does a write to the pid
  file, the removal of the pid file stops it, and every other file is ignored.  The id and the
  path of the guest are those of the directory.\<close>

theorem watch_event_classifies:
  assumes "list_all plain_elem es" "es \<noteq> []" "REGEX_UUID gid" "plain_elem f"
    and "sp = abs_path es" "dir = path_Join [sp, gid]"
  shows "watch_event sp \<lparr>evName = dir, evCreate = c, evWrite = wr, evRemove = rm\<rparr> =
      (if c then Some \<lparr>weType = watchEventTypeAddServerDir, weGuestId = gid, weGuestPath = dir\<rparr>
       else if rm then Some \<lparr>weType = watchEventTypeDelServerDir, weGuestId = gid, weGuestPath = dir\<rparr>
       else None)
    \<and> watch_event sp \<lparr>evName = path_Join [dir, f], evCreate = c, evWrite = wr, evRemove = rm\<rparr> =
      (if f = ''pid'' \<and> rm then Some \<lparr>weType = watchEventTypeDelServer, weGuestId = gid, weGuestPath = dir\<rparr>
       else if (f = ''pid'' \<or> f = ''desc'') \<and> wr
       then Some \<lparr>weType = watchEventTypeUpdServer, weGuestId = gid, weGuestPath = dir\<rparr>
       else None)"
proof -
  have p: "plain_elem gid" by (rule REGEX_UUID_plain [OF assms(3)])
  have d: "dir = abs_path (es @ [gid])" using path_Join_abs [OF assms(1,2) p] assms(5,6) by simp
  have ps: "list_all plain_elem (es @ [gid])" using assms(1) p by simp
  have df: "path_Join [dir, f] = abs_path ((es @ [gid]) @ [f])"
    unfolding d by (rule path_Join_abs [OF ps _ assms(4)]) simp
  note sd = filepath_Split_abs [OF assms(2) p]
  have sf: "filepath_Split (abs_path ((es @ [gid]) @ [f])) = (abs_path (es @ [gid]) @ ''/'', f)"
    by (rule filepath_Split_abs [OF _ assms(4)]) simp
  note cl = path_Clean_abs(2) [OF assms(1,2)]
  have cf: "path_Clean (abs_path (es @ [gid]) @ ''/'') = abs_path (es @ [gid])"
    by (rule path_Clean_abs(2) [OF ps]) simp
  have ne: "abs_path (es @ [gid]) \<noteq> abs_path es" by (rule abs_path_inj_length [OF assms(2)])
  show ?thesis
    unfolding df unfolding d assms(5) watch_event_def
    by (simp only: fs_event.simps sd sf cl cf prod.case Let_def) (simp add: assms(3) ne sd)
qed

theorem watch_event_classifies_witness:
  "watch_event ''/opt/cloud/workspace/servers''
     \<lparr>evName = ''/opt/cloud/workspace/servers/01234567-89ab-cdef-0123-456789abcdef/pid'',
      evCreate = False, evWrite = False, evRemove = True\<rparr> =
   Some \<lparr>weType = watchEventTypeDelServer, weGuestId = ''01234567-89ab-cdef-0123-456789abcdef'',
         weGuestPath = ''/opt/cloud/workspace/servers/01234567-89ab-cdef-0123-456789abcdef''\<rparr>"
proof -
  let ?es = "[''opt'', ''cloud'', ''workspace'', ''servers'']"
  let ?g = "''01234567-89ab-cdef-0123-456789abcdef''"
  have "path_Join [''/opt/cloud/workspace/servers'', ?g] = ''/opt/cloud/workspace/servers/01234567-89ab-cdef-0123-456789abcdef''"
    "path_Join [''/opt/cloud/workspace/servers/01234567-89ab-cdef-0123-456789abcdef'', ''pid''] =
     ''/opt/cloud/workspace/servers/01234567-89ab-cdef-0123-456789abcdef/pid''"
    by code_simp+
  moreover have "list_all plain_elem ?es" "REGEX_UUID ?g" "plain_elem ''pid''"
    "''/opt/cloud/workspace/servers'' = abs_path ?es" by code_simp+
  ultimately show ?thesis
    using watch_event_classifies [of ?es ?g "''pid''" _ _ False False True] by simp
qed

section \<open>Steps of the synchronisation\<close>

text \<open>What every step keeps: the zone table stays sound, the tc manager stays or stays absent, and
  the commands sent so far are extended; flow managers only get updates.\<close>

fun plain_cmd :: "effect \<Rightarrow> bool" where
  "plain_cmd (FlowCmd br (UpdateFlowsCmd who fs)) = True"
| "plain_cmd (FlowCmd br c) = False"
| "plain_cmd e = True"

definition sync_le :: "sync_state \<Rightarrow> sync_state \<Rightarrow> bool" where
  "sync_le st st' \<longleftrightarrow>
     (zone_ok (ssZoneMan st) \<longrightarrow> zone_ok (ssZoneMan st')) \<and> ssTcMan st' = ssTcMan st
     \<and> (\<exists>es. ssOut st' = ssOut st @ es \<and> list_all plain_cmd es)"

lemma sync_le_refl [simp, intro]: "sync_le st st"
  by (simp add: sync_le_def)

lemma sync_le_trans [trans]: "sync_le a b \<Longrightarrow> sync_le b c \<Longrightarrow> sync_le a c"
  unfolding sync_le_def by fastforce

lemma sync_le_emit: "list_all plain_cmd es \<Longrightarrow> sync_le st (emit es st)"
  by (simp add: sync_le_def emit_def)

lemma sync_le_upd [simp]:
  "sync_le st (st'\<lparr>ssHostConfig := hc\<rparr>) = sync_le st st'"
  "sync_le st (st'\<lparr>ssHostLocals := hlm\<rparr>) = sync_le st st'"
  "sync_le (st\<lparr>ssHostConfig := hc\<rparr>) st' = sync_le st st'"
  "sync_le (st\<lparr>ssHostLocals := hlm\<rparr>) st' = sync_le st st'"
  by (simp_all add: sync_le_def)

lemma sync_le_zones:
  "(zone_ok (ssZoneMan st) \<Longrightarrow> zone_ok z) \<Longrightarrow> sync_le st (st\<lparr>ssZoneMan := z\<rparr>)"
  by (simp add: sync_le_def)

lemma plain_flow_cmds [simp]: "list_all plain_cmd (flow_cmds env who bfs)"
  by (auto simp: flow_cmds_def list_all_iff)

lemma alloc_nics_invar:
  assumes "alloc_nics z oldM nics = (z', oldM', ns, r)" "zone_ok z"
  shows "zone_ok z'"
  using assms
proof (induction nics arbitrary: z oldM z' oldM' ns)
  case (Cons nic nics)
  show ?case
  proof (cases "gm_get oldM (nicMAC nic)")
    case None
    have "zone_ok (fst (AllocateZoneId z (nicMAC nic)))" by (rule zones.alloc_invar [OF Cons.prems(2)])
    with Cons None show ?thesis
      by (cases "AllocateZoneId z (nicMAC nic)") (auto simp: Let_def split: prod.splits sum.splits go_error.splits)
  qed (use Cons in \<open>auto simp: Let_def split: prod.splits\<close>)
qed simp

lemma LoadDesc_id: "LoadDesc p w d g = (g', r) \<Longrightarrow> gId g' = gId g \<and> gPath g' = gPath g"
  by (auto simp: LoadDesc_def Let_def split: sum.splits prod.splits if_splits)

lemma reloadDesc_le:
  assumes "reloadDesc env st g = (st', g', r)"
  shows "sync_le st st'" "gId g' = gId g"
proof -
  obtain g1 r1 where l: "LoadDesc (seParse env) (seWild env) (seDesc env (gPath g)) g = (g1, r1)"
    by (meson surj_pair)
  define st1 where "st1 = (if NeedsSync g1 then emit [ServerSync (gId g1)] st else st)"
  have le1: "sync_le st st1" by (simp add: st1_def sync_le_emit)
  obtain z oldM nics r2 where a: "alloc_nics (ssZoneMan st1) (old_zones (gNICs g)) (gNICs g1) = (z, oldM, nics, r2)"
    by (metis prod_cases4)
  have z: "zone_ok (ssZoneMan st1) \<Longrightarrow> zone_ok z" using alloc_nics_invar [OF a] .
  have "st' = st \<or> st' = st1\<lparr>ssZoneMan := z\<rparr> \<or> st' = st1\<lparr>ssZoneMan := free_zones z (map fst oldM)\<rparr>"
    and "g' = g1 \<or> g' = g1\<lparr>gNICs := nics\<rparr>"
    using assms l a by (auto simp: reloadDesc_def Let_def st1_def [symmetric] split: sum.splits)
  with LoadDesc_id [OF l] sync_le_trans [OF le1 sync_le_zones] z free_zones_ok [of z]
  show "sync_le st st'" "gId g' = gId g" by auto
qed

lemma guest_ClearSettings_le:
  assumes "guest_ClearSettings env st sg = (st', sg')"
  shows "sync_le st st'" "sgGuest sg' = sgGuest sg"
proof -
  let ?g = "sgGuest sg"
  let ?z = "st\<lparr>ssZoneMan := free_zones (ssZoneMan st) (map nicMAC (gNICs ?g))\<rparr>"
  have "sync_le st ?z" by (rule sync_le_zones) (rule free_zones_ok)
  also have "sync_le ?z (fst (clearClassicFlows env st sg))"
    by (simp add: clearClassicFlows_def Let_def sync_le_emit)
  also have "sync_le (fst (clearClassicFlows env st sg)) (clearTc (fst (clearClassicFlows env st sg)) ?g)"
    by (simp add: clearTc_def sync_le_emit)
  also have "sync_le (clearTc (fst (clearClassicFlows env st sg)) ?g) st'"
    using assms by (auto simp: guest_ClearSettings_def clearClassicFlows_def clearPending_def clearOvn_def Let_def
        intro!: sync_le_emit)
  finally show "sync_le st st'" .
  show "sgGuest sg' = ?g" by (rule ClearSettings_effect [OF assms])
qed

lemma guest_refresh_le:
  assumes "guest_refresh env st sg = (st', sg', r)"
  shows "sync_le st st' \<and> gId (sgGuest sg') = gId (sgGuest sg)"
proof -
  obtain st1 g1 r1 where rl: "reloadDesc env st (sgGuest sg) = (st1, g1, r1)" by (metis prod_cases3)
  note le = reloadDesc_le [OF rl]
  have "st' = st1 \<and> gId (sgGuest sg') = gId g1"
    using assms rl
    by (auto simp: guest_refresh_def Let_def setPending_def clearPending_def split: sum.splits prod.splits if_splits)
  with le show ?thesis by simp
qed

lemma updateClassicFlows_le: "updateClassicFlows env st g = Inr st' \<Longrightarrow> sync_le st st'"
  by (auto simp: updateClassicFlows_def res_bind_Inr_iff split: prod.splits sum.splits
      intro!: sync_le_trans [OF _ sync_le_emit])

lemma guest_UpdateSettings_le:
  assumes "guest_UpdateSettings env sync st sg = Inr (st', sg')"
  shows "sync_le st st' \<and> gId (sgGuest sg') = gId (sgGuest sg)"
proof -
  obtain st1 sg1 r where rf: "guest_refresh env st sg = (st1, sg1, r)" by (metis prod_cases3)
  note le1 = guest_refresh_le [OF rf]
  have tc: "sync_le a (updateTc sync a g)" and ovn: "sync_le a (updateOvn a g)" for a g
    by (simp_all add: updateTc_def updateOvn_def sync_le_emit)
  consider (ok) st2 where "updateClassicFlows env st1 (sgGuest sg1) = Inr st2" "sg' = sg1"
      "sync_le (updateOvn (updateTc sync st2 (sgGuest sg1)) (sgGuest sg1)) st'"
    | (clear) "guest_ClearSettings env st1 sg1 = (st', sg')" | (err) "st' = st1" "sg' = sg1"
  proof (cases r)
    case ROk
    with assms rf obtain st2 where "updateClassicFlows env st1 (sgGuest sg1) = Inr st2"
      "(let st = updateOvn (updateTc sync st2 (sgGuest sg1)) (sgGuest sg1)
        in Inr (if gHostId (sgGuest sg1) \<noteq> '''' then emit [AgentHostId (gHostId (sgGuest sg1))] st else st, sg1)
           :: (sync_state \<times> SrvGuest) result) = Inr (st', sg')"
      unfolding guest_UpdateSettings_def Let_def by (auto simp: res_bind_Inr_iff)
    with ok show thesis by (auto simp: Let_def sync_le_emit split: if_splits)
  next
    case (RFailed e)
    with assms rf err show thesis by (cases e) (simp_all add: guest_UpdateSettings_def)
  qed (use assms rf clear in \<open>simp_all add: guest_UpdateSettings_def\<close>)
  then show ?thesis
  proof cases
    case ok
    have "sync_le st1 st2" by (rule updateClassicFlows_le [OF ok(1)])
    also note tc
    also note ovn
    also note ok(3)
    finally show ?thesis using le1 ok(2) sync_le_trans by blast
  next
    case clear
    from guest_ClearSettings_le [OF this] le1 sync_le_trans show ?thesis by auto
  next
    case err
    with le1 show ?thesis by simp
  qed
qed

lemma res_foldl_inv:
  assumes "res_foldl f s xs = Inr s'" "P s"
    and "\<And>s x s'. x \<in> set xs \<Longrightarrow> P s \<Longrightarrow> f s x = Inr s' \<Longrightarrow> P s'"
  shows "P s'"
  using assms by (induction xs arbitrary: s) (auto simp: res_bind_Inr_iff)

lemma ensure_route_le: "ensure_route env br prefix st = (st', r) \<Longrightarrow> sync_le st st'"
  by (auto simp: ensure_route_def sync_le_emit split: if_splits)

lemma ensure_routes_le:
  assumes "ensure_routes env h st = Inr st'"
  shows "sync_le st st'"
proof -
  obtain st1 r1 where 1: "(if IP4 h \<noteq> None then EnsureFakeLocalMetadataRoute env h st else (st, Inr ())) = (st1, r1)"
    by (meson surj_pair)
  obtain st2 r2 where 2: "(if hcnIP6Local (hlNetwork h) \<noteq> None
      then EnsureFakeLocalMetadataRoute6 env h st1 else (st1, Inr ())) = (st2, r2)"
    by (meson surj_pair)
  have "sync_le st st1" "sync_le st1 st2"
    using 1 2 by (auto simp: EnsureFakeLocalMetadataRoute_def EnsureFakeLocalMetadataRoute6_def
        dest: ensure_route_le split: if_splits)
  moreover have "st' = st1 \<or> st' = st2"
    using assms unfolding ensure_routes_def 1 Let_def prod.case 2 by (auto split: sum.splits go_error.splits)
  ultimately show ?thesis using sync_le_trans by blast
qed

lemma hostlocal_network_le:
  assumes "hostlocal_network env st i = Inr st'"
  shows "sync_le st st'"
proof -
  let ?fe = "seFlow (weSync env)"
  let ?br = "hcnBridge (hcNetworks (ssHostConfig st) ! i)"
  obtain hc mac where m: "hc_MAC ?fe (ssHostConfig st) i = (hc, mac)" by (meson surj_pair)
  obtain hc1 hlm r where f: "FetchHostLocal hc (ssHostLocals st) i = (hc1, hlm, r)" by (metis prod_cases3)
  let ?h = "hl_view hc1 r"
  let ?st = "st\<lparr>ssHostConfig := hc1, ssHostLocals := hlm\<rparr>"
  show ?thesis
  proof (cases mac)
    case (Inl e)
    with assms m show ?thesis by (auto simp: hostlocal_network_def Let_def)
  next
    case (Inr mc)
    show ?thesis
    proof (cases "HostLocal_FlowsMap (feLib ?fe) (feSha ?fe) (nsDumpPort (feNet ?fe)) ?h")
      case (Inl e)
      with assms m f Inr show ?thesis
        by (cases e) (auto simp: hostlocal_network_def Let_def)
    next
      case fm: (Inr fm)
      with assms m f Inr obtain bfs fs where
        "ensure_routes env ?h (emit (flow_cmds (weSync env) (HostLocal_Who ?h) [(?br, fs)]) ?st) = Inr st'"
        by (auto simp: hostlocal_network_def Let_def res_bind_Inr_iff)
      from ensure_routes_le [OF this] show ?thesis
        by (rule sync_le_trans [rotated]) (auto intro: sync_le_trans [OF _ sync_le_emit])
    qed
  qed
qed

lemma hostlocal_UpdateSettings_le:
  assumes "hostlocal_UpdateSettings env sync st = Inr st'"
  shows "sync_le st st'"
proof -
  obtain st1 where 1: "hostlocal_updateFlows env st = Inr st1" and 2: "st' = hostlocal_updateTc sync st1"
    using assms by (auto simp: hostlocal_UpdateSettings_def res_bind_Inr_iff)
  have "sync_le st st1"
    by (rule res_foldl_inv [OF 1 [unfolded hostlocal_updateFlows_def]])
      (auto intro: sync_le_trans hostlocal_network_le)
  also have "sync_le st1 st'" by (simp add: 2 hostlocal_updateTc_def sync_le_emit)
  finally show ?thesis .
qed

section \<open>Steps of the watcher\<close>

text \<open>The guests of the map: one entry per id, the ids are UUIDs and name their guests.\<close>

definition guests_ok :: "(string, SrvGuest) gomap \<Rightarrow> bool" where
  "guests_ok gs \<longleftrightarrow>
     gm_wf gs \<and> (\<forall>gid g. gm_get gs gid = Some g \<longrightarrow> REGEX_UUID gid \<and> gId (sgGuest g) = gid)"

definition w_le :: "'c serversWatcher \<Rightarrow> 'c serversWatcher \<Rightarrow> bool" where
  "w_le w w' \<longleftrightarrow> sync_le (wSync w) (wSync w') \<and> wBridgeMap w' = wBridgeMap w
     \<and> (guests_ok (wGuests w) \<longrightarrow> guests_ok (wGuests w'))"

lemma w_le_refl [simp]: "w_le w w"
  by (simp add: w_le_def)

lemma w_le_trans [trans]: "w_le a b \<Longrightarrow> w_le b c \<Longrightarrow> w_le a c"
  unfolding w_le_def using sync_le_trans by auto

lemma guests_ok_set:
  "guests_ok gs \<Longrightarrow> REGEX_UUID gid \<Longrightarrow> gId (sgGuest g) = gid \<Longrightarrow> guests_ok (gm_set gs gid g)"
  by (auto simp: guests_ok_def)

lemma addGuestWatch_le:
  "addGuestWatch env w gid p = (w', r) \<Longrightarrow> REGEX_UUID gid \<Longrightarrow> w_le w w'"
  by (auto simp: addGuestWatch_def w_le_def sync_le_emit NewGuest_def fresh_guest_def
      intro!: guests_ok_set split: option.splits)

lemma update_guest_le:
  assumes "update_guest env sync w gid = Inr w'"
  shows "w_le w w'"
proof (cases "gm_get (wGuests w) gid")
  case (Some g)
  obtain st g' where u: "guest_UpdateSettings (weSync env) sync (wSync w) g = Inr (st, g')"
    and w': "w' = w\<lparr>wSync := st, wGuests := gm_set (wGuests w) gid g'\<rparr>"
    using assms Some by (auto simp: update_guest_def res_bind_Inr_iff)
  from guest_UpdateSettings_le [OF u] Some show ?thesis
    by (auto simp: w_le_def w' intro: guests_ok_set) (auto simp: guests_ok_def)
qed (use assms in \<open>simp add: update_guest_def\<close>)

lemma clear_guest_le: "w_le w (clear_guest env w gid)"
proof (cases "gm_get (wGuests w) gid")
  case (Some g)
  obtain st g' where c: "guest_ClearSettings (weSync env) (wSync w) g = (st, g')" by (meson surj_pair)
  from guest_ClearSettings_le [OF c] Some c show ?thesis
    by (auto simp: w_le_def clear_guest_def guests_ok_def)
qed (simp add: clear_guest_def)

lemma scan_entry_le: "scan_entry env w fi = Inr w' \<Longrightarrow> w_le w w'"
  by (cases "addGuestWatch env w (fst fi) (path_Join [ServersPath w, fst fi])")
     (auto simp: scan_entry_def dest: addGuestWatch_le update_guest_le intro: w_le_trans split: if_splits)

lemma scan_le: "scan env w = Inr w' \<Longrightarrow> w_le w w'"
  by (auto simp: scan_def dest: scan_entry_le intro: w_le_trans
      elim!: res_foldl_inv [where P = "w_le w"] split: sum.splits)

lemma refresh_pending_le: "refresh_pending env w = Inr w' \<Longrightarrow> w_le w w'"
  unfolding refresh_pending_def
  by (erule res_foldl_inv [where P = "w_le w"])
     (auto dest: update_guest_le intro: w_le_trans split: option.splits if_splits)

lemma w_le_sync: "sync_le (wSync w) st \<Longrightarrow> w_le w (w\<lparr>wSync := st\<rparr>)"
  by (simp add: w_le_def)

lemma full_refresh_le: "full_refresh env w = Inr w' \<Longrightarrow> w_le w w'"
  by (auto simp: full_refresh_def res_bind_Inr_iff dest!: hostlocal_UpdateSettings_le scan_le
      intro: w_le_trans [OF w_le_sync])

lemma watch_event_add:
  "watch_event sp ev = Some wev \<Longrightarrow> weType wev = watchEventTypeAddServerDir \<Longrightarrow> REGEX_UUID (weGuestId wev)"
  by (auto simp: watch_event_def Let_def split: prod.splits if_splits)

lemma handle_event_le:
  assumes "handle_event env w wev = Inr w'"
    and "weType wev = watchEventTypeAddServerDir \<longrightarrow> REGEX_UUID (weGuestId wev)"
  shows "w_le w w'"
proof (cases "weType wev")
  case watchEventTypeAddServerDir
  with assms show ?thesis
    by (cases "addGuestWatch env w (weGuestId wev) (weGuestPath wev)")
       (auto simp: handle_event_def dest: addGuestWatch_le update_guest_le intro: w_le_trans)
next
  case watchEventTypeDelServerDir
  with assms have w': "w' = (clear_guest env w (weGuestId wev))
    \<lparr>wGuests := gm_del (wGuests (clear_guest env w (weGuestId wev))) (weGuestId wev)\<rparr>"
    by (simp add: handle_event_def Let_def)
  have "w_le (clear_guest env w (weGuestId wev)) w'"
    by (auto simp: w_le_def w' guests_ok_def split: if_splits)
  with clear_guest_le [of w env "weGuestId wev"] show ?thesis by (rule w_le_trans)
qed (use assms in \<open>auto simp: handle_event_def dest: update_guest_le intro: clear_guest_le\<close>)

section \<open>Reachable states\<close>

text \<open>The states in which the loop of a watcher waits: after the start, after every turn, and after a
  metadata server has started.  Every step has its own environment out of a set of possible ones.\<close>

inductive w_reach :: "('c, 'd) watch_env set \<Rightarrow> HostConfig \<Rightarrow> 'c serversWatcher \<Rightarrow> bool" for E hc where
  reach_start: "env \<in> E \<Longrightarrow> watcher_start env (newServersWatcher hc c) = Inr w \<Longrightarrow> w_reach E hc w"
| reach_turn: "w_reach E hc w \<Longrightarrow> env \<in> E \<Longrightarrow> watcher_turn env w inp = WGo w' \<Longrightarrow> w_reach E hc w'"
| reach_reply: "w_reach E hc w \<Longrightarrow> env \<in> E \<Longrightarrow> watcher_turn env w inp = WReply w' d \<Longrightarrow> w_reach E hc w'"
| reach_metadata: "w_reach E hc w \<Longrightarrow> metadata_started used br (wSync w) = Inr st \<Longrightarrow>
    w_reach E hc (w\<lparr>wSync := st\<rparr>)"

definition w_inv :: "'c serversWatcher \<Rightarrow> bool" where
  "w_inv w \<longleftrightarrow> zone_ok (ssZoneMan (wSync w)) \<and> ssTcMan (wSync w) \<and> guests_ok (wGuests w) \<and> wBridgeMap w = []"

lemma w_inv_le: "w_inv w \<Longrightarrow> w_le w w' \<Longrightarrow> w_inv w'"
  by (auto simp: w_inv_def w_le_def sync_le_def)

lemma withWait_ok:
  assumes "watcher_withWait f w = Inr w'"
  obtains w1 where "f w = Inr w1" "ssTcMan (wSync w1)"
    "w' = w1\<lparr>wSync := emit (map (\<lambda>br. FlowCmd br SyncFlowsCmd)
       (flow_bridges (drop (length (ssOut (wSync w))) (ssOut (wSync w1)))) @ [TcCmd SyncAll]) (wSync w1)\<rparr>"
  using assms by (auto simp: watcher_withWait_def res_bind_Inr_iff Let_def split: if_splits)

lemma withWait_keeps:
  assumes "watcher_withWait f w = Inr w'" "\<And>w1. f w = Inr w1 \<Longrightarrow> w_le w w1"
    and "zone_ok (ssZoneMan (wSync w))" "guests_ok (wGuests w)" "wBridgeMap w = []"
  shows "w_inv w'"
  using assms(1)
proof (rule withWait_ok)
  fix w1 assume 1: "f w = Inr w1" "ssTcMan (wSync w1)"
    "w' = w1\<lparr>wSync := emit (map (\<lambda>br. FlowCmd br SyncFlowsCmd)
       (flow_bridges (drop (length (ssOut (wSync w))) (ssOut (wSync w1)))) @ [TcCmd SyncAll]) (wSync w1)\<rparr>"
  from assms(2) [OF 1(1)] assms(3-5) 1(2) show ?thesis
    by (auto simp: 1(3) w_inv_def emit_def w_le_def sync_le_def)
qed

lemma w_of_WGo: "w_of r = WGo w \<longleftrightarrow> r = Inr w"
  by (auto simp: w_of_def split: sum.splits go_error.splits)

lemma w_of_not_reply [simp]: "w_of r \<noteq> WReply w d"
  by (auto simp: w_of_def split: sum.splits go_error.splits)

lemma find_cmds_keep:
  "cmdFindGuestDescByIdIP env w netId ip = (w', d) \<Longrightarrow> w_inv w \<Longrightarrow> w_inv w'"
  "cmdFindGuestDescByHostLocalIP env w r ip = (w', d) \<Longrightarrow> w_inv w \<Longrightarrow> w_inv w'"
  by (auto simp: cmdFindGuestDescByIdIP_def cmdFindGuestDescByHostLocalIP_def w_inv_def Let_def
      split: option.splits)

lemma turn_keeps:
  assumes "watcher_turn env w inp = WGo w' \<or> watcher_turn env w inp = WReply w' d" "w_inv w"
  shows "w_inv w'"
proof (cases inp)
  case (InEvent ev)
  with assms(1) consider "w' = w" | wev where "watch_event (ServersPath w) ev = Some wev" "handle_event env w wev = Inr w'"
    by (auto simp: watcher_turn_def w_of_WGo split: option.splits)
  then show ?thesis
  proof cases
    case 2
    then have "w_le w w'" using watch_event_add handle_event_le by blast
    with assms(2) show ?thesis by (rule w_inv_le)
  qed (simp add: assms(2))
next
  case InPending
  with assms(1) have "watcher_withWait (refresh_pending env) w = Inr w'"
    by (auto simp: watcher_turn_def w_of_WGo split: if_splits)
  from withWait_keeps [OF this refresh_pending_le] assms(2) show ?thesis by (simp add: w_inv_def)
next
  case InRefresh
  with assms(1) have "watcher_withWait (full_refresh env) w = Inr w'"
    by (auto simp: watcher_turn_def w_of_WGo)
  from withWait_keeps [OF this full_refresh_le] assms(2) show ?thesis by (simp add: w_inv_def)
next
  case (InFindByIdIP netId ip)
  with assms show ?thesis by (auto simp: watcher_turn_def split: prod.splits intro: find_cmds_keep(1))
next
  case (InFindByHostLocalIP r ip)
  with assms show ?thesis by (auto simp: watcher_turn_def split: prod.splits intro: find_cmds_keep(2))
qed (use assms in \<open>simp_all add: watcher_turn_def\<close>)

lemma NewZoneMan_ok: "zone_ok (NewZoneMan GuestCtZoneBase)"
  by (simp add: NewZoneMan_def GuestCtZoneBase_def zone_ok_def zone_inv_def gm_wf_def ntotal_def)

lemma w_reach_inv: "w_reach E hc w \<Longrightarrow> w_inv w"
proof (induction rule: w_reach.induct)
  case (reach_start env c w)
  then obtain w0 where w0: "watcher_withWait (full_refresh env) w0 = Inr w"
    "ssZoneMan (wSync w0) = NewZoneMan GuestCtZoneBase" "wGuests w0 = []" "wBridgeMap w0 = []"
    by (auto simp: watcher_start_def newServersWatcher_def res_bind_Inr_iff Let_def)
  from w0(2-4) show ?case
    by (intro withWait_keeps [OF w0(1) full_refresh_le]) (simp_all add: NewZoneMan_ok guests_ok_def)
next
  case (reach_metadata w used br st)
  then show ?case
    by (auto simp: metadata_started_def w_inv_def res_bind_Inr_iff split: option.splits)
qed (auto intro: turn_keeps)

text \<open>C22: whatever the watcher receives, in every reachable state different MAC addresses have
  different conntrack zones, the table of zones is sound, every guest of the map has a UUID as
  its id and is stored under it, and there is a tc manager.\<close>

theorem watcher_invariant:
  assumes "w_reach E hc w"
  shows "zone_ok (ssZoneMan (wSync w)) \<and> inj_on (zone_of (ssZoneMan (wSync w))) (dom (zone_of (ssZoneMan (wSync w))))
    \<and> (\<forall>gid g. gm_get (wGuests w) gid = Some g \<longrightarrow> REGEX_UUID gid \<and> gId (sgGuest g) = gid)
    \<and> ssTcMan (wSync w)"
proof -
  have inv: "w_inv w" by (rule w_reach_inv [OF assms])
  then have z: "zone_ok (ssZoneMan (wSync w))" by (simp add: w_inv_def)
  have "inj_on (zone_of (ssZoneMan (wSync w))) (dom (zone_of (ssZoneMan (wSync w))))"
    by (rule inj_onI) (auto dest: zones.owner_inj [OF z])
  with inv show ?thesis by (auto simp: w_inv_def guests_ok_def)
qed

text \<open>An environment with one guest directory, and the state after the start in it.\<close>

definition demo_uuid :: string where
  "demo_uuid = ''01234567-89ab-cdef-0123-456789abcdef''"

definition demo_watch_env :: "(string \<rightharpoonup> string, string) watch_env" where
  "demo_watch_env = \<lparr>weSync = demo_sync_env\<lparr>seDesc := \<lambda>_. Inl (Err ''desc'')\<rparr>, weNewWatcher = Inr (),
     weInotifyAdd = (\<lambda>_. Inr ()), weReadDir = (\<lambda>_. Inr [(demo_uuid, True)]),
     weRouteKnown = (\<lambda>_ _. False), weRouteAdd = (\<lambda>_ _. Inr ()), weJSONDesc = Inr,
     weCacheGet = (\<lambda>c. c), weCacheSet = (\<lambda>c k v. c(k \<mapsto> v))\<rparr>"

definition demo_config :: HostConfig where
  "demo_config = \<lparr>hcOptions = demo_options, hcNetworks = [], hcMasterNic = None\<rparr>"

definition demo_start :: "(string \<rightharpoonup> string) serversWatcher result" where
  "demo_start = watcher_start demo_watch_env (newServersWatcher demo_config Map.empty)"

lemma demo_start_ok: "is_ok demo_start"
  unfolding demo_start_def by code_simp

definition demo_watcher :: "(string \<rightharpoonup> string) serversWatcher" where
  "demo_watcher = (case demo_start of Inr w \<Rightarrow> w | Inl _ \<Rightarrow> newServersWatcher demo_config Map.empty)"

lemma demo_reach: "w_reach {demo_watch_env} demo_config demo_watcher"
proof (cases demo_start)
  case (Inr w)
  have "demo_watcher = w" unfolding demo_watcher_def Inr by (rule sum.case)
  with reach_start [OF singletonI Inr [unfolded demo_start_def]] show ?thesis by simp
next
  case (Inl e)
  show ?thesis using demo_start_ok unfolding Inl by simp
qed

theorem watcher_invariant_witness:
  "w_reach {demo_watch_env} demo_config demo_watcher \<and> zone_ok (ssZoneMan (wSync demo_watcher))"
  using watcher_invariant [OF demo_reach] demo_reach by blast

section \<open>Without tc manager\<close>

text \<open>The handlers report no errors to their callers: they end well or panic.\<close>

definition no_err :: "'a result \<Rightarrow> bool" where
  "no_err r \<longleftrightarrow> (\<forall>e. r \<noteq> Inl (Err e))"

lemma no_err_simps [simp]: "no_err (Inr x)" "no_err (Inl e) \<longleftrightarrow> (\<exists>p. e = Panic p)"
  by (simp_all add: no_err_def) (cases e, auto)

lemma no_err_bind: "no_err r \<Longrightarrow> (\<And>x. r = Inr x \<Longrightarrow> no_err (f x)) \<Longrightarrow> no_err (res_bind r f)"
  by (cases r) (auto simp: no_err_def)

lemma no_err_foldl: "(\<And>s x. no_err (f s x)) \<Longrightarrow> no_err (res_foldl f s xs)"
  by (induction xs arbitrary: s) (auto intro: no_err_bind)

lemma no_err_res_map: "(\<And>x. no_err (f x)) \<Longrightarrow> no_err (res_map f xs)"
  by (induction xs) (auto intro!: no_err_bind)

lemma no_err_F: "no_err (F um s)"
  by (simp add: F_def split: sum.split)

lemma no_err_built: "no_err (built_flows env fm)"
  unfolding built_flows_def by (auto intro!: no_err_res_map no_err_bind no_err_F)

lemma no_err_FlowsMap_loop: "no_err (snd (FlowsMap_loop env mdPort g hc r good nics))"
  by (induction nics arbitrary: hc r good) (auto split: prod.splits sum.splits go_error.splits)

lemma no_err_updateClassicFlows: "no_err (updateClassicFlows env st g)"
proof (cases "FlowsMap_loop (seFlow env) (md_ports st) g (ssHostConfig st) [] True (gNICs g)")
  case (Pair hc r)
  with no_err_FlowsMap_loop [of "seFlow env" "md_ports st" g "ssHostConfig st" "[]" True "gNICs g"]
  show ?thesis by (cases r) (auto simp: updateClassicFlows_def FlowsMap_def intro!: no_err_bind no_err_built)
qed

lemma no_err_guest_UpdateSettings: "no_err (guest_UpdateSettings env sync st sg)"
  by (cases "guest_refresh env st sg")
     (auto simp: guest_UpdateSettings_def Let_def intro!: no_err_bind no_err_updateClassicFlows
       split: refresh_res.split go_error.split)

lemma no_err_update_guest: "no_err (update_guest env sync w gid)"
  by (auto simp: update_guest_def intro!: no_err_bind no_err_guest_UpdateSettings split: option.split)

lemma no_err_ensure_routes: "no_err (ensure_routes env h st)"
  by (auto simp: ensure_routes_def Let_def split: prod.split sum.split go_error.split)

lemma no_err_hostlocal_network: "no_err (hostlocal_network env st i)"
  by (auto simp: hostlocal_network_def Let_def intro!: no_err_bind no_err_built no_err_ensure_routes
      split: prod.split sum.split go_error.split)

lemma no_err_full_refresh: "no_err (full_refresh env w)"
proof -
  have "no_err (scan_entry env w fi)" for w :: "'a serversWatcher" and fi
    by (auto simp: scan_entry_def intro!: no_err_update_guest split: prod.split)
  then have "no_err (scan env w)" for w :: "'a serversWatcher"
    by (auto simp: scan_def intro!: no_err_foldl split: sum.split)
  then show ?thesis
    unfolding full_refresh_def hostlocal_UpdateSettings_def hostlocal_updateFlows_def
    by (auto intro!: no_err_bind no_err_foldl no_err_hostlocal_network)
qed

text \<open>With the tc manager disabled in the configuration the agent cannot start: once the inotify
  watch is in place, the initial scan ends with a panic, whatever the directory holds.\<close>

theorem start_without_tcman_panics:
  assumes "\<not> optSdnEnableTcMan (hcOptions hc)"
    and "weNewWatcher env = Inr ()" "weInotifyAdd env (optServersPath (hcOptions hc)) = Inr ()"
  shows "\<exists>p. watcher_start env (newServersWatcher hc c) = Inl (Panic p)"
proof -
  define w where "w = \<lparr>wSync = \<lparr>ssHostConfig = hc, ssZoneMan = NewZoneMan GuestCtZoneBase,
             ssHostLocals = [], ssTcMan = False, ssOut = [InotifyAdd (optServersPath (hcOptions hc))]\<rparr>,
          wGuests = [], wNetIdIpNicCache = c, wBridgeIpNicCache = c, wBridgeMap = []\<rparr>"
  have s: "watcher_start env (newServersWatcher hc c) = watcher_withWait (full_refresh env) w"
    using assms by (simp add: watcher_start_def newServersWatcher_def w_def)
  show ?thesis
  proof (cases "full_refresh env w")
    case (Inl e)
    with no_err_full_refresh [of env w] show ?thesis
      unfolding s watcher_withWait_def by (cases e) auto
  next
    case (Inr w1)
    from full_refresh_le [OF this] have "\<not> ssTcMan (wSync w1)"
      by (simp add: w_le_def sync_le_def w_def)
    with Inr show ?thesis unfolding s watcher_withWait_def by simp
  qed
qed

theorem start_without_tcman_panics_witness:
  "\<exists>p. watcher_start demo_watch_env
     (newServersWatcher (demo_config\<lparr>hcOptions := demo_options\<lparr>optSdnEnableTcMan := False\<rparr>\<rparr>) Map.empty) = Inl (Panic p)"
  by (rule start_without_tcman_panics) (simp_all add: demo_config_def demo_watch_env_def)

section \<open>Scanning\<close>

lemma update_guest_dom: "update_guest env sync w gid = Inr w' \<Longrightarrow> dom (gm_get (wGuests w')) = dom (gm_get (wGuests w))"
  by (auto simp: update_guest_def res_bind_Inr_iff split: option.splits if_splits)

lemma scan_entry_dom:
  assumes "scan_entry env w fi = Inr w'"
  shows "dom (gm_get (wGuests w')) = dom (gm_get (wGuests w)) \<union> (if snd fi \<and> REGEX_UUID (fst fi) then {fst fi} else {})"
proof (cases "snd fi \<and> REGEX_UUID (fst fi)")
  case True
  obtain w1 e where a: "addGuestWatch env w (fst fi) (path_Join [ServersPath w, fst fi]) = (w1, e)"
    by (meson surj_pair)
  with assms True have "update_guest env False w1 (fst fi) = Inr w'" by (simp add: scan_entry_def)
  from update_guest_dom [OF this] a True show ?thesis
    by (auto simp: addGuestWatch_def split: option.splits)
qed (use assms in \<open>auto simp: scan_entry_def split: if_splits\<close>)

lemma scan_foldl_dom:
  "res_foldl (scan_entry env) w fis = Inr w' \<Longrightarrow>
   dom (gm_get (wGuests w')) = dom (gm_get (wGuests w)) \<union> {gid. (gid, True) \<in> set fis \<and> REGEX_UUID gid}"
proof (induction fis arbitrary: w)
  case (Cons fi fis)
  then obtain w1 where "scan_entry env w fi = Inr w1" "res_foldl (scan_entry env) w1 fis = Inr w'"
    by (auto simp: res_bind_Inr_iff)
  from scan_entry_dom [OF this(1)] Cons.IH [OF this(2)] show ?case
    by (cases fi) auto
qed simp

text \<open>A scan that can read the servers directory knows afterwards exactly the guests it knew
  before and the directories whose name is a UUID: it forgets none, and a guest whose directory
  has disappeared stays until the event of its removal arrives.\<close>

theorem scan_finds_guests:
  assumes "weReadDir env (ServersPath w) = Inr fis" "scan env w = Inr w'"
  shows "dom (gm_get (wGuests w')) = dom (gm_get (wGuests w)) \<union> {gid. (gid, True) \<in> set fis \<and> REGEX_UUID gid}"
  using assms scan_foldl_dom by (simp add: scan_def)

theorem scan_finds_guests_witness:
  "\<exists>w'. scan demo_watch_env (newServersWatcher demo_config Map.empty) = Inr w' \<and> demo_uuid \<in> dom (gm_get (wGuests w'))"
proof -
  let ?w = "newServersWatcher demo_config Map.empty :: (string \<rightharpoonup> string) serversWatcher"
  have "is_ok (scan demo_watch_env ?w)" by code_simp
  then obtain w' where w': "scan demo_watch_env ?w = Inr w'" by (cases "scan demo_watch_env ?w") auto
  have rd: "weReadDir demo_watch_env (ServersPath ?w) = Inr [(demo_uuid, True)]" by (simp add: demo_watch_env_def)
  have "REGEX_UUID demo_uuid" by code_simp
  with scan_finds_guests [OF rd w'] w' show ?thesis by auto
qed

section \<open>Removal of a guest\<close>

lemma removal_effect:
  assumes "gm_get (wGuests w) gid = Some g" "watch_event (ServersPath w) ev = Some wev"
    and "weType wev = watchEventTypeDelServerDir" "weGuestId wev = gid"
    and "zone_ok (ssZoneMan (wSync w))"
  shows "\<exists>w'. watcher_turn env w (InEvent ev) = WGo w'
    \<and> gm_get (wGuests w') = (gm_get (wGuests w))(gid := None)
    \<and> ssOut (wSync w') = ssOut (wSync w)
        @ map (\<lambda>br. FlowCmd br (UpdateFlowsCmd (gId (sgGuest g)) []))
            (filter (seFlowMan (weSync env)) (remdups (map nicBridge (gNICs (sgGuest g)))))
        @ (if ssTcMan (wSync w) then [TcCmd (ClearIfaces (gId (sgGuest g)))] else [])
        @ (if optDisableLocalVpc (hcOptions (wConfig w)) then []
           else [OvnSetGuestNICs (gId (sgGuest g)) [], OvnMdSetGuestNICs (gId (sgGuest g)) []])
    \<and> zone_of (ssZoneMan (wSync w')) = zone_of (ssZoneMan (wSync w)) |` (- nicMAC ` set (gNICs (sgGuest g)))"
proof -
  let ?c = "clear_guest env w gid"
  let ?w = "?c\<lparr>wGuests := gm_del (wGuests ?c) gid\<rparr>"
  let ?z = "free_zones (ssZoneMan (wSync w)) (map nicMAC (gNICs (sgGuest g)))"
  have t: "watcher_turn env w (InEvent ev) = WGo ?w"
    using assms(2-4) by (simp add: watcher_turn_def handle_event_def Let_def w_of_WGo)
  have guests: "gm_get (wGuests ?w) = (gm_get (wGuests w))(gid := None)"
    using assms(1) by (auto simp: clear_guest_def split: prod.splits)
  have out: "ssOut (wSync ?w) = ssOut (wSync w)
        @ map (\<lambda>br. FlowCmd br (UpdateFlowsCmd (gId (sgGuest g)) []))
            (filter (seFlowMan (weSync env)) (remdups (map nicBridge (gNICs (sgGuest g)))))
        @ (if ssTcMan (wSync w) then [TcCmd (ClearIfaces (gId (sgGuest g)))] else [])
        @ (if optDisableLocalVpc (hcOptions (wConfig w)) then []
           else [OvnSetGuestNICs (gId (sgGuest g)) [], OvnMdSetGuestNICs (gId (sgGuest g)) []])"
    and z: "ssZoneMan (wSync ?w) = ?z"
    using assms(1)
    by (auto simp: clear_guest_def guest_ClearSettings_def clearClassicFlows_def clearPending_def clearTc_def
        clearOvn_def emit_def Let_def flow_cmds_def filter_map o_def)
  have "zone_of ?z = zone_of (ssZoneMan (wSync w)) |` (- nicMAC ` set (gNICs (sgGuest g)))"
    using free_zones_of [OF assms(5)] by (auto simp: restrict_map_def fun_eq_iff)
  with t guests out z show ?thesis by metis
qed

text \<open>When the directory of a guest is removed, the guest leaves the map and no other guest
  changes; the flow manager of every bridge of its cards that has one is told to drop the flows
  of the guest, then the tc manager its interfaces and the OVN managers its cards, where there are such managers; and the
  zones of its cards, and only those, are free again.\<close>

theorem removed_guest_is_cleared:
  assumes "gm_get (wGuests w) gid = Some g" "watch_event (ServersPath w) ev = Some wev"
    and "weType wev = watchEventTypeDelServerDir" "weGuestId wev = gid"
    and "zone_ok (ssZoneMan (wSync w))"
  shows "\<exists>w'. watcher_turn env w (InEvent ev) = WGo w'
    \<and> gm_get (wGuests w') = (gm_get (wGuests w))(gid := None)
    \<and> ssOut (wSync w') = ssOut (wSync w)
        @ map (\<lambda>br. FlowCmd br (UpdateFlowsCmd (gId (sgGuest g)) []))
            (filter (seFlowMan (weSync env)) (remdups (map nicBridge (gNICs (sgGuest g)))))
        @ (if ssTcMan (wSync w) then [TcCmd (ClearIfaces (gId (sgGuest g)))] else [])
        @ (if optDisableLocalVpc (hcOptions (wConfig w)) then []
           else [OvnSetGuestNICs (gId (sgGuest g)) [], OvnMdSetGuestNICs (gId (sgGuest g)) []])
    \<and> zone_of (ssZoneMan (wSync w')) = zone_of (ssZoneMan (wSync w)) |` (- nicMAC ` set (gNICs (sgGuest g)))"
  by (rule removal_effect [OF assms])

theorem removed_guest_is_cleared_witness:
  "\<exists>w'. watcher_turn demo_watch_env
       \<lparr>wSync = demo_state, wGuests = [(demo_uuid, demo_sg)], wNetIdIpNicCache = Map.empty,
        wBridgeIpNicCache = Map.empty, wBridgeMap = []\<rparr>
       (InEvent \<lparr>evName = ''/opt/servers/01234567-89ab-cdef-0123-456789abcdef'',
         evCreate = False, evWrite = False, evRemove = True\<rparr>) = WGo w'
     \<and> gm_get (wGuests w') = Map.empty"
proof -
  let ?w = "\<lparr>wSync = demo_state, wGuests = [(demo_uuid, demo_sg)], wNetIdIpNicCache = Map.empty,
        wBridgeIpNicCache = Map.empty, wBridgeMap = []\<rparr> :: (string \<rightharpoonup> string) serversWatcher"
  let ?ev = "\<lparr>evName = ''/opt/servers/01234567-89ab-cdef-0123-456789abcdef'',
         evCreate = False, evWrite = False, evRemove = True\<rparr>"
  have ev: "watch_event (ServersPath ?w) ?ev = Some \<lparr>weType = watchEventTypeDelServerDir, weGuestId = demo_uuid,
     weGuestPath = ''/opt/servers/01234567-89ab-cdef-0123-456789abcdef''\<rparr>" by code_simp
  from removed_guest_is_cleared [of ?w demo_uuid demo_sg, OF _ ev] demo_zone_ok
  show ?thesis by fastforce
qed

section \<open>What a flow manager sees of a refresh\<close>

definition sent_to :: "string \<Rightarrow> effect list \<Rightarrow> flowManCmd list" where
  "sent_to br es = concat (map (\<lambda>e. case e of FlowCmd b c \<Rightarrow> if b = br then [c] else [] | _ \<Rightarrow> []) es)"

lemma sent_to_simps [simp]:
  "sent_to br [] = []" "sent_to br (es @ es') = sent_to br es @ sent_to br es'"
  "sent_to br [TcCmd c] = []"
  by (simp_all add: sent_to_def)

lemma sent_to_bridges: "sent_to br es = [] \<longleftrightarrow> br \<notin> set (flow_bridges es)"
  by (induction es) (auto simp: sent_to_def flow_bridges_def split: effect.splits if_splits)

lemma sent_to_syncs:
  assumes "distinct brs"
  shows "sent_to br (map (\<lambda>b. FlowCmd b SyncFlowsCmd) brs) = (if br \<in> set brs then [SyncFlowsCmd] else [])"
  using assms by (induction brs) (auto simp: sent_to_def)

lemma plain_cmd_updates: "list_all plain_cmd es \<Longrightarrow> \<exists>us. sent_to br es = map (\<lambda>(who, fs). UpdateFlowsCmd who fs) us"
proof (induction es)
  case (Cons e es)
  then obtain us where us: "sent_to br es = map (\<lambda>(who, fs). UpdateFlowsCmd who fs) us" by auto
  show ?case
  proof (cases "\<exists>who fs. e = FlowCmd br (UpdateFlowsCmd who fs)")
    case True
    then obtain who fs where "e = FlowCmd br (UpdateFlowsCmd who fs)" by blast
    with us have "sent_to br (e # es) = map (\<lambda>(who, fs). UpdateFlowsCmd who fs) ((who, fs) # us)"
      by (simp add: sent_to_def)
    then show ?thesis by blast
  next
    case False
    with Cons.prems have "sent_to br (e # es) = sent_to br es"
      by (auto simp: sent_to_def split: effect.splits elim: plain_cmd.elims)
    with us show ?thesis by auto
  qed
qed simp

lemma withWait_cmds:
  "snd (snd (withWait fm us)) =
     map (\<lambda>(who, fs). UpdateFlowsCmd who fs) us @ (if us = [] then [] else [SyncFlowsCmd])"
proof -
  obtain fm1 wd cs where r: "updates_in_wait fm (Some []) us = (fm1, wd, cs)"
    by (cases "updates_in_wait fm (Some []) us") auto
  from updates_in_wait_count [OF r] r show ?thesis
    by (cases us) (auto simp: withWait_def split: option.splits)
qed

lemma withWait_sent:
  assumes "watcher_withWait f w = Inr w'" "\<And>w1. f w = Inr w1 \<Longrightarrow> w_le w w1"
  shows "\<exists>es us. ssOut (wSync w') = ssOut (wSync w) @ es \<and> sent_to br es = snd (snd (withWait fm us))"
  using assms(1)
proof (rule withWait_ok)
  fix w1 assume 1: "f w = Inr w1" "ssTcMan (wSync w1)"
    "w' = w1\<lparr>wSync := emit (map (\<lambda>br. FlowCmd br SyncFlowsCmd)
       (flow_bridges (drop (length (ssOut (wSync w))) (ssOut (wSync w1)))) @ [TcCmd SyncAll]) (wSync w1)\<rparr>"
  from assms(2) [OF 1(1)] obtain es where es: "ssOut (wSync w1) = ssOut (wSync w) @ es" "list_all plain_cmd es"
    by (auto simp: w_le_def sync_le_def)
  from plain_cmd_updates [OF es(2)] obtain us where
    us: "sent_to br es = map (\<lambda>(who, fs). UpdateFlowsCmd who fs) us" by blast
  let ?new = "es @ map (\<lambda>br. FlowCmd br SyncFlowsCmd) (flow_bridges es) @ [TcCmd SyncAll]"
  have "ssOut (wSync w') = ssOut (wSync w) @ ?new" by (simp add: 1(3) es(1) emit_def)
  moreover have "sent_to br ?new = snd (snd (withWait fm us))"
    using sent_to_bridges [of br es] sent_to_syncs [of "flow_bridges es" br]
    by (auto simp: withWait_cmds us flow_bridges_def)
  ultimately show ?thesis by blast
qed



section \<open>Lookups\<close>

text \<open>The cache of the lookups by network and address has the network alone as its key: while an
  entry lives, every address of the network gets the guest of the address that was asked first.\<close>

lemma netid_cache_ignores_ip:
  assumes "watcher_turn env w (InFindByIdIP netId ip) = WReply w1 (Some d)"
    and "weCacheGet env (wNetIdIpNicCache w) netId = None"
    and "weCacheGet env' (weCacheSet env (wNetIdIpNicCache w) netId d) netId = Some d"
  shows "watcher_turn env' w1 (InFindByIdIP netId ip') = WReply w1 (Some d)"
proof -
  have "w1 = w\<lparr>wNetIdIpNicCache := weCacheSet env (wNetIdIpNicCache w) netId d\<rparr>"
    using assms(1,2) by (auto simp: watcher_turn_def cmdFindGuestDescByIdIP_def split: option.splits)
  with assms(3) show ?thesis by (simp add: watcher_turn_def cmdFindGuestDescByIdIP_def)
qed

text \<open>Nothing fills the map that \<open>GetHostLocalByIp4\<close> searches.\<close>

lemma GetHostLocalByIp4_never: "w_reach E hc w \<Longrightarrow> GetHostLocalByIp4 w ip = None"
  using w_reach_inv by (fastforce simp: w_inv_def GetHostLocalByIp4_def)

end
