(* ===== verification/OvnMan.thy ===== *)
theory OvnMan
  imports FlowSource FlowMan
begin

text \<open>
  The manager of the VPC cards, \<open>pkg/agent/server/ovn.go\<close>: patch ports between the mapped bridge and
  the integration bridge, one pair per VPC, and the flows that translate the addresses of the
  cards.

  The commands it gives are values of \<open>ovn_effect\<close>, in the order in which they are given; what they
  return, and what the manager reads from the switch, the kernel and the region, are fields of
  \<open>ovn_env\<close>.  The iptables chains are part of the state, because a loop of the manager depends on
  them: the first line is the policy, the others are the rules.
\<close>

section \<open>State\<close>

datatype ovn_effect =
    OvsCtl "string list"
  | LinkUp string
  | AddrExact string "string list"
  | NatAppend bool "string list"
  | OvnFlow string flowManCmd
  | PortDel string string

record ovn_env =
  oeMappedBridge :: string
  oeIntegrationBridge :: string
  oeMappedCidr :: string
  oeMappedCidr6 :: string
  oeHashMac :: "string \<Rightarrow> string"
  oeHostGet :: "string \<Rightarrow> (string \<times> string) result"
  oeRunOvsctl :: "string list \<Rightarrow> unit result"
  oeLinkUp :: "unit result"
  oeAddrExact :: "string list \<Rightarrow> unit result"
  oeIptClient :: "bool \<Rightarrow> unit result"
  oeNatAppend :: "bool \<Rightarrow> unit result"
  oeIptList :: "bool \<Rightarrow> string \<Rightarrow> unit result"
  oeIptInsert :: "bool \<Rightarrow> string \<Rightarrow> unit result"
  oeRuleText :: "string \<Rightarrow> string list \<Rightarrow> string"
  oeDumpPort :: "string \<Rightarrow> string \<Rightarrow> int result"
  oeListBridges :: "string list result"
  oeListPorts :: "string \<Rightarrow> string list result"
  oeIsLink :: "string \<Rightarrow> bool"
  oeHasFlowMan :: "string \<Rightarrow> bool"
  oeUnmarshal :: "string \<Rightarrow> flow result"

record ovnMan =
  omHostId :: string
  omIp :: string
  omIp6 :: string
  omMac :: string
  omGuestNics :: "(string, GuestNIC list) gomap"
  omVpcPnames :: "(string, string) gomap"
  omChains :: "bool \<times> string \<Rightarrow> string list"
  omOut :: "ovn_effect list"

definition newOvnMan :: "(bool \<times> string \<Rightarrow> string list) \<Rightarrow> ovnMan" where
  "newOvnMan ch = \<lparr>omHostId = '''', omIp = '''', omIp6 = '''', omMac = '''', omGuestNics = [],
     omVpcPnames = [], omChains = ch, omOut = []\<rparr>"

definition ovn_emit :: "ovn_effect list \<Rightarrow> ovnMan \<Rightarrow> ovnMan" where
  "ovn_emit es man = man\<lparr>omOut := omOut man @ es\<rparr>"

definition pnamePrefix :: string where "pnamePrefix = ''v-''"
definition pnameSuffix :: string where "pnameSuffix = ''-p''"

text \<open>\<open>updateFlows\<close> of the manager of a bridge, where it has one.\<close>

definition ovn_updateFlows :: "ovn_env \<Rightarrow> string \<Rightarrow> flow list \<Rightarrow> ovnMan \<Rightarrow> ovnMan" where
  "ovn_updateFlows env who fs man =
     (if oeHasFlowMan env (oeMappedBridge env)
      then ovn_emit [OvnFlow (oeMappedBridge env) (UpdateFlowsCmd who fs)] man else man)"

section \<open>The mapped bridge\<close>

definition VpcMappedIPMask :: int where "VpcMappedIPMask = 17"
definition VpcMappedIPMask6 :: int where "VpcMappedIPMask6 = 100"
definition VpcMappedGatewayMac :: string where "VpcMappedGatewayMac = ''ee:ee:ee:ee:ee:ee''"

text \<open>A command whose error ends the caller.\<close>

definition step :: "ovn_effect \<Rightarrow> unit result \<Rightarrow> (ovnMan \<Rightarrow> ovnMan \<times> unit result) \<Rightarrow> ovnMan \<Rightarrow> ovnMan \<times> unit result" where
  "step e r k man = (case r of Inl x \<Rightarrow> (ovn_emit [e] man, Inl x) | Inr _ \<Rightarrow> k (ovn_emit [e] man))"

definition nat_rule :: "string \<Rightarrow> string \<Rightarrow> string list" where
  "nat_rule cidr comment = [''-s'', cidr, ''-m'', ''comment'', ''--comment'', comment, ''-j'', ''MASQUERADE'']"

definition ensureMappedBridge :: "ovn_env \<Rightarrow> ovnMan \<Rightarrow> ovnMan \<times> unit result" where
  "ensureMappedBridge env man =
     (let br = oeMappedBridge env;
          args = [''ovs-vsctl'', ''--'', ''--may-exist'', ''add-br'', br,
                  ''--'', ''set'', ''Bridge'', br, ''other-config:hwaddr='' @ omMac man];
          addrs = [omIp man @ ''/'' @ show_int VpcMappedIPMask]
                  @ (if omIp6 man \<noteq> '''' then [omIp6 man @ ''/'' @ show_int VpcMappedIPMask6] else []);
          masq = (\<lambda>v6 rule k man. case oeIptClient env v6 of
                     Inl x \<Rightarrow> (man, Inl x)
                   | Inr _ \<Rightarrow> step (NatAppend v6 rule) (oeNatAppend env v6) k man)
      in step (OvsCtl args) (oeRunOvsctl env args)
           (step (LinkUp br) (oeLinkUp env)
             (step (AddrExact br addrs) (oeAddrExact env addrs)
               (masq False (nat_rule (oeMappedCidr env) ''sdnagent: ovn distgw'')
                 (masq True (nat_rule (oeMappedCidr6 env) ''sdnagent: ovn distgw v6'')
                   (\<lambda>man. (man, Inr ())))))) man)"

definition ensureBasicFlows :: "ovn_env \<Rightarrow> ovnMan \<Rightarrow> ovnMan result" where
  "ensureBasicFlows env man =
     res_bind (res_map (F (oeUnmarshal env))
       [fl 0 3050 (''in_port=LOCAL,arp,arp_op=1,arp_tpa='' @ oeMappedCidr env) (FakeArpRespActions (omMac man)),
        fl 0 32000 (''ip,nw_dst='' @ oeMappedCidr env) ''drop'']) (\<lambda>fs.
     Inr (ovn_updateFlows env ''o'' fs man))"

text \<open>\<open>setIpMac\<close>: the outer result is a panic, the inner one the error returned.\<close>

definition setIpMac :: "ovn_env \<Rightarrow> ovnMan \<Rightarrow> (ovnMan \<times> unit result) result" where
  "setIpMac env man =
     (let man = man\<lparr>omMac := oeHashMac env (omHostId man)\<rparr>
      in case oeHostGet env (omHostId man) of
           Inl e \<Rightarrow> Inr (man, Inl e)
         | Inr (ip, ip6) \<Rightarrow>
             let man = man\<lparr>omIp := ip\<rparr>
             in if ip = '''' then Inr (man, Inl (Err (''Host '' @ omHostId man @ '' has no mapped addr'')))
                else case ensureMappedBridge env (man\<lparr>omIp6 := ip6\<rparr>) of
                       (man, Inl e) \<Rightarrow> Inr (man, Inl e)
                     | (man, Inr _) \<Rightarrow>
                         res_bind (ensureBasicFlows env man) (\<lambda>man. Inr (man, Inr ())))"

definition SetHostId :: "ovn_env \<Rightarrow> string \<Rightarrow> ovnMan \<Rightarrow> ovnMan result" where
  "SetHostId env hostId man =
     (if omHostId man = ''''
      then res_bind (setIpMac env (man\<lparr>omHostId := hostId\<rparr>)) (\<lambda>(man, _). Inr man)
      else Inr man)"

section \<open>The Geneve rule\<close>

definition strings_Contains :: "string \<Rightarrow> string \<Rightarrow> bool" where
  "strings_Contains s t = list_ex (\<lambda>i. take (length t) (drop i s) = t) [0..<Suc (length s)]"

text \<open>Deleting a rule until that fails: \<open>Delete\<close> takes the first copy away.\<close>

function delete_rules :: "string \<Rightarrow> string list \<Rightarrow> string list" where
  "delete_rules r rules = (if r \<in> set rules then delete_rules r (remove1 r rules) else rules)"
  by auto
termination
  by (relation "measure (length \<circ> snd)") (auto simp: length_remove1 dest: length_pos_if_in_set)

definition fastpath_spec :: "string \<Rightarrow> string list" where
  "fastpath_spec chain = [''-p'', ''udp'', ''--dport'', ''6081'', ''-m'', ''comment'', ''--comment'',
     ''sdnagent: '' @ chain @ '' fastpath for geneve'', ''-j'', ''ACCEPT'']"

definition geneve_chain :: "ovn_env \<Rightarrow> bool \<Rightarrow> string \<Rightarrow> string list \<Rightarrow> string list" where
  "geneve_chain env v6 chain rules =
     (let rule = oeRuleText env chain (fastpath_spec chain)
      in if \<not> is_ok (oeIptClient env v6) \<or> \<not> is_ok (oeIptList env v6 chain) then rules
         else if length rules > 1 \<and> strings_Contains (rules ! 0) (rules ! 1) then rules
         else let rest = delete_rules rule (tl rules)
              in if is_ok (oeIptInsert env v6 chain) then take 1 rules @ rule # rest else take 1 rules @ rest)"

definition ensureGeneveFastpath :: "ovn_env \<Rightarrow> ovnMan \<Rightarrow> ovnMan" where
  "ensureGeneveFastpath env man =
     foldl (\<lambda>man (v6, c). man\<lparr>omChains := (omChains man)((v6, c) := geneve_chain env v6 c (omChains man (v6, c)))\<rparr>)
       man [(False, ''INPUT''), (False, ''OUTPUT''), (True, ''INPUT''), (True, ''OUTPUT'')]"

section \<open>Ports and flows of the VPCs\<close>

text \<open>The names of the two patch ports of a VPC.  The slice expression panics on an id that is
  shorter.\<close>

definition pnamePair :: "string \<Rightarrow> ovnMan \<Rightarrow> (ovnMan \<times> string \<times> string) result" where
  "pnamePair vpcId man =
     (let n = 15 - length pnamePrefix - length pnameSuffix
      in case gm_get (omVpcPnames man) vpcId of
           Some b \<Rightarrow> Inr (man, b, b @ pnameSuffix)
         | None \<Rightarrow>
             if length vpcId < n then Inl (Panic ''slice bounds out of range'')
             else let b = pnamePrefix @ take n vpcId
                  in Inr (man\<lparr>omVpcPnames := gm_set (omVpcPnames man) vpcId b\<rparr>, b, b @ pnameSuffix))"

definition ensureMappedBridgeVpcPort :: "ovn_env \<Rightarrow> string \<Rightarrow> ovnMan \<Rightarrow> (ovnMan \<times> unit result) result" where
  "ensureMappedBridgeVpcPort env vpcId man =
     res_bind (pnamePair vpcId man) (\<lambda>(man, mine, peer).
       let ifaceId = ''vpc-h/'' @ vpcId @ ''/'' @ omHostId man;
           args = [''ovs-vsctl'', ''--'', ''--may-exist'', ''add-port'', oeMappedBridge env, mine,
                   ''--'', ''set'', ''Interface'', mine, ''type=patch'', ''options:peer='' @ peer,
                   ''--'', ''--may-exist'', ''add-port'', oeIntegrationBridge env, peer,
                   ''--'', ''set'', ''Interface'', peer, ''type=patch'', ''options:peer='' @ mine,
                   ''external_ids:iface-id='' @ ifaceId]
       in Inr (ovn_emit [OvsCtl args] man, oeRunOvsctl env args))"

definition ensureMappedBridgeVpcPortFlows :: "ovn_env \<Rightarrow> string \<Rightarrow> ovnMan \<Rightarrow> (ovnMan \<times> unit result) result" where
  "ensureMappedBridgeVpcPortFlows env vpcId man =
     res_bind (pnamePair vpcId man) (\<lambda>(man, mine, _).
       case oeDumpPort env (oeMappedBridge env) mine of
         Inl e \<Rightarrow> Inr (man, Inl e)
       | Inr pnoMine \<Rightarrow>
           if oeHasFlowMan env (oeMappedBridge env) then
             res_bind (F (oeUnmarshal env) (fl 0 30000 (''in_port='' @ show_int pnoMine) ''drop'')) (\<lambda>f.
               Inr (ovn_updateFlows env mine [f] man, Inr ()))
           else Inr (man, Inr ()))"

definition vpc_nic_flows :: "string \<Rightarrow> int \<Rightarrow> GuestNIC \<Rightarrow> flow_spec list" where
  "vpc_nic_flows mac pnoMine nic =
     (if nicVpcMappedIpAddr nic \<noteq> '''' \<and> length (nicIP nic) > 0 then
        [fl 0 33000 (''in_port=LOCAL,ip,nw_dst='' @ nicVpcMappedIpAddr nic)
           (''mod_dl_dst:'' @ VpcMappedGatewayMac @ '',mod_nw_dst:'' @ nicIP nic @ '',output:'' @ show_int pnoMine),
         fl 0 31000 (''in_port='' @ show_int pnoMine @ '',dl_src='' @ VpcMappedGatewayMac @ '',ip,nw_src='' @ nicIP nic)
           (''mod_dl_dst:'' @ mac @ '',mod_nw_src:'' @ nicVpcMappedIpAddr nic @ '',LOCAL'')]
      else [])
     @ (if nicVpcMappedIp6Addr nic \<noteq> '''' \<and> length (nicIP6 nic) > 0 then
        [fl 0 33000 (''in_port=LOCAL,ipv6,ipv6_dst='' @ nicVpcMappedIp6Addr nic)
           (''mod_dl_dst:'' @ VpcMappedGatewayMac @ '',mod_nw_dst:'' @ nicIP6 nic @ '',output:'' @ show_int pnoMine),
         fl 0 31000 (''in_port='' @ show_int pnoMine @ '',dl_src='' @ VpcMappedGatewayMac @ '',ipv6,ipv6_src='' @ nicIP6 nic)
           (''mod_dl_dst:'' @ mac @ '',set_field:'' @ nicVpcMappedIp6Addr nic @ ''->ipv6_src,LOCAL'')]
      else [])"

text \<open>The ports of a VPC, at its first card.  The flag says whether the loop goes on with the card.\<close>

definition ensure_vpc :: "ovn_env \<Rightarrow> string \<Rightarrow> ovnMan \<Rightarrow> (ovnMan \<times> bool) result" where
  "ensure_vpc env vpcId man =
     res_bind (ensureMappedBridgeVpcPort env vpcId man) (\<lambda>(man, r).
       case r of
         Inl _ \<Rightarrow> Inr (man, False)
       | Inr _ \<Rightarrow>
           res_bind (ensureMappedBridgeVpcPortFlows env vpcId man) (\<lambda>(man, r). Inr (man, is_ok r)))"

fun guest_nics_loop ::
  "ovn_env \<Rightarrow> string list \<Rightarrow> ovnMan \<Rightarrow> flow list \<Rightarrow> GuestNIC list \<Rightarrow> (ovnMan \<times> flow list) result" where
  "guest_nics_loop env vpcIds man flows [] = Inr (man, flows)"
| "guest_nics_loop env vpcIds man flows (nic # nics) =
     (let vpcId = nicVpcId nic
      in if vpcId = '''' then guest_nics_loop env vpcIds man flows nics
         else res_bind (if vpcId \<notin> set vpcIds then ensure_vpc env vpcId man else Inr (man, True)) (\<lambda>(man, go).
           if \<not> go then guest_nics_loop env (vpcId # vpcIds) man flows nics
           else res_bind (pnamePair vpcId man) (\<lambda>(man, mine, _).
             case oeDumpPort env (oeMappedBridge env) mine of
               Inl _ \<Rightarrow> guest_nics_loop env (vpcId # vpcIds) man flows nics
             | Inr pnoMine \<Rightarrow>
                 res_bind (res_map (F (oeUnmarshal env)) (vpc_nic_flows (omMac man) pnoMine nic)) (\<lambda>fs.
                   guest_nics_loop env (vpcId # vpcIds) man (flows @ fs) nics))))"

definition ensureGuestFlows :: "ovn_env \<Rightarrow> string \<Rightarrow> ovnMan \<Rightarrow> ovnMan result" where
  "ensureGuestFlows env guestId man =
     (let nics = (case gm_get (omGuestNics man) guestId of None \<Rightarrow> [] | Some ns \<Rightarrow> ns)
      in res_bind (guest_nics_loop env [] man [] nics) (\<lambda>(man, flows).
           Inr (ovn_updateFlows env guestId flows man)))"

section \<open>Cleaning up\<close>

definition used_vpcs :: "(string, GuestNIC list) gomap \<Rightarrow> string list" where
  "used_vpcs gn = concat (map (\<lambda>(_, nics). map nicVpcId nics) gn)"

text \<open>A bridge that does not exist has no ports.\<close>

definition listPorts :: "ovn_env \<Rightarrow> string \<Rightarrow> string list option" where
  "listPorts env br =
     (case oeListBridges env of
        Inl _ \<Rightarrow> None
      | Inr brs \<Rightarrow>
          if br \<notin> set brs then Some []
          else case oeListPorts env br of Inl _ \<Rightarrow> None | Inr ps \<Rightarrow> Some (remdups ps))"

definition delPorts :: "ovn_env \<Rightarrow> string \<Rightarrow> string list \<Rightarrow> ovnMan \<Rightarrow> ovnMan" where
  "delPorts env br pnames man =
     ovn_emit (map (PortDel br) (filter (\<lambda>p. HasPrefix p pnamePrefix \<and> \<not> oeIsLink env p) pnames)) man"

text \<open>\<open>cleanup\<close>; the names of the ports that stay are read from the map, whose keys are all there, so
  \<open>pnamePair\<close> changes nothing.\<close>

definition ovn_forget :: "ovnMan \<Rightarrow> ovnMan" where
  "ovn_forget man =
     (let gn = filter (\<lambda>(_, nics). length nics \<noteq> 0) (omGuestNics man)
      in man\<lparr>omGuestNics := gn,
             omVpcPnames := filter (\<lambda>(v, _). v \<in> set (used_vpcs gn)) (omVpcPnames man)\<rparr>)"

definition ovn_cleanup :: "ovn_env \<Rightarrow> ovnMan \<Rightarrow> ovnMan" where
  "ovn_cleanup env man =
     (let man = ovn_forget man;
          mine = map snd (omVpcPnames man);
          peer = map (\<lambda>(_, b). b @ pnameSuffix) (omVpcPnames man)
      in case listPorts env (oeIntegrationBridge env) of
           None \<Rightarrow> man
         | Some pnamesPeer \<Rightarrow>
             (case listPorts env (oeMappedBridge env) of
                None \<Rightarrow> man
              | Some pnamesMine \<Rightarrow>
                  delPorts env (oeIntegrationBridge env) (filter (\<lambda>p. p \<notin> set peer) pnamesPeer)
                    (delPorts env (oeMappedBridge env) (filter (\<lambda>p. p \<notin> set mine) pnamesMine) man)))"

fun ovn_guests :: "ovn_env \<Rightarrow> string list \<Rightarrow> ovnMan \<Rightarrow> ovnMan result" where
  "ovn_guests env [] man = Inr man"
| "ovn_guests env (g # gs) man = res_bind (ensureGuestFlows env g man) (ovn_guests env gs)"

definition ovn_refresh :: "ovn_env \<Rightarrow> ovnMan \<Rightarrow> ovnMan result" where
  "ovn_refresh env man =
     (let man = ensureGeneveFastpath env man
      in if omHostId man = '''' then Inr man
         else res_bind (setIpMac env man) (\<lambda>(man, r).
                case r of
                  Inl _ \<Rightarrow> Inr man
                | Inr _ \<Rightarrow> ovn_guests env (map fst (omGuestNics man)) man))"

section \<open>The loop\<close>

datatype ovn_input = OvnReq string "GuestNIC list" | OvnTick

definition ovn_turn :: "ovn_env \<Rightarrow> ovnMan \<Rightarrow> ovn_input \<Rightarrow> ovnMan result" where
  "ovn_turn env man inp =
     (case inp of
        OvnReq guestId nics \<Rightarrow>
          ensureGuestFlows env guestId (man\<lparr>omGuestNics := gm_set (omGuestNics man) guestId nics\<rparr>)
      | OvnTick \<Rightarrow> ovn_refresh env (ovn_cleanup env man))"

section \<open>The Geneve rule comes first\<close>

declare delete_rules.simps [simp del]

lemma delete_rules_filter: "delete_rules r rules = filter (\<lambda>x. x \<noteq> r) rules"
proof (induction r rules rule: delete_rules.induct)
  case (1 r rules)
  have "filter (\<lambda>x. x \<noteq> r) (remove1 r rules) = filter (\<lambda>x. x \<noteq> r) rules" by (induction rules) auto
  then show ?case
    using 1 by (subst delete_rules.simps) (auto simp: filter_id_conv intro: sym)
qed

text \<open>A policy line does not contain a rule, so the rule is taken out and put back every time.\<close>

lemma geneve_reinserted:
  assumes "is_ok (oeIptClient env v6)" "is_ok (oeIptList env v6 chain)" "is_ok (oeIptInsert env v6 chain)"
    and "\<not> strings_Contains policy (hd rules)" "rules \<noteq> []"
  shows "geneve_chain env v6 chain (policy # rules) =
    policy # oeRuleText env chain (fastpath_spec chain)
      # filter (\<lambda>r. r \<noteq> oeRuleText env chain (fastpath_spec chain)) rules"
  using assms by (cases rules) (simp_all add: geneve_chain_def delete_rules_filter Let_def)

section \<open>Names of the patch ports\<close>

text \<open>What a step keeps: the cards of the guests and the names of the VPCs that have one; new VPCs
  only get names.\<close>

definition names_le :: "ovnMan \<Rightarrow> ovnMan \<Rightarrow> bool" where
  "names_le man man' \<longleftrightarrow> omGuestNics man' = omGuestNics man
     \<and> dom (gm_get (omVpcPnames man)) \<subseteq> dom (gm_get (omVpcPnames man'))
     \<and> (gm_wf (omVpcPnames man) \<longrightarrow> gm_wf (omVpcPnames man'))"

lemma names_le_refl [simp]: "names_le man man"
  by (simp add: names_le_def)

lemma names_le_trans [trans]: "names_le a b \<Longrightarrow> names_le b c \<Longrightarrow> names_le a c"
  by (auto simp: names_le_def)

lemma names_le_emit [simp]:
  "names_le man (ovn_emit es man') = names_le man man'" "names_le man (ovn_updateFlows env who fs man') = names_le man man'"
  by (simp_all add: names_le_def ovn_emit_def ovn_updateFlows_def)

lemma pnames_emit [simp]:
  "omVpcPnames (ovn_emit es man) = omVpcPnames man"
  "omVpcPnames (ovn_updateFlows env who fs man) = omVpcPnames man"
  by (simp_all add: ovn_emit_def ovn_updateFlows_def)

interpretation vpc_names: patch_names omVpcPnames pnamePair "\<lambda>v. pnamePrefix @ take 11 v" 11 pnameSuffix
  by unfold_locales (auto simp: pnamePair_def Let_def pnamePrefix_def pnameSuffix_def)

lemma pnamePair_names:
  assumes "pnamePair v man = Inr (man', mine, peer)"
  shows "names_le man man' \<and> gm_get (omVpcPnames man') v = Some mine \<and> peer = mine @ pnameSuffix"
proof -
  have "omGuestNics man' = omGuestNics man"
    using assms by (auto simp: pnamePair_def Let_def split: option.splits if_splits)
  with vpc_names.pair_names [OF assms] show ?thesis by (auto simp: names_le_def)
qed

lemma VpcPort_names:
  assumes "ensureMappedBridgeVpcPort env v man = Inr (man', r)"
  shows "names_le man man' \<and> v \<in> dom (gm_get (omVpcPnames man'))"
proof (cases "pnamePair v man")
  case (Inr q)
  obtain man1 mine peer where q: "q = (man1, mine, peer)" by (cases q)
  have "\<exists>es. man' = ovn_emit es man1"
    using assms unfolding ensureMappedBridgeVpcPort_def Inr q res_bind.simps prod.case Let_def
    by (metis Inr_inject prod.inject)
  with pnamePair_names [OF Inr [unfolded q]] show ?thesis by auto
qed (use assms in \<open>simp add: ensureMappedBridgeVpcPort_def\<close>)

lemma VpcPortFlows_names:
  assumes "ensureMappedBridgeVpcPortFlows env v man = Inr (man', r)"
  shows "names_le man man'"
proof (cases "pnamePair v man")
  case (Inr q)
  obtain man1 mine peer where q: "q = (man1, mine, peer)" by (cases q)
  from assms have "man' = man1 \<or> (\<exists>fs. man' = ovn_updateFlows env mine fs man1)"
    unfolding ensureMappedBridgeVpcPortFlows_def Inr q
    by (auto simp: res_bind_Inr_iff split: sum.splits if_splits)
  with pnamePair_names [OF Inr [unfolded q]] show ?thesis by auto
qed (use assms in \<open>simp add: ensureMappedBridgeVpcPortFlows_def\<close>)

lemma ensure_vpc_names:
  assumes "ensure_vpc env v man = Inr (man', go)"
  shows "names_le man man' \<and> v \<in> dom (gm_get (omVpcPnames man'))"
proof -
  obtain man1 r where p: "ensureMappedBridgeVpcPort env v man = Inr (man1, r)"
    using assms by (auto simp: ensure_vpc_def res_bind_Inr_iff)
  have "names_le man1 man'"
  proof (cases r)
    case (Inr u)
    with assms p obtain r2 where "ensureMappedBridgeVpcPortFlows env v man1 = Inr (man', r2)"
      by (auto simp: ensure_vpc_def res_bind_Inr_iff)
    then show ?thesis by (rule VpcPortFlows_names)
  qed (use assms p in \<open>simp add: ensure_vpc_def\<close>)
  with VpcPort_names [OF p] show ?thesis using names_le_trans [of man man1 man'] by (auto simp: names_le_def)
qed

lemma guest_nics_loop_names:
  assumes "guest_nics_loop env vs man fs nics = Inr (man', fs')" "set vs \<subseteq> dom (gm_get (omVpcPnames man))"
  shows "names_le man man' \<and> (\<forall>nic\<in>set nics. nicVpcId nic \<noteq> '''' \<longrightarrow> nicVpcId nic \<in> dom (gm_get (omVpcPnames man')))"
  using assms
proof (induction nics arbitrary: vs man fs)
  case (Cons nic nics)
  let ?v = "nicVpcId nic"
  show ?case
  proof (cases "?v = ''''")
    case True
    with Cons.prems(1) have "guest_nics_loop env vs man fs nics = Inr (man', fs')" by simp
    from Cons.IH [OF this Cons.prems(2)] True show ?thesis by simp
  next
    case False
    obtain man1 go where e: "(if ?v \<notin> set vs then ensure_vpc env ?v man else Inr (man, True)) = Inr (man1, go)"
      and r: "(if \<not> go then guest_nics_loop env (?v # vs) man1 fs nics
           else res_bind (pnamePair ?v man1) (\<lambda>(man, mine, _).
             case oeDumpPort env (oeMappedBridge env) mine of
               Inl _ \<Rightarrow> guest_nics_loop env (?v # vs) man fs nics
             | Inr pnoMine \<Rightarrow>
                 res_bind (res_map (F (oeUnmarshal env)) (vpc_nic_flows (omMac man) pnoMine nic)) (\<lambda>fs2.
                   guest_nics_loop env (?v # vs) man (fs @ fs2) nics))) = Inr (man', fs')"
      using Cons.prems(1) [unfolded guest_nics_loop.simps Let_def if_not_P [OF False] res_bind_Inr_iff [where r = "if _ then _ else _"]]
      by (elim exE conjE) (simp only: split_paired_all prod.case)
    have le1: "names_le man man1" "?v \<in> dom (gm_get (omVpcPnames man1))"
      using e ensure_vpc_names [of env ?v man man1 go] Cons.prems(2) by (auto split: if_splits)
    obtain man2 fs2 where l: "guest_nics_loop env (?v # vs) man2 fs2 nics = Inr (man', fs')" and le2: "names_le man1 man2"
    proof (cases go)
      case True
      with r obtain man2 mine peer where p: "pnamePair ?v man1 = Inr (man2, mine, peer)"
        by (cases "pnamePair ?v man1") auto
      have le: "names_le man1 man2" using pnamePair_names [OF p] by simp
      show thesis
      proof (cases "oeDumpPort env (oeMappedBridge env) mine")
        case (Inl e)
        with r True p have "guest_nics_loop env (?v # vs) man2 fs nics = Inr (man', fs')" by simp
        with le show thesis by (rule that [rotated])
      next
        case (Inr n)
        with r True p obtain fs2 where "guest_nics_loop env (?v # vs) man2 (fs @ fs2) nics = Inr (man', fs')"
          by (cases "res_map (F (oeUnmarshal env)) (vpc_nic_flows (omMac man2) n nic)") simp_all
        with le show thesis by (rule that [rotated])
      qed
    qed (use r that in auto)
    have "names_le man man2" using le1(1) le2 by (rule names_le_trans)
    moreover have "set (?v # vs) \<subseteq> dom (gm_get (omVpcPnames man2))"
      using le1 le2 Cons.prems(2) unfolding names_le_def by (simp, blast)
    moreover note Cons.IH [OF l this]
    ultimately show ?thesis using names_le_trans by (auto simp: names_le_def)
  qed
qed simp

lemma ensureGuestFlows_names:
  assumes "ensureGuestFlows env g man = Inr man'"
  shows "names_le man man' \<and> (\<forall>nics. gm_get (omGuestNics man) g = Some nics \<longrightarrow>
    (\<forall>nic\<in>set nics. nicVpcId nic \<noteq> '''' \<longrightarrow> nicVpcId nic \<in> dom (gm_get (omVpcPnames man'))))"
proof -
  let ?nics = "case gm_get (omGuestNics man) g of None \<Rightarrow> [] | Some ns \<Rightarrow> ns"
  obtain man1 fs where l: "guest_nics_loop env [] man [] ?nics = Inr (man1, fs)"
    and m: "man' = ovn_updateFlows env g fs man1"
    using assms by (auto simp: ensureGuestFlows_def Let_def res_bind_Inr_iff)
  from guest_nics_loop_names [OF l] show ?thesis by (auto simp: m)
qed

lemma ovn_guests_names: "ovn_guests env gs man = Inr man' \<Longrightarrow> names_le man man'"
  by (induction gs arbitrary: man)
     (auto simp: res_bind_Inr_iff dest!: ensureGuestFlows_names intro: names_le_trans)

lemma step_same:
  "(\<And>m. f (fst (k m)) = f m) \<Longrightarrow> (\<And>m. f (ovn_emit [e] m) = f m) \<Longrightarrow> f (fst (step e r k man)) = f man"
  by (simp add: step_def split: sum.split)

lemma ensureMappedBridge_same:
  assumes "\<And>es m. f (ovn_emit es m) = f m"
  shows "f (fst (ensureMappedBridge env man)) = f man"
proof -
  have masq: "f (fst (case oeIptClient env v6 of
                     Inl x \<Rightarrow> (m, Inl x)
                   | Inr _ \<Rightarrow> step (NatAppend v6 rule) (oeNatAppend env v6) k m)) = f m"
    if "\<And>m. f (fst (k m)) = f m" for v6 rule k m
    using step_same [of f k, OF that assms] by (simp split: sum.split)
  show ?thesis unfolding ensureMappedBridge_def Let_def
    by (intro step_same assms masq) simp
qed

lemmas ensureMappedBridge_names =
  ensureMappedBridge_same [of omGuestNics, unfolded ovn_emit_def, simplified]
  ensureMappedBridge_same [of omVpcPnames, unfolded ovn_emit_def, simplified]

lemma setIpMac_names: "setIpMac env man = Inr (man', r) \<Longrightarrow> names_le man man'"
proof -
  assume a: "setIpMac env man = Inr (man', r)"
  have "omGuestNics man' = omGuestNics man \<and> omVpcPnames man' = omVpcPnames man"
  proof (cases "oeHostGet env (omHostId man)")
    case (Inr q)
    obtain ip ip6 where q: "q = (ip, ip6)" by fastforce
    let ?m = "man\<lparr>omMac := oeHashMac env (omHostId man), omIp := ip, omIp6 := ip6\<rparr>"
    from a Inr q ensureMappedBridge_names [of env ?m] show ?thesis
      by (cases "ensureMappedBridge env ?m")
         (auto simp: setIpMac_def Let_def res_bind_Inr_iff ensureBasicFlows_def ovn_updateFlows_def ovn_emit_def
           split: if_splits sum.splits)
  qed (use a in \<open>auto simp: setIpMac_def\<close>)
  then show ?thesis by (simp add: names_le_def)
qed

lemma ensureGeneveFastpath_names: "names_le man (ensureGeneveFastpath env man)"
  by (simp add: ensureGeneveFastpath_def names_le_def)

lemma ovn_refresh_names:
  assumes "ovn_refresh env man = Inr man'"
  shows "names_le man man'"
proof (cases "omHostId (ensureGeneveFastpath env man) = ''''")
  case True
  with assms ensureGeneveFastpath_names show ?thesis by (auto simp: ovn_refresh_def)
next
  case False
  with assms obtain man1 r where s: "setIpMac env (ensureGeneveFastpath env man) = Inr (man1, r)"
    by (auto simp: ovn_refresh_def res_bind_Inr_iff)
  with assms False have g: "man' = man1 \<or> ovn_guests env (map fst (omGuestNics man1)) man1 = Inr man'"
    by (cases r) (auto simp: ovn_refresh_def)
  have "names_le man (ensureGeneveFastpath env man)" by (rule ensureGeneveFastpath_names)
  also have "names_le \<dots> man1" by (rule setIpMac_names [OF s])
  also have "names_le man1 man'" using g ovn_guests_names by auto
  finally show ?thesis .
qed

section \<open>Reachable states\<close>

inductive ovn_reach :: "ovn_env set \<Rightarrow> ovnMan \<Rightarrow> bool" for E where
  ovn_new: "ovn_reach E (newOvnMan ch)"
| ovn_step: "ovn_reach E man \<Longrightarrow> env \<in> E \<Longrightarrow> ovn_turn env man inp = Inr man' \<Longrightarrow> ovn_reach E man'"
| ovn_host: "ovn_reach E man \<Longrightarrow> env \<in> E \<Longrightarrow> SetHostId env h man = Inr man' \<Longrightarrow> ovn_reach E man'"

text \<open>Every VPC with a card has a name for its ports.\<close>

definition ovn_inv :: "ovnMan \<Rightarrow> bool" where
  "ovn_inv man \<longleftrightarrow> gm_wf (omGuestNics man) \<and> gm_wf (omVpcPnames man) \<and>
     (\<forall>g nics nic. gm_get (omGuestNics man) g = Some nics \<longrightarrow> nic \<in> set nics \<longrightarrow> nicVpcId nic \<noteq> '''' \<longrightarrow>
        nicVpcId nic \<in> dom (gm_get (omVpcPnames man)))"

lemma ovn_inv_le: "ovn_inv man \<Longrightarrow> names_le man man' \<Longrightarrow> ovn_inv man'"
  unfolding ovn_inv_def names_le_def by (metis subsetD)

lemma gm_wf_filter: "gm_wf m \<Longrightarrow> gm_wf (filter P m)"
  by (simp add: gm_wf_def distinct_map_filter)

lemma gm_get_filter:
  "gm_wf m \<Longrightarrow> gm_get (filter (\<lambda>(k, v). P k v) m) k = (case gm_get m k of Some v \<Rightarrow> if P k v then Some v else None | None \<Rightarrow> None)"
  by (induction m) (auto simp: gm_wf_def map_of_eq_None_iff image_iff split: option.splits)

lemma used_vpcs_iff:
  "gm_wf gn \<Longrightarrow> v \<in> set (used_vpcs gn) \<longleftrightarrow> (\<exists>g nics nic. gm_get gn g = Some nics \<and> nic \<in> set nics \<and> nicVpcId nic = v)"
  by (auto simp: used_vpcs_def gm_wf_def)

lemma ovn_forget_inv:
  assumes "ovn_inv man"
  shows "ovn_inv (ovn_forget man)"
    and "gm_get (omGuestNics (ovn_forget man)) g = Some nics \<longleftrightarrow> gm_get (omGuestNics man) g = Some nics \<and> nics \<noteq> []"
    and "gm_get (omVpcPnames (ovn_forget man)) v =
      (if \<exists>g nics nic. gm_get (omGuestNics man) g = Some nics \<and> nic \<in> set nics \<and> nicVpcId nic = v
       then gm_get (omVpcPnames man) v else None)"
proof -
  let ?gn = "filter (\<lambda>(_, nics). length nics \<noteq> 0) (omGuestNics man)"
  have wf: "gm_wf (omGuestNics man)" "gm_wf (omVpcPnames man)" "gm_wf ?gn"
    using assms gm_wf_filter by (auto simp: ovn_inv_def)
  show g: "gm_get (omGuestNics (ovn_forget man)) g = Some nics \<longleftrightarrow> gm_get (omGuestNics man) g = Some nics \<and> nics \<noteq> []"
    for g nics using gm_get_filter [OF wf(1), of "\<lambda>_ nics. length nics \<noteq> 0" g]
    by (auto simp: ovn_forget_def Let_def split: option.splits)
  have u: "v \<in> set (used_vpcs ?gn) \<longleftrightarrow>
      (\<exists>g nics nic. gm_get (omGuestNics man) g = Some nics \<and> nic \<in> set nics \<and> nicVpcId nic = v)" for v
    using used_vpcs_iff [OF wf(3), of v] g by (fastforce simp: ovn_forget_def Let_def)
  show v: "gm_get (omVpcPnames (ovn_forget man)) v =
      (if \<exists>g nics nic. gm_get (omGuestNics man) g = Some nics \<and> nic \<in> set nics \<and> nicVpcId nic = v
       then gm_get (omVpcPnames man) v else None)" for v
    using gm_get_filter [OF wf(2), of "\<lambda>v _. v \<in> set (used_vpcs ?gn)" v] u [of v]
    by (auto simp: ovn_forget_def Let_def split: option.splits)
  have "gm_wf (omGuestNics (ovn_forget man))" "gm_wf (omVpcPnames (ovn_forget man))"
    using wf gm_wf_filter by (auto simp: ovn_forget_def Let_def)
  with assms show "ovn_inv (ovn_forget man)"
    unfolding ovn_inv_def by (auto simp: g v dom_def) blast+
qed

lemma ovn_cleanup_names:
  "omGuestNics (ovn_cleanup env man) = omGuestNics (ovn_forget man)"
  "omVpcPnames (ovn_cleanup env man) = omVpcPnames (ovn_forget man)"
  by (simp_all add: ovn_cleanup_def delPorts_def ovn_emit_def Let_def split: option.split)

lemma ovn_reach_inv: "ovn_reach E man \<Longrightarrow> ovn_inv man"
proof (induction rule: ovn_reach.induct)
  case (ovn_new ch)
  show ?case by (simp add: newOvnMan_def ovn_inv_def)
next
  case (ovn_step man env inp man')
  show ?case
  proof (cases inp)
    case (OvnReq g nics)
    with ovn_step have e: "ensureGuestFlows env g (man\<lparr>omGuestNics := gm_set (omGuestNics man) g nics\<rparr>) = Inr man'"
      by (simp add: ovn_turn_def)
    from ensureGuestFlows_names [OF e] ovn_step.IH show ?thesis
      unfolding ovn_inv_def names_le_def by (auto split: if_splits) blast+
  next
    case OvnTick
    with ovn_step have "ovn_refresh env (ovn_cleanup env man) = Inr man'" by (simp add: ovn_turn_def)
    moreover have "ovn_inv (ovn_cleanup env man)"
      using ovn_forget_inv(1) [OF ovn_step.IH] by (simp add: ovn_inv_def ovn_cleanup_names)
    ultimately show ?thesis using ovn_refresh_names ovn_inv_le by blast
  qed
next
  case (ovn_host man env h man')
  have h: "ovn_inv (man\<lparr>omHostId := h\<rparr>)" using ovn_host.IH by (simp add: ovn_inv_def)
  show ?case
  proof (cases "omHostId man = ''''")
    case True
    with ovn_host obtain r where "setIpMac env (man\<lparr>omHostId := h\<rparr>) = Inr (man', r)"
      by (auto simp: SetHostId_def res_bind_Inr_iff)
    from ovn_inv_le [OF h setIpMac_names [OF this]] show ?thesis .
  qed (use ovn_host in \<open>simp add: SetHostId_def\<close>)
qed

text \<open>The ports that a cleanup deletes.\<close>

definition deleted :: "ovn_env \<Rightarrow> ovnMan \<Rightarrow> ovn_effect set" where
  "deleted env man = set (drop (length (omOut man)) (omOut (ovn_cleanup env man)))"

definition vpc_in_use :: "ovnMan \<Rightarrow> string \<Rightarrow> bool" where
  "vpc_in_use man v \<longleftrightarrow> (\<exists>g nics nic. gm_get (omGuestNics man) g = Some nics \<and> nic \<in> set nics \<and> nicVpcId nic = v)"

lemma forget_out [simp]: "omOut (ovn_forget man) = omOut man"
  by (simp add: ovn_forget_def Let_def)

lemma deleted_ports:
  assumes "listPorts env (oeIntegrationBridge env) = Some ps'" "listPorts env (oeMappedBridge env) = Some ps"
  shows "deleted env man =
    PortDel (oeMappedBridge env) ` {p \<in> set ps. HasPrefix p pnamePrefix \<and> \<not> oeIsLink env p
        \<and> p \<notin> snd ` set (omVpcPnames (ovn_forget man))}
    \<union> PortDel (oeIntegrationBridge env) ` {p \<in> set ps'. HasPrefix p pnamePrefix \<and> \<not> oeIsLink env p
        \<and> p \<notin> (\<lambda>b. b @ pnameSuffix) ` snd ` set (omVpcPnames (ovn_forget man))}"
  using assms by (auto simp: deleted_def ovn_cleanup_def delPorts_def ovn_emit_def Let_def image_iff split_beta)

lemma forgotten_names:
  assumes "ovn_inv man"
  shows "b \<in> snd ` set (omVpcPnames (ovn_forget man)) \<longleftrightarrow>
    (\<exists>v. vpc_in_use man v \<and> gm_get (omVpcPnames man) v = Some b)"
proof -
  have "gm_wf (omVpcPnames (ovn_forget man))" using ovn_forget_inv(1) [OF assms] by (simp add: ovn_inv_def)
  then have "b \<in> snd ` set (omVpcPnames (ovn_forget man)) \<longleftrightarrow> (\<exists>v. gm_get (omVpcPnames (ovn_forget man)) v = Some b)"
    by (force simp: gm_wf_def)
  then show ?thesis by (auto simp: ovn_forget_inv(3) [OF assms, folded vpc_in_use_def] split: if_splits)
qed

text \<open>C24: the periodic cleanup, in every reachable state in which the ports of the two different
  bridges can be listed, deletes exactly the patch ports that no VPC with a card uses: on the
  mapped bridge those with the prefix of patch ports that are no network links and not the port
  of a VPC in use, on the integration bridge those whose peer is not one.  Every VPC in use has
  a name, so its two ports stay.\<close>

theorem ovn_cleanup_exact:
  assumes "ovn_reach E man" "oeMappedBridge env \<noteq> oeIntegrationBridge env"
    and "listPorts env (oeIntegrationBridge env) = Some ps'" "listPorts env (oeMappedBridge env) = Some ps"
  shows "(\<forall>p. PortDel (oeMappedBridge env) p \<in> deleted env man \<longleftrightarrow>
        p \<in> set ps \<and> HasPrefix p pnamePrefix \<and> \<not> oeIsLink env p
        \<and> (\<nexists>v. vpc_in_use man v \<and> gm_get (omVpcPnames man) v = Some p))
    \<and> (\<forall>p. PortDel (oeIntegrationBridge env) p \<in> deleted env man \<longleftrightarrow>
        p \<in> set ps' \<and> HasPrefix p pnamePrefix \<and> \<not> oeIsLink env p
        \<and> (\<nexists>v b. vpc_in_use man v \<and> gm_get (omVpcPnames man) v = Some b \<and> p = b @ pnameSuffix))
    \<and> (\<forall>v. vpc_in_use man v \<longrightarrow> v \<noteq> '''' \<longrightarrow> gm_get (omVpcPnames man) v \<noteq> None)"
proof -
  have inv: "ovn_inv man" by (rule ovn_reach_inv [OF assms(1)])
  have "vpc_in_use man v \<Longrightarrow> v \<noteq> '''' \<Longrightarrow> gm_get (omVpcPnames man) v \<noteq> None" for v
    using inv by (fastforce simp: ovn_inv_def vpc_in_use_def)
  moreover define N where "N = snd ` set (omVpcPnames (ovn_forget man))"
  have N: "b \<in> N \<longleftrightarrow> (\<exists>v. vpc_in_use man v \<and> gm_get (omVpcPnames man) v = Some b)" for b
    unfolding N_def by (rule forgotten_names [OF inv])
  note deleted_ports [OF assms(3,4), of man, folded N_def]
  ultimately show ?thesis using assms(2) N by (simp add: image_iff) blast
qed

text \<open>A host with one VPC in use and one forgotten patch port.\<close>

definition demo_ovn_env :: ovn_env where
  "demo_ovn_env = \<lparr>oeMappedBridge = ''brmapped'', oeIntegrationBridge = ''brvpc'', oeMappedCidr = ''100.64.0.0/17'',
     oeMappedCidr6 = ''fc00::fffe:100:64:0:0/100'', oeHashMac = (\<lambda>h. ''ee:00:00:00:00:01''),
     oeHostGet = (\<lambda>h. Inr (''100.64.0.130'', '''')), oeRunOvsctl = (\<lambda>_. Inr ()), oeLinkUp = Inr (),
     oeAddrExact = (\<lambda>_. Inr ()), oeIptClient = (\<lambda>_. Inr ()), oeNatAppend = (\<lambda>_. Inr ()),
     oeIptList = (\<lambda>_ _. Inr ()), oeIptInsert = (\<lambda>_ _. Inr ()), oeRuleText = (\<lambda>c spec. join '' '' (''-A'' # c # spec)),
     oeDumpPort = (\<lambda>_ _. Inr 3), oeListBridges = Inr [''brmapped'', ''brvpc''],
     oeListPorts = (\<lambda>_. Inr [''v-01234567-89'', ''v-ffffffff-00'', ''v-01234567-89-p'']), oeIsLink = (\<lambda>_. False),
     oeHasFlowMan = (\<lambda>_. True), oeUnmarshal = (\<lambda>_. Inr (ex_flow 0))\<rparr>"

definition demo_vpc_nic :: GuestNIC where
  "demo_vpc_nic = demo_nic\<lparr>nicVpcId := ''01234567-89ab-cdef-0123-456789abcdef'', nicVpcProvider := ''ovn'',
     nicVpcMappedIpAddr := ''100.64.9.5''\<rparr>"

definition demo_ovn_turn :: "ovnMan result" where
  "demo_ovn_turn = ovn_turn demo_ovn_env (newOvnMan (\<lambda>_. [])) (OvnReq ''g1'' [demo_vpc_nic])"

lemma demo_ovn_names:
  "(case demo_ovn_turn of Inr man \<Rightarrow> omVpcPnames man = [(''01234567-89ab-cdef-0123-456789abcdef'', ''v-01234567-89'')]
      \<and> map fst (omGuestNics man) = [''g1''] | Inl _ \<Rightarrow> False)"
  unfolding demo_ovn_turn_def by code_simp

theorem ovn_cleanup_exact_witness:
  "\<exists>man. demo_ovn_turn = Inr man \<and> PortDel ''brmapped'' ''v-ffffffff-00'' \<in> deleted demo_ovn_env man"
proof -
  obtain man where man: "demo_ovn_turn = Inr man" using demo_ovn_names by (auto split: sum.splits)
  have names: "omVpcPnames man = [(''01234567-89ab-cdef-0123-456789abcdef'', ''v-01234567-89'')]"
    using demo_ovn_names unfolding man sum.case by (rule conjunct1)
  have r: "ovn_reach {demo_ovn_env} man"
    by (rule ovn_step [OF ovn_new _ man [unfolded demo_ovn_turn_def]]) simp
  have ports: "listPorts demo_ovn_env (oeIntegrationBridge demo_ovn_env) = Some [''v-01234567-89'', ''v-ffffffff-00'', ''v-01234567-89-p'']"
    "listPorts demo_ovn_env (oeMappedBridge demo_ovn_env) = Some [''v-01234567-89'', ''v-ffffffff-00'', ''v-01234567-89-p'']"
    by code_simp+
  have br: "oeMappedBridge demo_ovn_env = ''brmapped''" "oeMappedBridge demo_ovn_env \<noteq> oeIntegrationBridge demo_ovn_env"
    "\<not> oeIsLink demo_ovn_env ''v-ffffffff-00''" "HasPrefix ''v-ffffffff-00'' pnamePrefix"
    by (simp_all add: demo_ovn_env_def HasPrefix_def pnamePrefix_def)
  have "PortDel ''brmapped'' ''v-ffffffff-00'' \<in> deleted demo_ovn_env man"
    using ovn_cleanup_exact [OF r br(2) ports] br by (auto simp: names)
  with man show ?thesis by blast
qed

text \<open>Two VPCs whose ids have the same first eleven characters share their patch ports.\<close>

lemma pname_collision:
  assumes "take 11 v1 = take 11 v2" "11 \<le> length v1" "11 \<le> length v2" "v1 \<noteq> v2"
    and "v1 \<notin> dom (gm_get (omVpcPnames man))" "v2 \<notin> dom (gm_get (omVpcPnames man))"
  shows "\<exists>man1 man2 mine peer. pnamePair v1 man = Inr (man1, mine, peer) \<and> pnamePair v2 man1 = Inr (man2, mine, peer)"
  using assms by (intro vpc_names.pair_collision) (auto simp: domIff)

section \<open>Cards with an IPv6 address\<close>

text \<open>The parser of the OVS library reads the address of a \<open>mod_nw_dst\<close> action, outside parentheses, as
  an IPv4 address and fails if it is none.\<close>

definition rejects_bad_nw_dst :: "(string \<Rightarrow> flow result) \<Rightarrow> bool" where
  "rejects_bad_nw_dst um \<longleftrightarrow>
     (\<forall>pre ip post. CHR ''('' \<notin> set pre \<longrightarrow> CHR '','' \<notin> set ip \<longrightarrow> parseIPv4 ip = None \<longrightarrow>
        \<not> is_ok (um (pre @ '',mod_nw_dst:'' @ ip @ '','' @ post)))"

lemma res_map_fails:
  assumes "x \<in> set xs" "\<not> is_ok (f x)" "\<And>y e. f y = Inl e \<Longrightarrow> \<exists>p. e = Panic p"
  shows "\<exists>p. res_map f xs = Inl (Panic p)"
  using assms(1)
proof (induction xs)
  case (Cons y ys)
  show ?case
  proof (cases "f y")
    case (Inl e)
    with assms(3) show ?thesis by fastforce
  next
    case (Inr z)
    with Cons assms(2) show ?thesis by fastforce
  qed
qed simp

lemma F_panics: "F um s = Inl e \<Longrightarrow> \<exists>p. e = Panic p"
  by (auto simp: F_def split: sum.splits)

lemma show_int_no_paren: "CHR ''('' \<notin> set (show_int n)"
proof -
  have "digit_val (CHR ''('') = None" by code_simp
  then have "CHR ''('' \<notin> set (show_dec m)" if "0 \<le> m" for m using that show_base_no_char [of 10 m] by simp
  then show ?thesis by (simp add: show_int_def)
qed

lemma ipv6_flow_rejected:
  assumes "rejects_bad_nw_dst um" "parseIPv4 (nicIP6 nic) = None" "CHR '','' \<notin> set (nicIP6 nic)"
    and "CHR ''('' \<notin> set (nicVpcMappedIp6Addr nic)" "nicVpcMappedIp6Addr nic \<noteq> ''''" "nicIP6 nic \<noteq> ''''"
  shows "\<exists>p. res_map (F um) (vpc_nic_flows mac pno nic) = Inl (Panic p)"
proof (rule res_map_fails)
  let ?f = "fl 0 33000 (''in_port=LOCAL,ipv6,ipv6_dst='' @ nicVpcMappedIp6Addr nic)
           (''mod_dl_dst:'' @ VpcMappedGatewayMac @ '',mod_nw_dst:'' @ nicIP6 nic @ '',output:'' @ show_int pno)"
  let ?pre = "''table='' @ show_int 0 @ '',priority='' @ show_int 33000 @ '',in_port=LOCAL,ipv6,ipv6_dst=''
     @ nicVpcMappedIp6Addr nic @ '',actions=mod_dl_dst:'' @ VpcMappedGatewayMac"
  show "?f \<in> set (vpc_nic_flows mac pno nic)" using assms(5,6) by (simp add: vpc_nic_flows_def)
  have "F_text ?f = ?pre @ '',mod_nw_dst:'' @ nicIP6 nic @ '','' @ ''output:'' @ show_int pno"
    by (simp add: F_text_def fl_def)
  moreover have "CHR ''('' \<notin> set ?pre"
    using assms(4) show_int_no_paren by (simp add: VpcMappedGatewayMac_def)
  ultimately have "\<not> is_ok (um (F_text ?f))"
    using assms(1-3) unfolding rejects_bad_nw_dst_def by metis
  then show "\<not> is_ok (F um ?f)" by (simp add: F_def is_ok_def split: sum.splits)
qed (rule F_panics)

text \<open>A VPC card with a mapped IPv6 address and an IPv6 address ends the agent: as soon as the
  patch ports of its VPC exist, the flow that should rewrite the destination uses the IPv4 action
  \<open>mod_nw_dst\<close>, which the OVS library rejects, and the constructor of flows panics.  This is for a
  library that reads the argument of that action as an IPv4 address, as the vendored one does.\<close>

theorem vpc_ipv6_card_panics:
  assumes "rejects_bad_nw_dst (oeUnmarshal env)"
    and "11 \<le> length (nicVpcId nic)" "\<And>args. is_ok (oeRunOvsctl env args)" "\<And>p. is_ok (oeDumpPort env (oeMappedBridge env) p)"
    and "parseIPv4 (nicIP6 nic) = None" "nicIP6 nic \<noteq> ''''" "CHR '','' \<notin> set (nicIP6 nic)"
    and "nicVpcMappedIp6Addr nic \<noteq> ''''" "CHR ''('' \<notin> set (nicVpcMappedIp6Addr nic)"
  shows "\<exists>p. ovn_turn env man (OvnReq g (nic # nics)) = Inl (Panic p)"
proof -
  let ?v = "nicVpcId nic"
  define man0 where "man0 = man\<lparr>omGuestNics := gm_set (omGuestNics man) g (nic # nics)\<rparr>"
  have pair: "\<exists>m mine peer. pnamePair ?v m0 = Inr (m, mine, peer)" for m0
    using assms(2) by (auto simp: pnamePair_def Let_def pnamePrefix_def pnameSuffix_def split: option.splits)
  have port: "\<exists>m. ensureMappedBridgeVpcPort env ?v m0 = Inr (m, Inr ())" for m0
  proof -
    from pair obtain m mine peer where "pnamePair ?v m0 = Inr (m, mine, peer)" by blast
    moreover have "oeRunOvsctl env args = Inr ()" for args
      using assms(3) [of args] by (cases "oeRunOvsctl env args") auto
    ultimately show ?thesis unfolding ensureMappedBridgeVpcPort_def Let_def by simp
  qed
  have flows: "(\<exists>m. ensureMappedBridgeVpcPortFlows env ?v m0 = Inr (m, Inr ()))
    \<or> (\<exists>p. ensureMappedBridgeVpcPortFlows env ?v m0 = Inl (Panic p))" for m0
  proof -
    from pair obtain m mine peer where p: "pnamePair ?v m0 = Inr (m, mine, peer)" by blast
    obtain n where n: "oeDumpPort env (oeMappedBridge env) mine = Inr n"
      using assms(4) [of mine] by (cases "oeDumpPort env (oeMappedBridge env) mine") auto
    show ?thesis unfolding ensureMappedBridgeVpcPortFlows_def p
      by (cases "F (oeUnmarshal env) (fl 0 30000 (''in_port='' @ show_int n) ''drop'')")
         (auto simp: n dest: F_panics)
  qed
  obtain m1 where m1: "ensureMappedBridgeVpcPort env ?v man0 = Inr (m1, Inr ())" using port by blast
  have "\<exists>p. guest_nics_loop env [] man0 [] (nic # nics) = Inl (Panic p)"
  proof (cases "ensureMappedBridgeVpcPortFlows env ?v m1")
    case (Inl e)
    with flows [of m1] have "\<exists>p. ensure_vpc env ?v man0 = Inl (Panic p)" by (auto simp: ensure_vpc_def m1)
    with assms(2) show ?thesis by (auto simp: Let_def)
  next
    case (Inr q)
    with flows [of m1] obtain m2 where m2: "ensure_vpc env ?v man0 = Inr (m2, True)"
      by (auto simp: ensure_vpc_def m1)
    obtain m3 mine peer where m3: "pnamePair ?v m2 = Inr (m3, mine, peer)" using pair by blast
    obtain n where n: "oeDumpPort env (oeMappedBridge env) mine = Inr n"
      using assms(4) [of mine] by (cases "oeDumpPort env (oeMappedBridge env) mine") auto
    from ipv6_flow_rejected [OF assms(1,5,7,9,8,6), of "omMac m3" n] obtain p
      where "res_map (F (oeUnmarshal env)) (vpc_nic_flows (omMac m3) n nic) = Inl (Panic p)" by blast
    with m2 m3 n assms(2) show ?thesis by (auto simp: Let_def)
  qed
  then show ?thesis
    by (auto simp: ovn_turn_def ensureGuestFlows_def man0_def simp del: guest_nics_loop.simps)
qed

text \<open>A parser that looks for such an action in every place of the text.\<close>

definition demo_unmarshal :: "string \<Rightarrow> flow result" where
  "demo_unmarshal t =
     (if list_ex (\<lambda>i. HasPrefix (drop i t) '',mod_nw_dst:''
           \<and> parseIPv4 (takeWhile (\<lambda>c. c \<noteq> CHR '','') (drop (i + 12) t)) = None) [0..<length t]
      then Inl (Err ''invalid IPv4 address'') else Inr (ex_flow 0))"

lemma demo_unmarshal_rejects: "rejects_bad_nw_dst demo_unmarshal"
  unfolding rejects_bad_nw_dst_def
proof (intro allI impI)
  fix pre ip post :: string
  assume ip: "CHR '','' \<notin> set ip" "parseIPv4 ip = None"
  let ?t = "pre @ '',mod_nw_dst:'' @ ip @ '','' @ post"
  have "takeWhile (\<lambda>c. c \<noteq> CHR '','') (ip @ '','' @ post) = ip" using ip(1) by (induction ip) auto
  then have "HasPrefix (drop (length pre) ?t) '',mod_nw_dst:''
      \<and> parseIPv4 (takeWhile (\<lambda>c. c \<noteq> CHR '','') (drop (length pre + 12) ?t)) = None"
    using ip(2) by (simp add: HasPrefix_def)
  then have "list_ex (\<lambda>i. HasPrefix (drop i ?t) '',mod_nw_dst:''
           \<and> parseIPv4 (takeWhile (\<lambda>c. c \<noteq> CHR '','') (drop (i + 12) ?t)) = None) [0..<length ?t]"
    unfolding list_ex_iff by (intro bexI [of _ "length pre"]) simp_all
  then show "\<not> is_ok (demo_unmarshal ?t)" unfolding demo_unmarshal_def by simp
qed

theorem vpc_ipv6_card_panics_witness:
  "\<exists>p. ovn_turn (demo_ovn_env\<lparr>oeUnmarshal := demo_unmarshal\<rparr>) (newOvnMan (\<lambda>_. []))
     (OvnReq ''g1'' [demo_vpc_nic\<lparr>nicIP6 := ''fd00::2'', nicVpcMappedIp6Addr := ''fc00::fffe:100:64:9:5''\<rparr>]) = Inl (Panic p)"
proof (rule vpc_ipv6_card_panics)
  show "rejects_bad_nw_dst (oeUnmarshal (demo_ovn_env\<lparr>oeUnmarshal := demo_unmarshal\<rparr>))"
    by (simp add: demo_unmarshal_rejects)
  show "parseIPv4 (nicIP6 (demo_vpc_nic\<lparr>nicIP6 := ''fd00::2'', nicVpcMappedIp6Addr := ''fc00::fffe:100:64:9:5''\<rparr>)) = None"
    by code_simp
qed (simp_all add: demo_vpc_nic_def demo_ovn_env_def)

end
