(* ===== verification/OvnMd.thy ===== *)
theory OvnMd
  imports Guest
begin

text \<open>
  The metadata servers of the VPC networks, \<open>pkg/agent/server/ovn-md.go\<close> and
  \<open>pkg/agent/server/grpc_fwd.go\<close>: one server per network with a card, started with the first address
  and stopped with the last, and the port forwards of the servers.

  Starting and stopping a server, which create and remove a network namespace with a veth pair, are
  commands of \<open>md_effect\<close>.  The forwards of a server are the records of its open listeners; the
  copying of bytes between connections is not modelled.
\<close>

section \<open>State\<close>

record netIdIP =
  niiNetId :: string
  niiIp :: string
  niiMasklen :: int
  niiIp6 :: string
  niiMasklen6 :: int
  niiGuestId :: string

definition nii_key :: "netIdIP \<Rightarrow> string" where
  "nii_key nii = niiNetId nii @ ''/'' @ niiIp nii"

type_synonym netIdIPm = "(string, netIdIP) gomap"

record ovnMdForward =
  fwProto :: string
  fwLocalAddr :: string
  fwLocalPort :: int
  fwRemoteAddr :: string
  fwRemotePort :: int
  fwBindAddr :: string
  fwBindPort :: int

record ovnMdServer =
  msNetId :: string
  msNetCidr :: string
  msNetCidr6 :: string
  msIpNii :: netIdIPm
  msForwards :: "ovnMdForward list"

datatype md_effect =
    MdStart string
  | MdStop string
  | MdPortDel string string
  | MdLinkDel string

record ovnMdMan =
  mmGuestNics :: "(string, netIdIPm) gomap"
  mmServers :: "(string, ovnMdServer) gomap"
  mmOut :: "md_effect list"

definition newOvnMdMan :: ovnMdMan where
  "newOvnMdMan = \<lparr>mmGuestNics = [], mmServers = [], mmOut = []\<rparr>"

definition newOvnMdServer :: "string \<Rightarrow> string \<Rightarrow> string \<Rightarrow> ovnMdServer" where
  "newOvnMdServer netId netCidr netCidr6 =
     \<lparr>msNetId = netId, msNetCidr = netCidr, msNetCidr6 = netCidr6, msIpNii = [], msForwards = []\<rparr>"

definition md_emit :: "md_effect list \<Rightarrow> ovnMdMan \<Rightarrow> ovnMdMan" where
  "md_emit es man = man\<lparr>mmOut := mmOut man @ es\<rparr>"

section \<open>Addresses of a guest\<close>

definition nii_of :: "GuestNIC \<Rightarrow> netIdIP" where
  "nii_of nic = \<lparr>niiNetId = nicNetId nic, niiIp = nicIP nic, niiMasklen = nicMasklen nic,
     niiIp6 = nicIP6 nic, niiMasklen6 = nicMasklen6 nic, niiGuestId = ''''\<rparr>"

definition newNetIdIPm :: "GuestNIC list \<Rightarrow> netIdIPm" where
  "newNetIdIPm nics = foldl (\<lambda>m nic. gm_set m (nii_key (nii_of nic)) (nii_of nic)) [] nics"

definition niim_List :: "netIdIPm \<Rightarrow> netIdIP list" where
  "niim_List m = map snd m"

definition niim_Diff :: "netIdIPm \<Rightarrow> netIdIPm \<Rightarrow> netIdIP list \<times> netIdIP list" where
  "niim_Diff niim niim1 =
     (filter (\<lambda>nii. gm_get niim1 (nii_key nii) = None) (map snd niim),
      filter (\<lambda>nii1. gm_get niim (nii_key nii1) = None) (map snd niim1))"

section \<open>Starting and stopping servers\<close>

text \<open>\<open>net.ParseCIDR\<close> of an address and a prefix length, as text.  The parse of addresses with colons
  is a parameter; \<open>String\<close> of the nil network that comes with an error is \<open><nil>\<close>.\<close>

unbundle bit_operations_syntax

definition cidr_String :: "(string \<Rightarrow> int \<Rightarrow> string option) \<Rightarrow> string \<Rightarrow> int \<Rightarrow> string" where
  "cidr_String cidr6 ip n =
     (case dropWhile (\<lambda>c. c \<noteq> CHR ''.'' \<and> c \<noteq> CHR '':'') ip of
        [] \<Rightarrow> ''<nil>''
      | c # _ \<Rightarrow>
          if c = CHR ''.'' then
            (case parseIPv4 ip of
               None \<Rightarrow> ''<nil>''
             | Some a \<Rightarrow>
                 if n < 0 \<or> n > 32 then ''<nil>''
                 else let m = NOT (mask (32 - nat n)) in IPNet_String \<lparr>netIP = a AND m, netMask = m\<rparr>)
          else case cidr6 ip n of None \<Rightarrow> ''<nil>'' | Some s \<Rightarrow> s)"

definition server_NoteOff :: "netIdIP \<Rightarrow> ovnMdServer \<Rightarrow> ovnMdServer \<times> bool" where
  "server_NoteOff nii s =
     (let m = gm_del (msIpNii s) (niiIp nii) in (s\<lparr>msIpNii := m\<rparr>, length m = 0))"

definition server_NoteOn :: "netIdIP \<Rightarrow> ovnMdServer \<Rightarrow> ovnMdServer" where
  "server_NoteOn nii s = s\<lparr>msIpNii := gm_set (msIpNii s) (niiIp nii) nii\<rparr>"

definition noteOff :: "netIdIP \<Rightarrow> ovnMdMan \<Rightarrow> ovnMdMan" where
  "noteOff nii man =
     (case gm_get (mmServers man) (niiNetId nii) of
        None \<Rightarrow> man
      | Some s \<Rightarrow>
          let (s, shouldStop) = server_NoteOff nii s
          in if shouldStop
             then md_emit [MdStop (niiNetId nii)] (man\<lparr>mmServers := gm_del (mmServers man) (niiNetId nii)\<rparr>)
             else man\<lparr>mmServers := gm_set (mmServers man) (niiNetId nii) s\<rparr>)"

definition noteOn :: "(string \<Rightarrow> int \<Rightarrow> string option) \<Rightarrow> netIdIP \<Rightarrow> ovnMdMan \<Rightarrow> ovnMdMan" where
  "noteOn cidr6 nii man =
     (let netId = niiNetId nii;
          (s, man) =
            (case gm_get (mmServers man) netId of
               Some s \<Rightarrow> (s, man)
             | None \<Rightarrow>
                 let cidr = (if length (niiIp nii) > 0 then cidr_String cidr6 (niiIp nii) (niiMasklen nii) else '''');
                     cidr' = (if length (niiIp6 nii) > 0 then cidr_String cidr6 (niiIp6 nii) (niiMasklen6 nii) else '''')
                 in (newOvnMdServer netId cidr cidr', md_emit [MdStart netId] man))
      in man\<lparr>mmServers := gm_set (mmServers man) netId (server_NoteOn nii s)\<rparr>)"

text \<open>A request of the loop of \<open>Start\<close>.\<close>

definition md_request ::
  "(string \<Rightarrow> int \<Rightarrow> string option) \<Rightarrow> string \<Rightarrow> GuestNIC list \<Rightarrow> ovnMdMan \<Rightarrow> ovnMdMan" where
  "md_request cidr6 guestId nics man =
     (let niim1 = newNetIdIPm nics;
          (dels, adds) = (case gm_get (mmGuestNics man) guestId of
                            Some niim \<Rightarrow> niim_Diff niim niim1
                          | None \<Rightarrow> ([], niim_List niim1));
          man = man\<lparr>mmGuestNics := gm_set (mmGuestNics man) guestId niim1\<rparr>;
          man = foldl (\<lambda>man del. noteOff (del\<lparr>niiGuestId := guestId\<rparr>) man) man dels
      in foldl (\<lambda>man add. noteOn cidr6 (add\<lparr>niiGuestId := guestId\<rparr>) man) man adds)"

section \<open>Names and cleaning up\<close>

text \<open>The names of the veth pair of a network; the slice expression panics on an id that is shorter.\<close>

definition ovnMdVethPair :: "string \<Rightarrow> (string \<times> string) result" where
  "ovnMdVethPair netId =
     (if length netId < 15 - 3 - 2 then Inl (Panic ''slice bounds out of range'')
      else let l = ''md-'' @ take (15 - 3 - 2) netId in Inr (l, l @ ''-p''))"

definition ovnMdIsVethPeer :: "string \<Rightarrow> bool" where
  "ovnMdIsVethPeer name \<longleftrightarrow> HasPrefix name ''md-'' \<and> HasSuffix name ''-p''"

fun peer_wants :: "string list \<Rightarrow> string list result" where
  "peer_wants [] = Inr []"
| "peer_wants (netId # netIds) =
     res_bind (ovnMdVethPair netId) (\<lambda>(_, peer). res_bind (peer_wants netIds) (\<lambda>ps. Inr (peer # ps)))"

definition md_cleanup :: "string \<Rightarrow> string list result \<Rightarrow> (string \<Rightarrow> bool) \<Rightarrow> ovnMdMan \<Rightarrow> ovnMdMan result" where
  "md_cleanup br ports isLink man =
     (case ports of
        Inl _ \<Rightarrow> Inr man
      | Inr ps \<Rightarrow>
          let peerGots = filter ovnMdIsVethPeer ps
          in res_bind (peer_wants (map fst (mmServers man))) (\<lambda>peerWants.
               Inr (md_emit (concat (map (\<lambda>got. if got \<in> set peerWants then []
                      else MdPortDel br got # (if isLink got then [MdLinkDel got] else [])) peerGots)) man)))"

section \<open>The namespace of a server\<close>

text \<open>The commands of \<open>ensureMdInfra\<close> and \<open>ensureMdInfraOff\<close>, of which the first that fails ends the
  function.  \<open>mac\<close> stands for \<open>mac.HashSubnetMetadataMac\<close>.\<close>

datatype md_cmd =
    NsNew
  | VethAdd string string
  | LinkByName string
  | LinkSetNsFd string
  | NsLinkUp string string
  | NsAddressExact string "string list"
  | NsRouteAddByCidr string string
  | RunOvsctl "string list"
  | LinkUp string
  | NsClose
  | LinkDel string

fun run_until :: "(md_cmd \<Rightarrow> bool) \<Rightarrow> md_cmd list \<Rightarrow> md_cmd list \<times> bool" where
  "run_until ok [] = ([], True)"
| "run_until ok (c # cs) =
     (if ok c then (let (done, r) = run_until ok cs in (c # done, r)) else ([c], False))"

definition nsName :: "ovnMdServer \<Rightarrow> string" where
  "nsName s = ''subnet-md-'' @ msNetId s"

definition ovnLspName :: "ovnMdServer \<Rightarrow> string" where
  "ovnLspName s = ''subnet-md/'' @ msNetId s"

definition ensureMdInfra ::
  "(string \<Rightarrow> string) \<Rightarrow> string \<Rightarrow> string list \<Rightarrow> string list \<Rightarrow> (md_cmd \<Rightarrow> bool) \<Rightarrow> ovnMdServer \<Rightarrow> (md_cmd list \<times> bool) result" where
  "ensureMdInfra mac bridge ip4s ip6s ok s =
     res_bind (ovnMdVethPair (msNetId s)) (\<lambda>(l, peer).
       Inr (run_until ok
         [NsNew, VethAdd l peer, LinkByName l, LinkSetNsFd l, NsLinkUp l (mac (msNetId s)),
          NsAddressExact l (map (\<lambda>a. a @ ''/32'') ip4s @ map (\<lambda>a. a @ ''/128'') ip6s),
          NsRouteAddByCidr l (msNetCidr s),
          RunOvsctl [''ovs-vsctl'', ''--'', ''--may-exist'', ''add-port'', bridge, peer,
            ''--'', ''set'', ''Interface'', peer, ''external_ids:iface-id='' @ ovnLspName s],
          LinkUp peer]))"

text \<open>\<open>found\<close> tells whether the peer is a link; a link that is not found is no error.\<close>

definition ensureMdInfraOff ::
  "string \<Rightarrow> bool \<Rightarrow> bool \<Rightarrow> (md_cmd \<Rightarrow> bool) \<Rightarrow> ovnMdServer \<Rightarrow> (md_cmd list \<times> bool) result" where
  "ensureMdInfraOff bridge hasNs found ok s =
     res_bind (ovnMdVethPair (msNetId s)) (\<lambda>(_, peer).
       let (done, r) = run_until ok [RunOvsctl [''ovs-vsctl'', ''--'', ''--if-exists'', ''del-port'', bridge, peer]];
           (done, r) = (if r \<and> found then let (d, r) = run_until ok [LinkDel peer] in (done @ d, r) else (done, r))
       in Inr ((if hasNs then [NsClose] else []) @ done, r))"

text \<open>A server that runs: whether \<open>Start\<close> has set the context of the forwards, the namespace and the
  HTTP service.  \<open>Start\<close> goes on after an error of \<open>ensureMdInfra\<close>; \<open>Stop\<close> calls the function that \<open>Start\<close>
  sets.\<close>

record md_run =
  mrForwardCancel :: bool
  mrNs :: bool
  mrApp :: bool

definition server_Start ::
  "(string \<Rightarrow> string) \<Rightarrow> string \<Rightarrow> string list \<Rightarrow> string list \<Rightarrow> (md_cmd \<Rightarrow> bool) \<Rightarrow> bool \<Rightarrow> ovnMdServer \<Rightarrow> md_run
    \<Rightarrow> (md_run \<times> md_cmd list) result" where
  "server_Start mac bridge ip4s ip6s ok nsOk s run =
     res_bind (ensureMdInfra mac bridge ip4s ip6s ok s) (\<lambda>(cs, _).
       Inr (run\<lparr>mrForwardCancel := True, mrNs := ok NsNew, mrApp := nsOk \<or> mrApp run\<rparr>, cs))"

definition server_Stop :: "string \<Rightarrow> bool \<Rightarrow> (md_cmd \<Rightarrow> bool) \<Rightarrow> ovnMdServer \<Rightarrow> md_run \<Rightarrow> md_cmd list result" where
  "server_Stop bridge found ok s run =
     (if \<not> mrForwardCancel run then Inl (Panic ''nil function call'')
      else res_bind (ensureMdInfraOff bridge (mrNs run) found ok s) (\<lambda>(cs, _). Inr cs))"

section \<open>Forwards\<close>

text \<open>The listener that the kernel opens for an address and a port: the address and port it is bound
  to.  \<open>validIP\<close> stands for \<open>net.ParseIP\<close>.\<close>

record fwd_env =
  fwValidIP :: "string \<Rightarrow> bool"
  fwListenTCP :: "string \<Rightarrow> int \<Rightarrow> (string \<times> int) result"

definition forward_init :: "fwd_env \<Rightarrow> ovnMdForward \<Rightarrow> unit result" where
  "forward_init env f =
     (let quoted = (\<lambda>a. [CHR 0x22] @ a @ [CHR 0x22])
      in if \<not> fwValidIP env (fwLocalAddr f) then Inl (Err (''bad local address '' @ quoted (fwLocalAddr f)))
         else if \<not> fwValidIP env (fwRemoteAddr f) then Inl (Err (''bad remote address '' @ quoted (fwRemoteAddr f)))
         else Inr ())"

definition forward_Listen :: "fwd_env \<Rightarrow> ovnMdForward \<Rightarrow> ovnMdForward result" where
  "forward_Listen env f =
     res_bind (forward_init env f) (\<lambda>_.
       if fwProto f = ''tcp'' then
         (case fwListenTCP env (fwLocalAddr f) (fwLocalPort f) of
            Inl (Err e) \<Rightarrow> Inl (Err (fwProto f @ '' listen: '' @ e))
          | Inl (Panic e) \<Rightarrow> Inl (Panic e)
          | Inr (a, p) \<Rightarrow> Inr (f\<lparr>fwBindAddr := a, fwBindPort := p\<rparr>))
       else Inl (Err (''unknown protocol: '' @ fwProto f)))"

datatype fwd_req =
    FwdOpen string string string int string int
  | FwdClose string string string int
  | FwdListByRemote string string string int

datatype fwd_resp =
    OpenResponse string ovnMdForward
  | CloseResponse string string string int
  | ListByRemoteResponse "ovnMdForward list"

definition same_listener :: "string \<Rightarrow> string \<Rightarrow> int \<Rightarrow> ovnMdForward \<Rightarrow> bool" where
  "same_listener proto addr port f \<longleftrightarrow> fwProto f = proto \<and> fwBindAddr f = addr \<and> fwBindPort f = port"

definition by_remote :: "string \<Rightarrow> string \<Rightarrow> int \<Rightarrow> ovnMdForward \<Rightarrow> bool" where
  "by_remote proto addr port f \<longleftrightarrow>
     fwRemoteAddr f = addr \<and> (port = 0 \<or> port = fwRemotePort f) \<and> (proto = '''' \<or> proto = fwProto f)"

text \<open>A turn of \<open>serveRequest\<close> on the forwards of a server, with the list it answers.  A close stops the
  first listener that it finds.\<close>

datatype ovnMdServerReq =
    OpenForward ovnMdForward
  | CloseForward string string int
  | ListForward string string int

definition serveRequest :: "ovnMdServerReq \<Rightarrow> ovnMdForward list \<Rightarrow> ovnMdForward list \<times> ovnMdForward list" where
  "serveRequest req mdfs =
     (case req of
        OpenForward mdf \<Rightarrow> (mdfs @ [mdf], [])
      | CloseForward proto bindAddr bindPort \<Rightarrow>
          (case List.extract (same_listener proto bindAddr bindPort) mdfs of
             None \<Rightarrow> mdfs | Some (xs, _, ys) \<Rightarrow> xs @ ys, [])
      | ListForward proto remoteAddr remotePort \<Rightarrow>
          (mdfs, filter (by_remote proto remoteAddr remotePort) mdfs))"

definition handleMdPbReq :: "fwd_env \<Rightarrow> fwd_req \<Rightarrow> ovnMdMan \<Rightarrow> ovnMdMan \<times> fwd_resp result" where
  "handleMdPbReq env req man =
     (let unavailable = (\<lambda>netId. Inl (Err (''forward not available for netId '' @ netId)));
          request = (\<lambda>netId s r. man\<lparr>mmServers := gm_set (mmServers man) netId
            (s\<lparr>msForwards := fst (serveRequest r (msForwards s))\<rparr>)\<rparr>)
      in case req of
           FwdOpen netId proto bindAddr bindPort remoteAddr remotePort \<Rightarrow>
             (case gm_get (mmServers man) netId of
                None \<Rightarrow> (man, unavailable netId)
              | Some s \<Rightarrow>
                  (case forward_Listen env \<lparr>fwProto = proto, fwLocalAddr = bindAddr, fwLocalPort = bindPort,
                      fwRemoteAddr = remoteAddr, fwRemotePort = remotePort, fwBindAddr = '''', fwBindPort = 0\<rparr> of
                     Inl (Err e) \<Rightarrow> (man, Inl (Err (''listen: '' @ e)))
                   | Inl (Panic e) \<Rightarrow> (man, Inl (Panic e))
                   | Inr f \<Rightarrow> (request netId s (OpenForward f), Inr (OpenResponse netId f))))
         | FwdClose netId proto bindAddr bindPort \<Rightarrow>
             (case gm_get (mmServers man) netId of
                None \<Rightarrow> (man, unavailable netId)
              | Some s \<Rightarrow>
                  (request netId s (CloseForward proto bindAddr bindPort),
                   Inr (CloseResponse netId proto bindAddr bindPort)))
         | FwdListByRemote netId proto remoteAddr remotePort \<Rightarrow>
             (case gm_get (mmServers man) netId of
                None \<Rightarrow> (man, Inr (ListByRemoteResponse []))
              | Some s \<Rightarrow>
                  (request netId s (ListForward proto remoteAddr remotePort),
                   Inr (ListByRemoteResponse (snd (serveRequest (ListForward proto remoteAddr remotePort) (msForwards s)))))))"

text \<open>The end of \<open>Serve\<close> of a forward, after a day without a connection or a failed accept: the
  forward is no longer listed.\<close>

definition forward_done :: "string \<Rightarrow> nat \<Rightarrow> ovnMdMan \<Rightarrow> ovnMdMan" where
  "forward_done netId i man =
     (case gm_get (mmServers man) netId of
        None \<Rightarrow> man
      | Some s \<Rightarrow> man\<lparr>mmServers := gm_set (mmServers man) netId
          (s\<lparr>msForwards := take i (msForwards s) @ drop (Suc i) (msForwards s)\<rparr>)\<rparr>)"

text \<open>\<open>Open\<close> of the gRPC service.\<close>

definition fwd_Open :: "fwd_env \<Rightarrow> string \<Rightarrow> string \<Rightarrow> string \<Rightarrow> int \<Rightarrow> string \<Rightarrow> int \<Rightarrow> ovnMdMan \<Rightarrow> ovnMdMan \<times> fwd_resp result" where
  "fwd_Open env netId proto bindAddr bindPort remoteAddr remotePort =
     handleMdPbReq env (FwdOpen netId proto (if bindAddr = '''' then ''0.0.0.0'' else bindAddr) bindPort remoteAddr remotePort)"

text \<open>\<open>Close\<close> and \<open>ListByRemote\<close> pass the request on as it is.\<close>

definition fwd_Close :: "fwd_env \<Rightarrow> string \<Rightarrow> string \<Rightarrow> string \<Rightarrow> int \<Rightarrow> ovnMdMan \<Rightarrow> ovnMdMan \<times> fwd_resp result" where
  "fwd_Close env netId proto bindAddr bindPort = handleMdPbReq env (FwdClose netId proto bindAddr bindPort)"

definition fwd_ListByRemote :: "fwd_env \<Rightarrow> string \<Rightarrow> string \<Rightarrow> string \<Rightarrow> int \<Rightarrow> ovnMdMan \<Rightarrow> ovnMdMan \<times> fwd_resp result" where
  "fwd_ListByRemote env netId proto remoteAddr remotePort = handleMdPbReq env (FwdListByRemote netId proto remoteAddr remotePort)"

section \<open>Addresses with a server\<close>

text \<open>The pairs of network and address that are noted at a server, and those that the cards of a guest
  have.\<close>

definition served :: "ovnMdMan \<Rightarrow> (string \<times> string) set" where
  "served man = {(n, ip). \<exists>s. gm_get (mmServers man) n = Some s \<and> ip \<in> dom (gm_get (msIpNii s))}"

definition pairs :: "netIdIPm \<Rightarrow> (string \<times> string) set" where
  "pairs m = (\<lambda>nii. (niiNetId nii, niiIp nii)) ` set (map snd m)"

definition guest_pairs :: "ovnMdMan \<Rightarrow> string \<Rightarrow> (string \<times> string) set" where
  "guest_pairs man g = (case gm_get (mmGuestNics man) g of None \<Rightarrow> {} | Some m \<Rightarrow> pairs m)"

text \<open>Servers are stored under their network, and none is without an address.\<close>

definition servers_ok :: "ovnMdMan \<Rightarrow> bool" where
  "servers_ok man \<longleftrightarrow> (\<forall>n s. gm_get (mmServers man) n = Some s \<longrightarrow> msIpNii s \<noteq> [])"

lemma servers_ok_iff:
  assumes "servers_ok man"
  shows "n \<in> dom (gm_get (mmServers man)) \<longleftrightarrow> n \<in> fst ` served man"
proof
  assume "n \<in> dom (gm_get (mmServers man))"
  then obtain s where s: "gm_get (mmServers man) n = Some s" by blast
  with assms obtain ip x r where "msIpNii s = (ip, x) # r" by (cases "msIpNii s") (auto simp: servers_ok_def)
  with s have "(n, ip) \<in> served man" by (auto simp: served_def)
  then show "n \<in> fst ` served man" by force
qed (auto simp: served_def)

lemma noteOn_served:
  "served (noteOn c nii man) = insert (niiNetId nii, niiIp nii) (served man)"
  by (auto simp: noteOn_def served_def server_NoteOn_def newOvnMdServer_def md_emit_def Let_def
      split: option.splits if_splits)

lemma noteOn_ok: "servers_ok man \<Longrightarrow> servers_ok (noteOn c nii man)"
  by (auto simp: noteOn_def servers_ok_def server_NoteOn_def newOvnMdServer_def md_emit_def Let_def
      split: option.splits if_splits)

lemma noteOff_served: "served (noteOff nii man) = served man - {(niiNetId nii, niiIp nii)}"
proof (cases "gm_get (mmServers man) (niiNetId nii)")
  case (Some s)
  let ?m = "gm_del (msIpNii s) (niiIp nii)"
  have d: "ip \<in> dom (gm_get ?m) \<longleftrightarrow> ip \<in> dom (gm_get (msIpNii s)) \<and> ip \<noteq> niiIp nii" for ip by (auto split: if_splits)
  show ?thesis
  proof (cases "?m = []")
    case True
    have only: "ip = niiIp nii" if "gm_get (msIpNii s) ip = Some y" for ip y
      using d [of ip] that unfolding True by auto
    with Some True show ?thesis
      by (auto simp: noteOff_def served_def server_NoteOff_def md_emit_def split: if_splits)
  next
    case False
    with Some show ?thesis
      by (auto simp: noteOff_def served_def server_NoteOff_def split: if_splits)
  qed
qed (auto simp: noteOff_def served_def)

lemma noteOff_ok: "servers_ok man \<Longrightarrow> servers_ok (noteOff nii man)"
  by (auto simp: noteOff_def servers_ok_def server_NoteOff_def md_emit_def Let_def split: option.splits if_splits)

lemma notes_guests [simp]:
  "mmGuestNics (noteOn c nii man) = mmGuestNics man" "mmGuestNics (noteOff nii man) = mmGuestNics man"
  by (auto simp: noteOn_def noteOff_def server_NoteOff_def md_emit_def Let_def split: option.splits)

lemma offs:
  "served (foldl (\<lambda>man d. noteOff (d\<lparr>niiGuestId := g\<rparr>) man) man ds) =
     served man - (\<lambda>nii. (niiNetId nii, niiIp nii)) ` set ds"
  "servers_ok man \<Longrightarrow> servers_ok (foldl (\<lambda>man d. noteOff (d\<lparr>niiGuestId := g\<rparr>) man) man ds)"
  "mmGuestNics (foldl (\<lambda>man d. noteOff (d\<lparr>niiGuestId := g\<rparr>) man) man ds) = mmGuestNics man"
  by (induction ds arbitrary: man) (auto simp: noteOff_served noteOff_ok)

lemma ons:
  "served (foldl (\<lambda>man d. noteOn c (d\<lparr>niiGuestId := g\<rparr>) man) man ds) =
     served man \<union> (\<lambda>nii. (niiNetId nii, niiIp nii)) ` set ds"
  "servers_ok man \<Longrightarrow> servers_ok (foldl (\<lambda>man d. noteOn c (d\<lparr>niiGuestId := g\<rparr>) man) man ds)"
  "mmGuestNics (foldl (\<lambda>man d. noteOn c (d\<lparr>niiGuestId := g\<rparr>) man) man ds) = mmGuestNics man"
  by (induction ds arbitrary: man) (auto simp: noteOn_served noteOn_ok)

text \<open>The key of a pair determines it, for networks without a slash in their id.\<close>

definition keyed :: "netIdIPm \<Rightarrow> bool" where
  "keyed m \<longleftrightarrow> gm_wf m \<and> (\<forall>k nii. (k, nii) \<in> set m \<longrightarrow> k = nii_key nii \<and> CHR ''/'' \<notin> set (niiNetId nii))"

interpretation nii_keys: sep_key "\<lambda>netId ip. netId @ ''/'' @ ip" "CHR ''/''"
  by unfold_locales simp

lemma nii_key_inj:
  assumes "nii_key a = nii_key b" "CHR ''/'' \<notin> set (niiNetId a)" "CHR ''/'' \<notin> set (niiNetId b)"
  shows "niiNetId a = niiNetId b \<and> niiIp a = niiIp b"
  using assms unfolding nii_key_def by (rule nii_keys.key_inj)

lemma keyed_pairs:
  assumes "keyed m" "CHR ''/'' \<notin> set (niiNetId nii)"
  shows "gm_get m (nii_key nii) \<noteq> None \<longleftrightarrow> (niiNetId nii, niiIp nii) \<in> pairs m"
proof
  assume "gm_get m (nii_key nii) \<noteq> None"
  then obtain x where x: "(nii_key nii, x) \<in> set m" using map_of_SomeD by fastforce
  then have "nii_key nii = nii_key x" "CHR ''/'' \<notin> set (niiNetId x)" using assms(1) by (auto simp: keyed_def)
  with nii_key_inj [of nii x] assms(2) have "(niiNetId nii, niiIp nii) = (niiNetId x, niiIp x)" by simp
  with x show "(niiNetId nii, niiIp nii) \<in> pairs m" by (force simp: pairs_def)
next
  assume "(niiNetId nii, niiIp nii) \<in> pairs m"
  then obtain k x where x: "(k, x) \<in> set m" "niiNetId nii = niiNetId x" "niiIp nii = niiIp x"
    by (auto simp: pairs_def)
  with assms(1) have "k = nii_key nii" by (auto simp: keyed_def nii_key_def)
  moreover from x(1) have "k \<in> fst ` set m" by force
  ultimately show "gm_get m (nii_key nii) \<noteq> None" by (simp add: map_of_eq_None_iff)
qed

lemma gm_set_set: "gm_wf m \<Longrightarrow> set (gm_set m k v) = insert (k, v) {p \<in> set m. fst p \<noteq> k}"
  by (induction m) (auto simp: gm_wf_def image_iff)

lemma newNetIdIPm_keyed:
  assumes "\<forall>nic\<in>set nics. CHR ''/'' \<notin> set (nicNetId nic)"
  shows "keyed (newNetIdIPm nics)" "pairs (newNetIdIPm nics) = (\<lambda>nic. (nicNetId nic, nicIP nic)) ` set nics"
proof -
  have "keyed (newNetIdIPm nics) \<and> pairs (newNetIdIPm nics) = (\<lambda>nic. (nicNetId nic, nicIP nic)) ` set nics"
    using assms
  proof (induction nics rule: rev_induct)
    case (snoc nic nics)
    let ?m = "newNetIdIPm nics" and ?n = "nii_of nic"
    have m: "newNetIdIPm (nics @ [nic]) = gm_set ?m (nii_key ?n) ?n" by (simp add: newNetIdIPm_def)
    have k: "keyed ?m" "CHR ''/'' \<notin> set (niiNetId ?n)"
      "pairs ?m = (\<lambda>nic. (nicNetId nic, nicIP nic)) ` set nics" using snoc by (simp_all add: nii_of_def)
    have wf: "gm_wf ?m" using k(1) by (simp add: keyed_def)
    have "keyed (gm_set ?m (nii_key ?n) ?n)"
      using k wf by (auto simp: keyed_def gm_set_set)
    moreover have "pairs (gm_set ?m (nii_key ?n) ?n) = insert (niiNetId ?n, niiIp ?n) (pairs ?m)"
    proof -
      have "(niiNetId x, niiIp x) = (niiNetId ?n, niiIp ?n)" if "(nii_key ?n, x) \<in> set ?m" for x
        using that k nii_key_inj [of x ?n] by (auto simp: keyed_def)
      then show ?thesis unfolding pairs_def set_map gm_set_set [OF wf] by (auto simp: image_iff) blast+
    qed
    ultimately show ?case unfolding m k(3) by (simp add: nii_of_def)
  qed (simp add: newNetIdIPm_def keyed_def pairs_def)
  then show "keyed (newNetIdIPm nics)" "pairs (newNetIdIPm nics) = (\<lambda>nic. (nicNetId nic, nicIP nic)) ` set nics"
    by auto
qed

lemma minus_pairs:
  assumes "keyed a" "keyed b"
  shows "(\<lambda>nii. (niiNetId nii, niiIp nii)) ` set (filter (\<lambda>nii. gm_get b (nii_key nii) = None) (map snd a)) =
    pairs a - pairs b"
proof -
  have "gm_get b (nii_key nii) = None \<longleftrightarrow> (niiNetId nii, niiIp nii) \<notin> pairs b" if "nii \<in> set (map snd a)" for nii
    using keyed_pairs [OF assms(2), of nii] that assms(1) by (auto simp: keyed_def)
  then show ?thesis unfolding pairs_def [of a] by auto
qed

lemma Diff_pairs:
  assumes "keyed m" "keyed m1" "niim_Diff m m1 = (dels, adds)"
  shows "(\<lambda>nii. (niiNetId nii, niiIp nii)) ` set dels = pairs m - pairs m1"
    "(\<lambda>nii. (niiNetId nii, niiIp nii)) ` set adds = pairs m1 - pairs m"
  using minus_pairs [OF assms(1,2)] minus_pairs [OF assms(2,1)] assms(3) by (auto simp: niim_Diff_def)

text \<open>A request changes the addresses with a server by those the guest lost and gained.\<close>

lemma md_request_served:
  assumes "\<forall>nic\<in>set nics. CHR ''/'' \<notin> set (nicNetId nic)"
    and "\<And>m. gm_get (mmGuestNics man) g = Some m \<Longrightarrow> keyed m"
  shows "served (md_request c g nics man) =
      (served man - (guest_pairs man g - pairs (newNetIdIPm nics)))
      \<union> (pairs (newNetIdIPm nics) - guest_pairs man g)"
    and "servers_ok man \<Longrightarrow> servers_ok (md_request c g nics man)"
    and "mmGuestNics (md_request c g nics man) = gm_set (mmGuestNics man) g (newNetIdIPm nics)"
proof -
  let ?m1 = "newNetIdIPm nics"
  let ?man = "man\<lparr>mmGuestNics := gm_set (mmGuestNics man) g ?m1\<rparr>"
  have u: "served ?man = served man" "servers_ok ?man = servers_ok man"
    by (simp_all add: served_def servers_ok_def)
  obtain dels adds where d: "(case gm_get (mmGuestNics man) g of Some niim \<Rightarrow> niim_Diff niim ?m1
      | None \<Rightarrow> ([], niim_List ?m1)) = (dels, adds)" by (meson surj_pair)
  have ps: "(\<lambda>nii. (niiNetId nii, niiIp nii)) ` set dels = guest_pairs man g - pairs ?m1
    \<and> (\<lambda>nii. (niiNetId nii, niiIp nii)) ` set adds = pairs ?m1 - guest_pairs man g"
  proof (cases "gm_get (mmGuestNics man) g")
    case None
    with d have "dels = []" "adds = map snd ?m1" by (simp_all add: niim_List_def)
    with None show ?thesis by (simp add: guest_pairs_def pairs_def)
  next
    case (Some m)
    with d have "niim_Diff m ?m1 = (dels, adds)" by simp
    from Diff_pairs [OF assms(2) [OF Some] newNetIdIPm_keyed(1) [OF assms(1)] this] Some show ?thesis
      by (simp add: guest_pairs_def)
  qed
  note r = md_request_def [of c g nics man, unfolded d prod.case Let_def]
  show "served (md_request c g nics man) =
      (served man - (guest_pairs man g - pairs ?m1)) \<union> (pairs ?m1 - guest_pairs man g)"
    unfolding r by (simp add: ons offs u ps)
  show "servers_ok man \<Longrightarrow> servers_ok (md_request c g nics man)"
    unfolding r by (simp add: ons offs u)
  show "mmGuestNics (md_request c g nics man) = gm_set (mmGuestNics man) g ?m1"
    unfolding r by (simp add: ons offs)
qed

section \<open>Reachable states\<close>

text \<open>The requests of the watcher, with network ids without slash; no two guests ask for the same
  address of the same network.  Forwards and the cleanup change neither the guests nor the
  addresses of the servers.\<close>

inductive md_reach :: "ovnMdMan \<Rightarrow> bool" where
  md_new: "md_reach newOvnMdMan"
| md_req: "md_reach man \<Longrightarrow> \<forall>nic\<in>set nics. CHR ''/'' \<notin> set (nicNetId nic) \<Longrightarrow>
    \<forall>g'. g' \<noteq> g \<longrightarrow> guest_pairs man g' \<inter> (\<lambda>nic. (nicNetId nic, nicIP nic)) ` set nics = {} \<Longrightarrow>
    md_reach (md_request c g nics man)"
| md_fwd: "md_reach man \<Longrightarrow> md_reach (fst (handleMdPbReq env req man))"
| md_clean: "md_reach man \<Longrightarrow> md_cleanup br ps isLink man = Inr man' \<Longrightarrow> md_reach man'"
| md_done: "md_reach man \<Longrightarrow> md_reach (forward_done n i man)"

definition md_inv :: "ovnMdMan \<Rightarrow> bool" where
  "md_inv man \<longleftrightarrow> servers_ok man \<and> (\<forall>g m. gm_get (mmGuestNics man) g = Some m \<longrightarrow> keyed m)
     \<and> served man = (\<Union>g. guest_pairs man g)
     \<and> (\<forall>g g'. g \<noteq> g' \<longrightarrow> guest_pairs man g \<inter> guest_pairs man g' = {})"

lemma md_inv_cong:
  assumes "served man' = served man" "servers_ok man' = servers_ok man" "mmGuestNics man' = mmGuestNics man"
  shows "md_inv man' = md_inv man"
proof -
  have "guest_pairs man' = guest_pairs man" by (simp add: guest_pairs_def fun_eq_iff assms(3))
  with assms show ?thesis by (simp add: md_inv_def)
qed

lemma served_forwards:
  "gm_get (mmServers man) n = Some s \<Longrightarrow>
   served (man\<lparr>mmServers := gm_set (mmServers man) n (s\<lparr>msForwards := fs\<rparr>)\<rparr>) = served man"
  "gm_get (mmServers man) n = Some s \<Longrightarrow>
   servers_ok (man\<lparr>mmServers := gm_set (mmServers man) n (s\<lparr>msForwards := fs\<rparr>)\<rparr>) = servers_ok man"
  by (auto simp: served_def servers_ok_def split: if_splits)

lemma handle_same:
  assumes "handleMdPbReq env req man = (man', r)"
  shows "served man' = served man" "servers_ok man' = servers_ok man" "mmGuestNics man' = mmGuestNics man"
proof -
  have "man' = man \<or> (\<exists>n s fs. gm_get (mmServers man) n = Some s
      \<and> man' = man\<lparr>mmServers := gm_set (mmServers man) n (s\<lparr>msForwards := fs\<rparr>)\<rparr>)"
    using assms unfolding handleMdPbReq_def Let_def
    by (cases req) (fastforce split: option.splits sum.splits go_error.splits)+
  then show "served man' = served man" "servers_ok man' = servers_ok man" "mmGuestNics man' = mmGuestNics man"
    using served_forwards by auto
qed

lemma swap_part:
  assumes "R \<inter> A = {}" "R \<inter> P = {}" "S = A \<union> R"
  shows "(S - (A - P)) \<union> (P - A) = P \<union> R"
  using assms by blast

lemma md_reach_inv: "md_reach man \<Longrightarrow> md_inv man"
proof (induction rule: md_reach.induct)
  case md_new
  show ?case by (simp add: md_inv_def newOvnMdMan_def servers_ok_def served_def guest_pairs_def)
next
  case (md_req man nics g c)
  have k: "\<And>m. gm_get (mmGuestNics man) g = Some m \<Longrightarrow> keyed m" using md_req.IH by (auto simp: md_inv_def)
  note r = md_request_served [OF md_req.hyps(2) k, where c = c]
  note n = newNetIdIPm_keyed [OF md_req.hyps(2)]
  let ?man = "md_request c g nics man"
  have gp: "guest_pairs ?man g' = (if g' = g then pairs (newNetIdIPm nics) else guest_pairs man g')" for g'
    by (simp add: guest_pairs_def r(3))
  have dis: "guest_pairs man g' \<inter> pairs (newNetIdIPm nics) = {}" if "g' \<noteq> g" for g'
    using md_req.hyps(3) that n(2) by blast
  have "served ?man = (\<Union>g. guest_pairs ?man g)"
  proof -
    let ?O = "\<Union>g'\<in>- {g}. guest_pairs man g'"
    have "guest_pairs man g' \<inter> guest_pairs man g = {}" if "g' \<noteq> g" for g'
      using md_req.IH that by (simp add: md_inv_def)
    then have "?O \<inter> guest_pairs man g = {}" by blast
    moreover have "?O \<inter> pairs (newNetIdIPm nics) = {}" using dis by blast
    moreover have "served man = guest_pairs man g \<union> ?O" using md_req.IH by (auto simp: md_inv_def)
    ultimately have "served ?man = pairs (newNetIdIPm nics) \<union> ?O" 
      using r(1) swap_part by metis
    also have "\<dots> = (\<Union>g. guest_pairs ?man g)" by (auto simp: gp split: if_splits)
    finally show ?thesis .
  qed
  moreover have "guest_pairs ?man a \<inter> guest_pairs ?man b = {}" if "a \<noteq> b" for a b
    using md_req.IH that dis by (auto simp: gp md_inv_def)
  moreover have "keyed m" if "gm_get (mmGuestNics ?man) a = Some m" for a m
    using that md_req.IH n(1) by (auto simp: r(3) md_inv_def split: if_splits)
  ultimately show ?case using r(2) md_req.IH by (simp add: md_inv_def)
next
  case (md_fwd man env req)
  then show ?case
    using md_inv_cong [OF handle_same [OF surjective_pairing [of "handleMdPbReq env req man"]]] by blast
next
  case (md_clean man br ps isLink man')
  then have "mmServers man' = mmServers man \<and> mmGuestNics man' = mmGuestNics man"
    by (auto simp: md_cleanup_def md_emit_def res_bind_Inr_iff split: sum.splits)
  then have "md_inv man' = md_inv man" by (intro md_inv_cong) (simp_all add: served_def servers_ok_def)
  with md_clean.IH show ?case by blast
next
  case (md_done man n i)
  have "md_inv (forward_done n i man) = md_inv man"
    by (rule md_inv_cong) (auto simp: forward_done_def served_forwards split: option.splits)
  with md_done.IH show ?case by blast
qed



section \<open>Cards without an IPv4 address\<close>

text \<open>Addresses are noted under the IPv4 address alone, so the cards of two guests that have only
  an IPv6 address in one network count as one: when the first guest goes away the server of the
  network stops, although the card of the second guest is still there.\<close>

theorem ipv6_cards_lose_server:
  assumes "nicNetId a = n" "nicNetId b = n" "nicIP a = ''''" "nicIP b = ''''" "g1 \<noteq> g2"
  shows "gm_get (mmServers (md_request c g2 [b] (md_request c g1 [a] newOvnMdMan))) n \<noteq> None
    \<and> (let man = md_request c g1 [] (md_request c g2 [b] (md_request c g1 [a] newOvnMdMan))
       in gm_get (mmServers man) n = None \<and> (n, nicIP b) \<in> guest_pairs man g2 \<and> MdStop n \<in> set (mmOut man))"
proof -
  have k: "newNetIdIPm [x] = [(n @ ''/'', nii_of x)]" if "x = a \<or> x = b" for x
    using assms that by (auto simp: newNetIdIPm_def nii_key_def nii_of_def)
  have p: "niiNetId (nii_of x) = n" "niiIp (nii_of x) = ''''" if "x = a \<or> x = b" for x
    using assms that by (auto simp: nii_of_def)
  show ?thesis
    using assms(4,5) k p [of a] p [of b]
    by (simp add: md_request_def niim_Diff_def niim_List_def newNetIdIPm_def [of "[]"] newOvnMdMan_def noteOn_def noteOff_def
        server_NoteOn_def server_NoteOff_def newOvnMdServer_def md_emit_def nii_key_def guest_pairs_def pairs_def Let_def)
qed

theorem ipv6_cards_lose_server_witness:
  "gm_get (mmServers (md_request (\<lambda>_ _. None) ''g1'' []
     (md_request (\<lambda>_ _. None) ''g2'' [demo_nic\<lparr>nicIP := '''', nicIP6 := ''fd00::2''\<rparr>]
       (md_request (\<lambda>_ _. None) ''g1'' [demo_nic\<lparr>nicIP := '''', nicIP6 := ''fd00::1''\<rparr>] newOvnMdMan)))) ''net0'' = None"
  using ipv6_cards_lose_server [of "demo_nic\<lparr>nicIP := '''', nicIP6 := ''fd00::1''\<rparr>" "''net0''"
      "demo_nic\<lparr>nicIP := '''', nicIP6 := ''fd00::2''\<rparr>" "''g1''" "''g2''" "\<lambda>_ _. None"]
  by (simp add: demo_nic_def Let_def)

section \<open>Forwards open and close\<close>

definition forwards :: "ovnMdMan \<Rightarrow> string \<Rightarrow> ovnMdForward list" where
  "forwards man n = (case gm_get (mmServers man) n of None \<Rightarrow> [] | Some s \<Rightarrow> msForwards s)"

lemma forward_Listen_keeps:
  "forward_Listen env f = Inr f' \<Longrightarrow>
   fwProto f = ''tcp'' \<and> fwProto f' = fwProto f \<and> fwRemoteAddr f' = fwRemoteAddr f \<and> fwRemotePort f' = fwRemotePort f
     \<and> fwListenTCP env (fwLocalAddr f) (fwLocalPort f) = Inr (fwBindAddr f', fwBindPort f')"
  by (auto simp: forward_Listen_def res_bind_Inr_iff split: if_splits sum.splits go_error.splits)

lemma open_Inr:
  assumes "handleMdPbReq env (FwdOpen n proto addr port raddr rport) man = (man1, Inr (OpenResponse n' f))"
  obtains s where "gm_get (mmServers man) n = Some s" "n' = n"
    "man1 = man\<lparr>mmServers := gm_set (mmServers man) n (s\<lparr>msForwards := msForwards s @ [f]\<rparr>)\<rparr>"
    "fwProto f = proto" "fwRemoteAddr f = raddr" "fwRemotePort f = rport"
  using assms that
  by (auto simp: handleMdPbReq_def serveRequest_def Let_def dest!: forward_Listen_keeps split: option.splits sum.splits go_error.splits)

text \<open>C26: an opened forward is listed under its remote address, and a close with the protocol,
  address and port of the answer gives the forwards from before, provided that no other forward of
  the network listens there.\<close>

theorem forward_roundtrip:
  assumes "handleMdPbReq env (FwdOpen n proto addr port raddr rport) man = (man1, Inr (OpenResponse n' f))"
    and "filter (same_listener (fwProto f) (fwBindAddr f) (fwBindPort f)) (forwards man n) = []"
  shows "n' = n \<and> snd (handleMdPbReq env (FwdListByRemote n proto raddr rport) man1) =
      Inr (ListByRemoteResponse (filter (by_remote proto raddr rport) (forwards man n) @ [f]))
    \<and> (let (man2, r) = handleMdPbReq env (FwdClose n (fwProto f) (fwBindAddr f) (fwBindPort f)) man1
       in r = Inr (CloseResponse n (fwProto f) (fwBindAddr f) (fwBindPort f)) \<and> forwards man2 n = forwards man n)"
proof -
  from assms(1) obtain s where s: "gm_get (mmServers man) n = Some s" "n' = n"
    "man1 = man\<lparr>mmServers := gm_set (mmServers man) n (s\<lparr>msForwards := msForwards s @ [f]\<rparr>)\<rparr>"
    "fwProto f = proto" "fwRemoteAddr f = raddr" "fwRemotePort f = rport" by (rule open_Inr)
  have "List.extract (same_listener (fwProto f) (fwBindAddr f) (fwBindPort f)) (msForwards s @ [f]) = Some (msForwards s, f, [])"
    using assms(2) s(1) by (auto simp: forwards_def extract_Some_iff filter_empty_conv same_listener_def)
  with s show ?thesis by (simp add: handleMdPbReq_def serveRequest_def forwards_def by_remote_def Let_def)
qed

definition demo_fwd_env :: fwd_env where
  "demo_fwd_env = \<lparr>fwValidIP = (\<lambda>s. parseIPv4 s \<noteq> None), fwListenTCP = (\<lambda>a p. Inr (a, if p = 0 then 40000 else p))\<rparr>"

definition demo_md_man :: ovnMdMan where
  "demo_md_man = md_request (\<lambda>_ _. None) ''g1'' [demo_nic] newOvnMdMan"

definition demo_fwd :: ovnMdForward where
  "demo_fwd = \<lparr>fwProto = ''tcp'', fwLocalAddr = ''0.0.0.0'', fwLocalPort = 0, fwRemoteAddr = ''10.0.0.2'', fwRemotePort = 22,
     fwBindAddr = ''0.0.0.0'', fwBindPort = 40000\<rparr>"

theorem forward_roundtrip_witness:
  "forwards (fst (handleMdPbReq demo_fwd_env (FwdClose ''net0'' ''tcp'' ''0.0.0.0'' 40000)
     (fst (fwd_Open demo_fwd_env ''net0'' ''tcp'' '''' 0 ''10.0.0.2'' 22 demo_md_man)))) ''net0'' = []"
proof -
  let ?r = "handleMdPbReq demo_fwd_env (FwdOpen ''net0'' ''tcp'' ''0.0.0.0'' 0 ''10.0.0.2'' 22) demo_md_man"
  have "snd ?r = Inr (OpenResponse ''net0'' demo_fwd)" by code_simp
  then have o: "?r = (fst ?r, Inr (OpenResponse ''net0'' demo_fwd))" by (metis surjective_pairing)
  have e: "forwards demo_md_man ''net0'' = []" by code_simp
  have f: "fwd_Open demo_fwd_env ''net0'' ''tcp'' '''' 0 ''10.0.0.2'' 22 demo_md_man = ?r" by (simp add: fwd_Open_def)
  have d: "fwProto demo_fwd = ''tcp''" "fwBindAddr demo_fwd = ''0.0.0.0''" "fwBindPort demo_fwd = 40000"
    by (simp_all add: demo_fwd_def)
  show ?thesis
    using forward_roundtrip [OF o] by (auto simp: e f d split: prod.splits)
qed

section \<open>The ports of the servers\<close>

lemma exI2: "P x \<Longrightarrow> Q x \<Longrightarrow> \<exists>x. P x \<and> Q x"
  by blast

lemma peer_wants_Inr:
  "\<forall>n\<in>set ns. 10 \<le> length n \<Longrightarrow> peer_wants ns = Inr (map (\<lambda>n. ''md-'' @ take 10 n @ ''-p'') ns)"
  by (induction ns) (auto simp: ovnMdVethPair_def Let_def)

text \<open>The cleanup deletes exactly the metadata ports of the bridge that are the peer of no
  server's pair, and with them their links; servers and guests stay as they are.\<close>

theorem md_cleanup_exact:
  assumes "\<forall>n\<in>dom (gm_get (mmServers man)). 10 \<le> length n"
  shows "\<exists>es. md_cleanup br (Inr ps) isLink man = Inr (md_emit es man)
    \<and> set es = {e. \<exists>p\<in>set ps. ovnMdIsVethPeer p \<and> (\<forall>n\<in>dom (gm_get (mmServers man)). p \<noteq> ''md-'' @ take 10 n @ ''-p'')
                    \<and> (e = MdPortDel br p \<or> e = MdLinkDel p \<and> isLink p)}"
proof -
  have d: "dom (gm_get (mmServers man)) = set (map fst (mmServers man))" by (simp add: dom_map_of_conv_image_fst)
  with assms have "peer_wants (map fst (mmServers man)) =
      Inr (map (\<lambda>n. ''md-'' @ take 10 n @ ''-p'') (map fst (mmServers man)))" by (intro peer_wants_Inr) simp
  then have "md_cleanup br (Inr ps) isLink man = Inr (md_emit (concat (map (\<lambda>got.
      if got \<in> set (map (\<lambda>n. ''md-'' @ take 10 n @ ''-p'') (map fst (mmServers man))) then []
      else MdPortDel br got # (if isLink got then [MdLinkDel got] else [])) (filter ovnMdIsVethPeer ps))) man)"
    by (simp add: md_cleanup_def)
  then show ?thesis unfolding d by (rule exI2) (auto simp: image_iff split: if_splits)
qed

theorem md_cleanup_exact_witness:
  "\<exists>es. md_cleanup ''brvpc'' (Inr [''md-0123456789-p'', ''md-abcdefghij-p'', ''eth0'']) (\<lambda>_. True)
       (newOvnMdMan\<lparr>mmServers := [(''0123456789ab'', newOvnMdServer ''0123456789ab'' '''' '''')]\<rparr>) =
     Inr (md_emit es (newOvnMdMan\<lparr>mmServers := [(''0123456789ab'', newOvnMdServer ''0123456789ab'' '''' '''')]\<rparr>))
   \<and> set es = {MdPortDel ''brvpc'' ''md-abcdefghij-p'', MdLinkDel ''md-abcdefghij-p''}"
proof -
  let ?man = "newOvnMdMan\<lparr>mmServers := [(''0123456789ab'', newOvnMdServer ''0123456789ab'' '''' '''')]\<rparr>"
  have d: "dom (gm_get (mmServers ?man)) = {''0123456789ab''}" by (auto split: if_splits)
  then have l: "\<forall>n\<in>dom (gm_get (mmServers ?man)). 10 \<le> length n" by simp
  obtain es where es: "md_cleanup ''brvpc'' (Inr [''md-0123456789-p'', ''md-abcdefghij-p'', ''eth0'']) (\<lambda>_. True) ?man = Inr (md_emit es ?man)"
    "set es = {e. \<exists>p\<in>set [''md-0123456789-p'', ''md-abcdefghij-p'', ''eth0'']. ovnMdIsVethPeer p
       \<and> (\<forall>n\<in>dom (gm_get (mmServers ?man)). p \<noteq> ''md-'' @ take 10 n @ ''-p'')
       \<and> (e = MdPortDel ''brvpc'' p \<or> e = MdLinkDel p \<and> True)}"
    using md_cleanup_exact [OF l] by blast
  have "set es = {MdPortDel ''brvpc'' ''md-abcdefghij-p'', MdLinkDel ''md-abcdefghij-p''}"
    unfolding es(2) d by (auto simp: ovnMdIsVethPeer_def HasPrefix_def HasSuffix_def)
  with es(1) show ?thesis by blast
qed

text \<open>The stop of a server takes its port off the bridge that the start put it on, and deletes the link
  that the start created with it.\<close>

lemma infra_off_undoes_on:
  assumes "10 \<le> length (msNetId s)"
  shows "\<exists>l peer on off. ovnMdVethPair (msNetId s) = Inr (l, peer) \<and> length peer = 15 \<and> ovnMdIsVethPeer peer
    \<and> ensureMdInfra mac br ip4s ip6s (\<lambda>_. True) s = Inr (on, True) \<and> VethAdd l peer \<in> set on
    \<and> ensureMdInfraOff br True True (\<lambda>_. True) s = Inr (off, True)
    \<and> off = [NsClose, RunOvsctl [''ovs-vsctl'', ''--'', ''--if-exists'', ''del-port'', br, peer], LinkDel peer]"
  using assms by (simp add: ovnMdVethPair_def ensureMdInfra_def ensureMdInfraOff_def Let_def ovnMdIsVethPeer_def HasPrefix_def HasSuffix_def)

text \<open>The start runs beside the loop of the manager: a server that is stopped before the start got that
  far ends the agent, while one that has started is stopped whatever failed on the way.\<close>

lemma stop_needs_start:
  "server_Stop br found ok s \<lparr>mrForwardCancel = False, mrNs = b, mrApp = c\<rparr> = Inl (Panic ''nil function call'')"
  "server_Start mac br ip4s ip6s ok1 nsOk s run = Inr (run', cs) \<Longrightarrow> \<exists>cs'. server_Stop br found ok s run' = Inr cs'"
proof -
  show "server_Stop br found ok s \<lparr>mrForwardCancel = False, mrNs = b, mrApp = c\<rparr> = Inl (Panic ''nil function call'')"
    by (simp add: server_Stop_def)
  assume "server_Start mac br ip4s ip6s ok1 nsOk s run = Inr (run', cs)"
  then have c: "mrForwardCancel run'" and v: "is_ok (ovnMdVethPair (msNetId s))"
    by (auto simp: server_Start_def ensureMdInfra_def res_bind_Inr_iff)
  from v obtain q where q: "ovnMdVethPair (msNetId s) = Inr q" by (cases "ovnMdVethPair (msNetId s)") auto
  have "is_ok (ensureMdInfraOff br (mrNs run') found ok s)"
    unfolding ensureMdInfraOff_def q by (simp add: split_beta Let_def)
  then show "\<exists>cs'. server_Stop br found ok s run' = Inr cs'"
    using c by (cases "ensureMdInfraOff br (mrNs run') found ok s") (auto simp: server_Stop_def)
qed

end
