(* ===== verification/EipMan.thy ===== *)
theory EipMan
  imports FlowSource FlowMan
begin

text \<open>
  The manager of the elastic addresses, \<open>pkg/agent/server/eip.go\<close>: patch ports between the bridge of
  the elastic addresses and the integration bridge, one pair per VPC, the flows that translate
  between an elastic address and the address of its card, and a route per elastic address.

  Commands are values of \<open>eip_effect\<close>, in the order in which they are given; what they return and what
  the manager reads from the switch and the kernel are fields of \<open>eip_env\<close>.  The data of the region
  come as lists, in the order in which the maps of the code are visited.
\<close>

section \<open>State\<close>

datatype eip_effect =
    EipOvsCtl "string list"
  | EipLinkUp string
  | EipAddrExact string "string list"
  | EipRouteAdd string string string
  | EipRouteDel string
  | EipFlow string flowManCmd
  | EipPortDel string string

record eip_env =
  eeEipBridge :: string
  eeIntegrationBridge :: string
  eeOverlayMTU :: int
  eeRunOvsctl :: "string list \<Rightarrow> unit result"
  eeLinkUp :: "unit result"
  eeAddrExact :: "string list \<Rightarrow> unit result"
  eeDumpPort :: "string \<Rightarrow> string \<Rightarrow> int result"
  eeListRoutes :: "string list result"
  eeListPorts :: "string \<Rightarrow> string list result"
  eeIsLink :: "string \<Rightarrow> bool"
  eeHasFlowMan :: bool
  eeUnmarshal :: "string \<Rightarrow> flow result"

record eipMan =
  emVpcPnames :: "(string, string) gomap"
  emIp :: string
  emMac :: string
  emOut :: "eip_effect list"

definition newEipMan :: eipMan where
  "newEipMan = \<lparr>emVpcPnames = [], emIp = '''', emMac = '''', emOut = []\<rparr>"

definition eip_emit :: "eip_effect list \<Rightarrow> eipMan \<Rightarrow> eipMan" where
  "eip_emit es man = man\<lparr>emOut := emOut man @ es\<rparr>"

definition pnameEipPrefix :: string where "pnameEipPrefix = ''ev-''"
definition pnameEipSuffix :: string where "pnameEipSuffix = ''-p''"

definition VpcEipGatewayCidr :: string where "VpcEipGatewayCidr = ''100.64.128.0/17''"
definition VpcEipGatewayIPMask :: int where "VpcEipGatewayIPMask = 17"
definition VpcEipGatewayMac :: string where "VpcEipGatewayMac = ''ee:ee:ee:ee:ee:ef''"
definition VpcEipGatewayIP3 :: string where "VpcEipGatewayIP3 = ''100.64.128.3''"
definition VpcEipGatewayMac3 :: string where "VpcEipGatewayMac3 = ''ee:ee:ee:ee:ee:f0''"

section \<open>The data of the region\<close>

text \<open>A network of a guest, a group or a load balancer.  \<open>enVpcId\<close> is \<open>None\<close> if the network or its VPC is
  nil.\<close>

record elasticip =
  eipId :: string
  eipIpAddr :: string

record eip_net =
  enElasticip :: "elasticip option"
  enVpcId :: "string option"
  enIpAddr :: string

record modelSets =
  msGuestnetworks :: "eip_net list"
  msGroupnetworks :: "eip_net list"
  msLoadbalancerNetworks :: "eip_net list"

record eipEntry =
  eeVpcId :: string
  eeVpcIp :: string
  eeEipIp :: string

fun prep_nets :: "(string, eipEntry) gomap \<Rightarrow> eip_net list \<Rightarrow> (string, eipEntry) gomap result" where
  "prep_nets r [] = Inr r"
| "prep_nets r (gn # gns) =
     (case enElasticip gn of
        None \<Rightarrow> prep_nets r gns
      | Some eip \<Rightarrow>
          (case enVpcId gn of
             None \<Rightarrow> Inl (Panic ''nil pointer dereference'')
           | Some vpcId \<Rightarrow>
               prep_nets (gm_set r (eipId eip) \<lparr>eeVpcId = vpcId, eeVpcIp = enIpAddr gn, eeEipIp = eipIpAddr eip\<rparr>) gns))"

definition prepEipEntries :: "modelSets \<Rightarrow> (string, eipEntry) gomap result" where
  "prepEipEntries mss =
     res_bind (prep_nets [] (msGuestnetworks mss)) (\<lambda>r.
       res_bind (prep_nets r (msGroupnetworks mss)) (\<lambda>r.
         prep_nets r (msLoadbalancerNetworks mss)))"

section \<open>The bridge\<close>

definition ensureEipBridge :: "eip_env \<Rightarrow> eipMan \<Rightarrow> eipMan \<times> unit result" where
  "ensureEipBridge env man =
     (let br = eeEipBridge env;
          args = [''ovs-vsctl'', ''--'', ''--may-exist'', ''add-br'', br,
                  ''--'', ''set'', ''Bridge'', br, ''other-config:hwaddr='' @ emMac man,
                  ''--'', ''set'', ''Interface'', br, ''mtu_request='' @ show_int (eeOverlayMTU env)];
          addrs = [emIp man @ ''/'' @ show_int VpcEipGatewayIPMask];
          man = eip_emit [EipOvsCtl args] man
      in case eeRunOvsctl env args of
           Inl e \<Rightarrow> (man, Inl e)
         | Inr _ \<Rightarrow>
             let man = eip_emit [EipLinkUp br] man
             in case eeLinkUp env of
                  Inl e \<Rightarrow> (man, Inl e)
                | Inr _ \<Rightarrow> (eip_emit [EipAddrExact br addrs] man, eeAddrExact env addrs))"

definition eip_setIpMac :: "eip_env \<Rightarrow> eipMan \<Rightarrow> eipMan \<times> unit result" where
  "eip_setIpMac env man = ensureEipBridge env (man\<lparr>emMac := VpcEipGatewayMac3, emIp := VpcEipGatewayIP3\<rparr>)"

text \<open>The names of the two patch ports of a VPC; the slice expression panics on a shorter id.\<close>

definition eip_pnamePair :: "string \<Rightarrow> eipMan \<Rightarrow> (eipMan \<times> string \<times> string) result" where
  "eip_pnamePair vpcId man =
     (let n = 15 - length pnameEipPrefix - length pnameEipSuffix
      in case gm_get (emVpcPnames man) vpcId of
           Some b \<Rightarrow> Inr (man, b, b @ pnameEipSuffix)
         | None \<Rightarrow>
             if length vpcId < n then Inl (Panic ''slice bounds out of range'')
             else let b = pnameEipPrefix @ take n vpcId
                  in Inr (man\<lparr>emVpcPnames := gm_set (emVpcPnames man) vpcId b\<rparr>, b, b @ pnameEipSuffix))"

definition ensureEipBridgeVpcPort :: "eip_env \<Rightarrow> string \<Rightarrow> eipMan \<Rightarrow> (eipMan \<times> unit result) result" where
  "ensureEipBridgeVpcPort env vpcId man =
     res_bind (eip_pnamePair vpcId man) (\<lambda>(man, mine, peer).
       let ifaceId = ''vpc-ep/'' @ vpcId @ ''/'' @ VpcEipGatewayIP3;
           args = [''ovs-vsctl'', ''--'', ''--may-exist'', ''add-port'', eeEipBridge env, mine,
                   ''--'', ''set'', ''Interface'', mine, ''type=patch'', ''options:peer='' @ peer,
                   ''--'', ''--may-exist'', ''add-port'', eeIntegrationBridge env, peer,
                   ''--'', ''set'', ''Interface'', peer, ''type=patch'', ''options:peer='' @ mine,
                   ''external_ids:iface-id='' @ ifaceId]
       in Inr (eip_emit [EipOvsCtl args] man, eeRunOvsctl env args))"

section \<open>Flows\<close>

definition hexMac :: "string \<Rightarrow> string" where
  "hexMac mac = ''0x'' @ dropWhile (\<lambda>c. c = CHR ''0'') (filter (\<lambda>c. c \<noteq> CHR '':'') mac)"

definition arpactions :: "string \<Rightarrow> string list" where
  "arpactions mac =
     [''move:NXM_OF_ETH_SRC[]->NXM_OF_ETH_DST[]'',
      ''load:'' @ hexMac mac @ ''->NXM_OF_ETH_SRC[]'',
      ''load:0x2->NXM_OF_ARP_OP[]'',
      ''load:'' @ hexMac VpcEipGatewayMac @ ''->NXM_NX_ARP_SHA[]'',
      ''move:NXM_OF_ARP_TPA[]->NXM_OF_ARP_SPA[]'',
      ''move:NXM_NX_ARP_SHA[]->NXM_NX_ARP_THA[]'',
      ''move:NXM_OF_ARP_SPA[]->NXM_OF_ARP_TPA[]'',
      ''in_port'']"

definition eip_flows :: "string \<Rightarrow> int \<Rightarrow> string \<Rightarrow> string \<Rightarrow> flow_spec list" where
  "eip_flows mac pnoMine vpcIp eipIp =
     [fl 0 33000 (''in_port='' @ show_int pnoMine @ '',dl_src='' @ VpcEipGatewayMac @ '',ip,nw_src='' @ vpcIp)
        (''mod_dl_dst:'' @ mac @ '',mod_nw_src:'' @ eipIp @ '',LOCAL''),
      fl 0 32000 (''in_port=LOCAL,ip,nw_dst='' @ eipIp)
        (''mod_dl_dst:'' @ VpcEipGatewayMac @ '',mod_nw_dst:'' @ vpcIp @ '',output:'' @ show_int pnoMine),
      fl 0 31000 (''in_port=LOCAL,arp,arp_op=1,arp_tpa='' @ eipIp) (join '','' (arpactions mac))]"

definition eip_drop :: flow_spec where
  "eip_drop = fl 0 1000 '''' ''drop''"

text \<open>The loop of \<open>run\<close> over the entries.\<close>

fun eip_loop ::
  "eip_env \<Rightarrow> string list \<Rightarrow> eipMan \<Rightarrow> flow list \<Rightarrow> eipEntry list \<Rightarrow> (eipMan \<times> flow list) result" where
  "eip_loop env vpcIds man flows [] = Inr (man, flows)"
| "eip_loop env vpcIds man flows (e # es) =
     (let vpcId = eeVpcId e
      in res_bind (if vpcId \<notin> set vpcIds then ensureEipBridgeVpcPort env vpcId man else Inr (man, Inr ())) (\<lambda>(man, r).
           if \<not> is_ok r then eip_loop env (vpcId # vpcIds) man flows es
           else res_bind (eip_pnamePair vpcId man) (\<lambda>(man, mine, _).
             case eeDumpPort env (eeEipBridge env) mine of
               Inl _ \<Rightarrow> eip_loop env (vpcId # vpcIds) man flows es
             | Inr pnoMine \<Rightarrow>
                 res_bind (res_map (F (eeUnmarshal env)) (eip_flows (emMac man) pnoMine (eeVpcIp e) (eeEipIp e))) (\<lambda>fs.
                   eip_loop env (vpcId # vpcIds) (eip_emit [EipRouteAdd (eeEipIp e) ''255.255.255.255'' ''''] man)
                     (flows @ fs) es))))"

definition eip_run :: "eip_env \<Rightarrow> modelSets \<Rightarrow> eipMan \<Rightarrow> eipMan result" where
  "eip_run env mss man =
     res_bind (prepEipEntries mss) (\<lambda>entries.
       res_bind (F (eeUnmarshal env) eip_drop) (\<lambda>drp.
         res_bind (eip_loop env [] man [drp] (map snd entries)) (\<lambda>(man, flows).
           Inr (if eeHasFlowMan env
                then eip_emit [EipFlow (eeEipBridge env) (UpdateFlowsCmd ''eipman'' flows)] man else man))))"

text \<open>\<open>addEipFlows\<close>, the same work for one address: the flows and the VPCs with ports, and the error it
  returns.\<close>

definition addEipFlows ::
  "eip_env \<Rightarrow> flow list \<Rightarrow> string list \<Rightarrow> elasticip option \<Rightarrow> string \<Rightarrow> string \<Rightarrow> eipMan
    \<Rightarrow> (eipMan \<times> flow list \<times> string list \<times> unit result) result" where
  "addEipFlows env flows vpcIds eip vpcId vpcIp man =
     (case eip of
        None \<Rightarrow> Inr (man, flows, vpcIds, Inr ())
      | Some eip \<Rightarrow>
          let (isNew, vpcIds) = (vpcId \<notin> set vpcIds, if vpcId \<notin> set vpcIds then vpcId # vpcIds else vpcIds)
          in res_bind (if isNew then ensureEipBridgeVpcPort env vpcId man else Inr (man, Inr ())) (\<lambda>(man, r).
               case r of
                 Inl e \<Rightarrow> Inr (man, flows, vpcIds, Inl e)
               | Inr _ \<Rightarrow>
                   res_bind (eip_pnamePair vpcId man) (\<lambda>(man, mine, _).
                     case eeDumpPort env (eeEipBridge env) mine of
                       Inl e \<Rightarrow> Inr (man, flows, vpcIds, Inl e)
                     | Inr pnoMine \<Rightarrow>
                         res_bind (res_map (F (eeUnmarshal env)) (eip_flows (emMac man) pnoMine vpcIp (eipIpAddr eip))) (\<lambda>fs.
                           Inr (eip_emit [EipRouteAdd (eipIpAddr eip) ''255.255.255.255'' ''''] man,
                                flows @ fs, vpcIds, Inr ())))))"

section \<open>Cleaning up\<close>

definition eip_listPorts :: "eip_env \<Rightarrow> string \<Rightarrow> string list option" where
  "eip_listPorts env br = (case eeListPorts env br of Inl _ \<Rightarrow> None | Inr ps \<Rightarrow> Some (remdups ps))"

definition eip_delPorts :: "eip_env \<Rightarrow> string \<Rightarrow> string list \<Rightarrow> eipMan \<Rightarrow> eipMan" where
  "eip_delPorts env br pnames man =
     eip_emit (map (EipPortDel br) (filter (\<lambda>p. HasPrefix p pnameEipPrefix \<and> \<not> eeIsLink env p) pnames)) man"

definition eip_clean_routes :: "eip_env \<Rightarrow> string list \<Rightarrow> eipMan \<Rightarrow> eipMan" where
  "eip_clean_routes env routeDsts man =
     (case eeListRoutes env of
        Inl _ \<Rightarrow> man
      | Inr rs \<Rightarrow> eip_emit (map EipRouteDel (filter (\<lambda>d. d \<notin> set routeDsts) rs)) man)"

text \<open>The names of the ports that stay are read from the map, whose keys are all there, so \<open>pnamePair\<close>
  changes nothing.\<close>

definition eip_clean_ports :: "eip_env \<Rightarrow> string list \<Rightarrow> eipMan \<Rightarrow> eipMan" where
  "eip_clean_ports env vpcIds man =
     (let man = man\<lparr>emVpcPnames := filter (\<lambda>(v, _). v \<in> set vpcIds) (emVpcPnames man)\<rparr>;
          mine = map snd (emVpcPnames man);
          peer = map (\<lambda>(_, b). b @ pnameEipSuffix) (emVpcPnames man)
      in case eip_listPorts env (eeIntegrationBridge env) of
           None \<Rightarrow> man
         | Some pnamesPeer \<Rightarrow>
             (case eip_listPorts env (eeEipBridge env) of
                None \<Rightarrow> man
              | Some pnamesMine \<Rightarrow>
                  eip_delPorts env (eeIntegrationBridge env) (filter (\<lambda>p. p \<notin> set peer) pnamesPeer)
                    (eip_delPorts env (eeEipBridge env) (filter (\<lambda>p. p \<notin> set mine) pnamesMine) man)))"

definition eip_cleanup :: "eip_env \<Rightarrow> modelSets \<Rightarrow> eipMan \<Rightarrow> eipMan result" where
  "eip_cleanup env mss man =
     res_bind (prepEipEntries mss) (\<lambda>entries.
       let es = map snd entries
       in Inr (eip_clean_ports env (map eeVpcId es)
            (eip_clean_routes env (map (\<lambda>e. eeEipIp e @ ''/32'') es @ [VpcEipGatewayCidr]) man)))"

definition eip_refresh :: "eip_env \<Rightarrow> modelSets \<Rightarrow> eipMan \<Rightarrow> eipMan result" where
  "eip_refresh env mss man =
     (case eip_setIpMac env man of
        (man, Inl _) \<Rightarrow> Inr man
      | (man, Inr _) \<Rightarrow> eip_run env mss man)"

section \<open>The loop\<close>

text \<open>The last data of the region are part of the state of the loop.\<close>

datatype eip_input = EipModelSets modelSets | EipTick

definition eip_turn :: "eip_env \<Rightarrow> eip_input \<Rightarrow> eipMan \<times> modelSets option \<Rightarrow> (eipMan \<times> modelSets option) result" where
  "eip_turn env inp = (\<lambda>(man, mss).
     case inp of
       EipModelSets mss \<Rightarrow>
         res_bind (eip_run env mss man) (\<lambda>man. res_bind (eip_cleanup env mss man) (\<lambda>man. Inr (man, Some mss)))
     | EipTick \<Rightarrow>
         (case mss of
            None \<Rightarrow> Inr (man, None)
          | Some d \<Rightarrow> res_bind (eip_refresh env d man) (\<lambda>man. Inr (man, mss))))"

section \<open>Names of the patch ports\<close>

abbreviation eip_port :: "string \<Rightarrow> string" where
  "eip_port v \<equiv> ''ev-'' @ take 10 v"

text \<open>Every name is made of the id of its VPC.\<close>

definition names_ok :: "eipMan \<Rightarrow> bool" where
  "names_ok man \<longleftrightarrow> gm_wf (emVpcPnames man) \<and> (\<forall>v b. gm_get (emVpcPnames man) v = Some b \<longrightarrow> b = eip_port v)"

text \<open>What a step keeps: names stay, new ones are added.\<close>

definition eip_le :: "eipMan \<Rightarrow> eipMan \<Rightarrow> bool" where
  "eip_le man man' \<longleftrightarrow> emMac man' = emMac man \<and> (names_ok man \<longrightarrow> names_ok man')
     \<and> dom (gm_get (emVpcPnames man)) \<subseteq> dom (gm_get (emVpcPnames man'))"

lemma eip_le_refl [simp]: "eip_le man man"
  by (simp add: eip_le_def)

lemma eip_le_trans [trans]: "eip_le a b \<Longrightarrow> eip_le b c \<Longrightarrow> eip_le a c"
  by (auto simp: eip_le_def)

lemma eip_emit_fields [simp]:
  "emVpcPnames (eip_emit es man) = emVpcPnames man" "emMac (eip_emit es man) = emMac man"
  "emOut (eip_emit es man) = emOut man @ es" "names_ok (eip_emit es man) = names_ok man"
  "eip_le man' (eip_emit es man) = eip_le man' man"
  by (simp_all add: eip_emit_def eip_le_def names_ok_def)

interpretation eip_names: patch_names emVpcPnames eip_pnamePair eip_port 10 pnameEipSuffix
  by unfold_locales (auto simp: eip_pnamePair_def Let_def pnameEipPrefix_def pnameEipSuffix_def)

lemma eip_pnamePair_names:
  assumes "eip_pnamePair v man = Inr (man', mine, peer)"
  shows "eip_le man man'" "v \<in> dom (gm_get (emVpcPnames man'))" "emOut man' = emOut man"
    "names_ok man \<Longrightarrow> mine = eip_port v"
proof -
  have same: "emMac man' = emMac man" "emOut man' = emOut man"
    using assms by (auto simp: eip_pnamePair_def Let_def split: option.splits if_splits)
  note p = eip_names.pair_names [OF assms]
  have mine: "names_ok man \<Longrightarrow> mine = eip_port v"
    using p(4) eip_names.known [of man v] assms by (cases "gm_get (emVpcPnames man) v") (auto simp: names_ok_def)
  with p(2,3) have "names_ok man \<Longrightarrow> names_ok man'" by (simp add: names_ok_def)
  with p same show "eip_le man man'" "v \<in> dom (gm_get (emVpcPnames man'))" "emOut man' = emOut man"
    by (auto simp: eip_le_def)
  show "names_ok man \<Longrightarrow> mine = eip_port v" by (rule mine)
qed

lemma eip_VpcPort_names:
  assumes "ensureEipBridgeVpcPort env v man = Inr (man', r)"
  shows "eip_le man man' \<and> v \<in> dom (gm_get (emVpcPnames man')) \<and> (\<exists>args. emOut man' = emOut man @ [EipOvsCtl args] \<and> r = eeRunOvsctl env args)"
proof (cases "eip_pnamePair v man")
  case (Inr q)
  obtain man1 mine peer where q: "q = (man1, mine, peer)" by (cases q)
  have "\<exists>args. man' = eip_emit [EipOvsCtl args] man1 \<and> r = eeRunOvsctl env args"
    using assms unfolding ensureEipBridgeVpcPort_def Inr q res_bind.simps prod.case Let_def by auto
  with eip_pnamePair_names [OF Inr [unfolded q]] show ?thesis by auto
qed (use assms in \<open>simp add: ensureEipBridgeVpcPort_def\<close>)

lemma is_okE:
  assumes "is_ok r"
  obtains x where "r = Inr x"
  using assms by (cases r) (auto simp: is_ok_def)

text \<open>One entry of the loop: the manager and the flows after it, which \<open>addEipFlows\<close> computes.\<close>

lemma eip_loop_addEipFlows:
  "eip_loop env vs man fs (e # es) =
   res_bind (addEipFlows env fs vs (Some \<lparr>eipId = i, eipIpAddr = eeEipIp e\<rparr>) (eeVpcId e) (eeVpcIp e) man)
     (\<lambda>(man, fs, _, _). eip_loop env (eeVpcId e # vs) man fs es)"
proof -
  have r: "res_bind (res_bind a f) g = res_bind a (\<lambda>x. res_bind (f x) g)" for a :: "'x result" and f and g :: "'y \<Rightarrow> 'z result"
    by (cases a) auto
  show ?thesis
    unfolding addEipFlows_def eip_loop.simps Let_def option.case r
    by (auto simp: r split_beta is_ok_def split: sum.split intro!: arg_cong [where f = "res_bind _"] ext)
qed

text \<open>The flows for the entries whose port is known.\<close>

definition entry_specs :: "eip_env \<Rightarrow> string \<Rightarrow> eipEntry \<Rightarrow> flow_spec list" where
  "entry_specs env mac e =
     (case eeDumpPort env (eeEipBridge env) (eip_port (eeVpcId e)) of
        Inl _ \<Rightarrow> [] | Inr n \<Rightarrow> eip_flows mac n (eeVpcIp e) (eeEipIp e))"

lemma addEipFlows_spec:
  assumes "addEipFlows env fs vs (Some eip) v ip man = Inr (man', fs', vs', r)" "names_ok man"
    and "set vs \<subseteq> dom (gm_get (emVpcPnames man))"
  shows "eip_le man man' \<and> v \<in> dom (gm_get (emVpcPnames man'))"
    and "(\<And>args. is_ok (eeRunOvsctl env args)) \<Longrightarrow>
      \<exists>fs1. res_map (F (eeUnmarshal env)) (entry_specs env (emMac man) \<lparr>eeVpcId = v, eeVpcIp = ip, eeEipIp = eipIpAddr eip\<rparr>) = Inr fs1
        \<and> fs' = fs @ fs1"
proof -
  obtain man1 r1 where e: "(if v \<notin> set vs then ensureEipBridgeVpcPort env v man else Inr (man, Inr ())) = Inr (man1, r1)"
    and k: "(case r1 of
                 Inl e \<Rightarrow> Inr (man1, fs, if v \<notin> set vs then v # vs else vs, Inl e)
               | Inr _ \<Rightarrow>
                   res_bind (eip_pnamePair v man1) (\<lambda>(man, mine, _).
                     case eeDumpPort env (eeEipBridge env) mine of
                       Inl e \<Rightarrow> Inr (man, fs, if v \<notin> set vs then v # vs else vs, Inl e)
                     | Inr pnoMine \<Rightarrow>
                         res_bind (res_map (F (eeUnmarshal env)) (eip_flows (emMac man) pnoMine ip (eipIpAddr eip))) (\<lambda>fs1.
                           Inr (eip_emit [EipRouteAdd (eipIpAddr eip) ''255.255.255.255'' ''''] man,
                                fs @ fs1, if v \<notin> set vs then v # vs else vs, Inr ())))) = Inr (man', fs', vs', r)"
    using assms(1) unfolding addEipFlows_def option.case Let_def prod.case res_bind_Inr_iff [where r = "if _ then _ else _"]
    by (elim exE conjE) (simp only: split_paired_all prod.case)
  have le1: "eip_le man man1" "v \<in> dom (gm_get (emVpcPnames man1))"
    using e eip_VpcPort_names [of env v man man1 r1] assms(3) by (auto split: if_splits)
  have ok1: "names_ok man1" "emMac man1 = emMac man" using le1(1) assms(2) by (simp_all add: eip_le_def)
  have "(\<exists>e. r1 = Inl e \<and> man' = man1) \<or> (\<exists>man2 mine peer. eip_pnamePair v man1 = Inr (man2, mine, peer)
      \<and> (man' = man2 \<or> (\<exists>es. man' = eip_emit es man2)))"
  proof (cases r1)
    case (Inr u)
    with k obtain man2 mine peer where p: "eip_pnamePair v man1 = Inr (man2, mine, peer)"
      by (cases "eip_pnamePair v man1") auto
    with k Inr show ?thesis
      by (cases "eeDumpPort env (eeEipBridge env) mine") (auto simp: res_bind_Inr_iff)
  qed (use k in auto)
  then show "eip_le man man' \<and> v \<in> dom (gm_get (emVpcPnames man'))"
    using le1 eip_pnamePair_names [of v man1] by (auto intro: eip_le_trans)
  assume ctl: "\<And>args. is_ok (eeRunOvsctl env args)"
  have "r1 = Inr ()"
  proof (cases "v \<in> set vs")
    case False
    with e eip_VpcPort_names [of env v man man1 r1] obtain args where "r1 = eeRunOvsctl env args" by auto
    with is_okE [OF ctl [of args]] show ?thesis by fastforce
  qed (use e in simp)
  with k obtain man2 mine peer where p: "eip_pnamePair v man1 = Inr (man2, mine, peer)"
    by (cases "eip_pnamePair v man1") auto
  have m: "mine = eip_port v" "emMac man2 = emMac man"
    using eip_pnamePair_names [OF p] ok1 by (auto simp: eip_le_def)
  show "\<exists>fs1. res_map (F (eeUnmarshal env)) (entry_specs env (emMac man) \<lparr>eeVpcId = v, eeVpcIp = ip, eeEipIp = eipIpAddr eip\<rparr>) = Inr fs1
        \<and> fs' = fs @ fs1"
    using k p m \<open>r1 = Inr ()\<close> by (auto simp: entry_specs_def res_bind_Inr_iff split: sum.splits)
qed

lemma res_map_append:
  "res_map f (xs @ ys) = res_bind (res_map f xs) (\<lambda>as. res_bind (res_map f ys) (\<lambda>bs. Inr (as @ bs)))"
proof (induction xs)
  case Nil
  show ?case by (cases "res_map f ys") auto
next
  case (Cons x xs)
  then show ?case by (cases "f x"; cases "res_map f xs"; cases "res_map f ys") auto
qed

lemma eip_loop_names:
  assumes "eip_loop env vs man fs es = Inr (man', fs')" "names_ok man" "set vs \<subseteq> dom (gm_get (emVpcPnames man))"
  shows "eip_le man man' \<and> (\<forall>e\<in>set es. eeVpcId e \<in> dom (gm_get (emVpcPnames man')))
    \<and> ((\<forall>args. is_ok (eeRunOvsctl env args)) \<longrightarrow>
       (\<exists>fs1. res_map (F (eeUnmarshal env)) (concat (map (entry_specs env (emMac man)) es)) = Inr fs1 \<and> fs' = fs @ fs1))"
  using assms
proof (induction es arbitrary: vs man fs)
  case (Cons e es)
  define eip where "eip = \<lparr>eipId = '''', eipIpAddr = eeEipIp e\<rparr>"
  from Cons.prems(1) obtain man1 fs1 vs1 r where
    a: "addEipFlows env fs vs (Some eip) (eeVpcId e) (eeVpcIp e) man = Inr (man1, fs1, vs1, r)"
    and l: "eip_loop env (eeVpcId e # vs) man1 fs1 es = Inr (man', fs')"
    unfolding eip_loop_addEipFlows [of env vs man fs e es "''''"] eip_def
    by (auto simp del: eip_loop.simps simp: res_bind_Inr_iff)
  note s = addEipFlows_spec [OF a Cons.prems(2,3)]
  have e: "\<lparr>eeVpcId = eeVpcId e, eeVpcIp = eeVpcIp e, eeEipIp = eipIpAddr eip\<rparr> = e" by (simp add: eip_def)
  have 1: "names_ok man1" "set (eeVpcId e # vs) \<subseteq> dom (gm_get (emVpcPnames man1))" "emMac man1 = emMac man"
    using s(1) Cons.prems(2,3) by (auto simp: eip_le_def)
  note ih = Cons.IH [OF l 1(1,2)]
  have "eip_le man man'" using s(1) ih eip_le_trans by blast
  moreover have "eeVpcId e \<in> dom (gm_get (emVpcPnames man'))" using s(1) ih by (auto simp: eip_le_def)
  moreover have "\<exists>fs2. res_map (F (eeUnmarshal env)) (concat (map (entry_specs env (emMac man)) (e # es))) = Inr fs2 \<and> fs' = fs @ fs2"
    if "\<forall>args. is_ok (eeRunOvsctl env args)"
    using s(2) ih that by (auto simp: e 1(3) res_map_append)
  ultimately show ?case using ih by auto
qed simp

section \<open>Flows of the elastic addresses\<close>

text \<open>The managers that the loop reaches.\<close>

definition eip_start :: "eip_env \<Rightarrow> eipMan \<times> modelSets option" where
  "eip_start env = (fst (eip_setIpMac env newEipMan), None)"

inductive eip_reach :: "eip_env set \<Rightarrow> eipMan \<Rightarrow> bool" for E where
  eip_reach_start: "env \<in> E \<Longrightarrow> eip_reach E (fst (eip_start env))"
| eip_reach_turn: "eip_reach E man \<Longrightarrow> env \<in> E \<Longrightarrow> eip_turn env inp (man, mss) = Inr (man', mss') \<Longrightarrow> eip_reach E man'"

lemma ensureEipBridge_fields:
  "emVpcPnames (fst (ensureEipBridge env man)) = emVpcPnames man" "emMac (fst (ensureEipBridge env man)) = emMac man"
  by (auto simp: ensureEipBridge_def Let_def split: sum.splits)

lemma eip_setIpMac_fields:
  "emVpcPnames (fst (eip_setIpMac env man)) = emVpcPnames man" "emMac (fst (eip_setIpMac env man)) = VpcEipGatewayMac3"
  by (simp_all add: eip_setIpMac_def ensureEipBridge_fields)

definition eip_inv :: "eipMan \<Rightarrow> bool" where
  "eip_inv man \<longleftrightarrow> names_ok man \<and> emMac man = VpcEipGatewayMac3"

lemma names_ok_cong: "emVpcPnames man' = emVpcPnames man \<Longrightarrow> names_ok man' = names_ok man"
  by (simp add: names_ok_def)

lemma eip_run_cases:
  assumes "eip_run env mss man = Inr man'"
  obtains entries drp man1 flows where "prepEipEntries mss = Inr entries" "F (eeUnmarshal env) eip_drop = Inr drp"
    "eip_loop env [] man [drp] (map snd entries) = Inr (man1, flows)"
    "man' = (if eeHasFlowMan env then eip_emit [EipFlow (eeEipBridge env) (UpdateFlowsCmd ''eipman'' flows)] man1 else man1)"
  using assms unfolding eip_run_def res_bind_Inr_iff by (elim exE conjE) (auto split: prod.splits)

lemma eip_run_inv:
  assumes "eip_run env mss man = Inr man'" "eip_inv man"
  shows "eip_inv man'"
proof -
  from assms(1) obtain entries drp man1 flows where "prepEipEntries mss = Inr entries" "F (eeUnmarshal env) eip_drop = Inr drp" and
    r: "eip_loop env [] man [drp] (map snd entries) = Inr (man1, flows)"
    "man' = (if eeHasFlowMan env then eip_emit [EipFlow (eeEipBridge env) (UpdateFlowsCmd ''eipman'' flows)] man1 else man1)"
    by (rule eip_run_cases)
  from eip_loop_names [OF r(1)] assms(2) r(2) show ?thesis by (auto simp: eip_inv_def eip_le_def)
qed

lemma eip_clean_fields:
  "emVpcPnames (eip_clean_ports env vs (eip_clean_routes env ds man)) = filter (\<lambda>(v, _). v \<in> set vs) (emVpcPnames man)"
  "emMac (eip_clean_ports env vs (eip_clean_routes env ds man)) = emMac man"
  by (simp_all add: eip_clean_ports_def eip_clean_routes_def eip_delPorts_def Let_def eip_emit_def split: option.split sum.split)

lemma names_filter:
  assumes "names_ok man"
  shows "gm_wf (filter (\<lambda>(v, _). v \<in> S) (emVpcPnames man))"
    "gm_get (filter (\<lambda>(v, _). v \<in> S) (emVpcPnames man)) v = (if v \<in> S then gm_get (emVpcPnames man) v else None)"
proof -
  have "map_of (filter (\<lambda>(v, _). v \<in> S) m) v = (if v \<in> S then map_of m v else None)" for m :: "(string \<times> string) list"
    by (induction m) auto
  then show "gm_get (filter (\<lambda>(v, _). v \<in> S) (emVpcPnames man)) v = (if v \<in> S then gm_get (emVpcPnames man) v else None)" .
  show "gm_wf (filter (\<lambda>(v, _). v \<in> S) (emVpcPnames man))"
    using assms by (simp add: names_ok_def gm_wf_def distinct_map_filter)
qed

lemma eip_cleanup_inv:
  assumes "eip_cleanup env mss man = Inr man'" "eip_inv man"
  shows "eip_inv man'"
proof -
  obtain vs ds where man': "man' = eip_clean_ports env vs (eip_clean_routes env ds man)"
    using assms(1) by (auto simp: eip_cleanup_def res_bind_Inr_iff Let_def)
  from assms(2) names_filter [of man "set vs"] show ?thesis
    by (auto simp: eip_inv_def names_ok_def man' eip_clean_fields split: if_splits)
qed

lemma eip_reach_inv: "eip_reach E man \<Longrightarrow> eip_inv man"
proof (induction rule: eip_reach.induct)
  case (eip_reach_start env)
  show ?case by (simp add: eip_start_def eip_inv_def eip_setIpMac_fields names_ok_def) (simp add: newEipMan_def)
next
  case (eip_reach_turn man env inp mss man' mss')
  show ?case
  proof (cases inp)
    case (EipModelSets d)
    with eip_reach_turn.hyps obtain man1 where "eip_run env d man = Inr man1" "eip_cleanup env d man1 = Inr man'"
      by (auto simp: eip_turn_def res_bind_Inr_iff)
    with eip_reach_turn.IH eip_run_inv eip_cleanup_inv show ?thesis by blast
  next
    case EipTick
    show ?thesis
    proof (cases mss)
      case None
      with EipTick eip_reach_turn show ?thesis by (simp add: eip_turn_def)
    next
      case (Some d)
      obtain man1 r where s: "eip_setIpMac env man = (man1, r)" by fastforce
      have 1: "eip_inv man1"
        using eip_setIpMac_fields [of env man] eip_reach_turn.IH s names_ok_cong [of man1 man] by (simp add: eip_inv_def)
      have "man' = man1 \<or> eip_run env d man1 = Inr man'"
        using EipTick Some eip_reach_turn.hyps(3) s by (cases r) (auto simp: eip_turn_def eip_refresh_def res_bind_Inr_iff)
      with 1 eip_run_inv show ?thesis by blast
    qed
  qed
qed

lemma eip_run_sends:
  assumes "eip_reach E man" "eip_run env mss man = Inr man'" "eeHasFlowMan env"
    and "\<And>args. is_ok (eeRunOvsctl env args)"
  shows "\<exists>entries fs. prepEipEntries mss = Inr entries
    \<and> res_map (F (eeUnmarshal env))
        (eip_drop # concat (map (\<lambda>e. case eeDumpPort env (eeEipBridge env) (''ev-'' @ take 10 (eeVpcId e)) of
             Inl _ \<Rightarrow> [] | Inr n \<Rightarrow> eip_flows VpcEipGatewayMac3 n (eeVpcIp e) (eeEipIp e)) (map snd entries))) = Inr fs
    \<and> last (emOut man') = EipFlow (eeEipBridge env) (UpdateFlowsCmd ''eipman'' fs)"
proof -
  have inv: "names_ok man" "emMac man = VpcEipGatewayMac3" using eip_reach_inv [OF assms(1)] by (simp_all add: eip_inv_def)
  from assms(2) obtain entries drp man1 flows where r: "prepEipEntries mss = Inr entries" "F (eeUnmarshal env) eip_drop = Inr drp"
    "eip_loop env [] man [drp] (map snd entries) = Inr (man1, flows)"
    "man' = (if eeHasFlowMan env then eip_emit [EipFlow (eeEipBridge env) (UpdateFlowsCmd ''eipman'' flows)] man1 else man1)"
    by (rule eip_run_cases)
  from eip_loop_names [OF r(3) inv(1)] assms(4) obtain fs1 where
    "res_map (F (eeUnmarshal env)) (concat (map (entry_specs env VpcEipGatewayMac3) (map snd entries))) = Inr fs1" "flows = drp # fs1"
    by (auto simp: inv(2))
  with r assms(3) show ?thesis unfolding entry_specs_def by (intro exI [of _ entries] exI [of _ flows]) simp
qed

text \<open>In every reachable state, while the switch accepts the ports, a run installs exactly the
  flows of the elastic addresses whose patch port has a number, two for the translation and one
  for the requests for the address, above one flow that drops everything else.\<close>

theorem eip_run_flows:
  assumes "eip_reach E man" "eip_run env mss man = Inr man'" "eeHasFlowMan env"
    and "\<And>args. is_ok (eeRunOvsctl env args)"
  shows "\<exists>entries fs. prepEipEntries mss = Inr entries
    \<and> res_map (F (eeUnmarshal env))
        (eip_drop # concat (map (\<lambda>e. case eeDumpPort env (eeEipBridge env) (''ev-'' @ take 10 (eeVpcId e)) of
             Inl _ \<Rightarrow> [] | Inr n \<Rightarrow> eip_flows VpcEipGatewayMac3 n (eeVpcIp e) (eeEipIp e)) (map snd entries))) = Inr fs
    \<and> last (emOut man') = EipFlow (eeEipBridge env) (UpdateFlowsCmd ''eipman'' fs)"
  by (rule eip_run_sends [OF assms])

section \<open>Cleaning up after a run\<close>

definition eip_new_out :: "eipMan \<Rightarrow> eipMan \<Rightarrow> eip_effect set" where
  "eip_new_out man man' = set (drop (length (emOut man)) (emOut man'))"

lemma eip_clean_out:
  assumes "eip_listPorts env (eeIntegrationBridge env) = Some ps'" "eip_listPorts env (eeEipBridge env) = Some ps"
    "eeListRoutes env = Inr rs"
  shows "eip_new_out man (eip_clean_ports env vs (eip_clean_routes env ds man)) =
    EipRouteDel ` {d \<in> set rs. d \<notin> set ds}
    \<union> EipPortDel (eeEipBridge env) ` {p \<in> set ps. HasPrefix p pnameEipPrefix \<and> \<not> eeIsLink env p
        \<and> p \<notin> snd ` set (filter (\<lambda>(v, _). v \<in> set vs) (emVpcPnames man))}
    \<union> EipPortDel (eeIntegrationBridge env) ` {p \<in> set ps'. HasPrefix p pnameEipPrefix \<and> \<not> eeIsLink env p
        \<and> p \<notin> (\<lambda>b. b @ pnameEipSuffix) ` snd ` set (filter (\<lambda>(v, _). v \<in> set vs) (emVpcPnames man))}"
proof -
  define m where "m = filter (\<lambda>(v, _). v \<in> set vs) (emVpcPnames man)"
  have "(\<lambda>(_, b). b @ pnameEipSuffix) ` set m = (\<lambda>b. b @ pnameEipSuffix) ` snd ` set m" by (force simp: image_image)
  then show ?thesis
    using assms unfolding eip_clean_ports_def eip_clean_routes_def eip_new_out_def eip_delPorts_def eip_emit_def Let_def
    by (simp flip: m_def) blast
qed

lemma kept_names:
  assumes "names_ok man" "set vs \<subseteq> dom (gm_get (emVpcPnames man))"
  shows "snd ` set (filter (\<lambda>(v, _). v \<in> set vs) (emVpcPnames man)) = eip_port ` set vs"
proof -
  let ?m = "filter (\<lambda>(v, _). v \<in> set vs) (emVpcPnames man)"
  note f = names_filter [OF assms(1), of "set vs"]
  have "b \<in> snd ` set ?m \<longleftrightarrow> (\<exists>v. gm_get ?m v = Some b)" for b using f(1) by (force simp: gm_wf_def)
  also have "(\<exists>v. gm_get ?m v = Some b) \<longleftrightarrow> b \<in> eip_port ` set vs" for b
    using assms by (fastforce simp: f(2) names_ok_def split: if_splits)
  finally show ?thesis by blast
qed

text \<open>C27: new data of the region are run and then cleaned up after: of the routes of the bridge exactly
  those to no elastic address and not to the gateway network are deleted, of the ports of the two
  different bridges exactly those with the prefix of patch ports that are no network links and
  belong to no VPC with an elastic address.\<close>

theorem eip_turn_exact:
  assumes "eip_reach E man" "eip_run env mss man = Inr man1" "eip_cleanup env mss man1 = Inr man2"
    and "eeEipBridge env \<noteq> eeIntegrationBridge env" "eeListRoutes env = Inr rs"
    and "eip_listPorts env (eeIntegrationBridge env) = Some ps'" "eip_listPorts env (eeEipBridge env) = Some ps"
  shows "\<exists>entries. prepEipEntries mss = Inr entries
    \<and> (\<forall>d. EipRouteDel d \<in> eip_new_out man1 man2 \<longleftrightarrow>
         d \<in> set rs \<and> d \<noteq> VpcEipGatewayCidr \<and> d \<notin> (\<lambda>e. eeEipIp e @ ''/32'') ` snd ` set entries)
    \<and> (\<forall>p. EipPortDel (eeEipBridge env) p \<in> eip_new_out man1 man2 \<longleftrightarrow>
         p \<in> set ps \<and> HasPrefix p pnameEipPrefix \<and> \<not> eeIsLink env p
         \<and> p \<notin> (\<lambda>e. ''ev-'' @ take 10 (eeVpcId e)) ` snd ` set entries)
    \<and> (\<forall>p. EipPortDel (eeIntegrationBridge env) p \<in> eip_new_out man1 man2 \<longleftrightarrow>
         p \<in> set ps' \<and> HasPrefix p pnameEipPrefix \<and> \<not> eeIsLink env p
         \<and> p \<notin> (\<lambda>e. ''ev-'' @ take 10 (eeVpcId e) @ ''-p'') ` snd ` set entries)"
proof -
  have inv: "eip_inv man" by (rule eip_reach_inv [OF assms(1)])
  from assms(2) obtain entries drp man0 flows where d: "F (eeUnmarshal env) eip_drop = Inr drp" and r: "prepEipEntries mss = Inr entries"
    "eip_loop env [] man [drp] (map snd entries) = Inr (man0, flows)"
    "man1 = (if eeHasFlowMan env then eip_emit [EipFlow (eeEipBridge env) (UpdateFlowsCmd ''eipman'' flows)] man0 else man0)"
    by (rule eip_run_cases)
  let ?vs = "map eeVpcId (map snd entries)" and ?ds = "map (\<lambda>e. eeEipIp e @ ''/32'') (map snd entries) @ [VpcEipGatewayCidr]"
  have man2: "man2 = eip_clean_ports env ?vs (eip_clean_routes env ?ds man1)"
    using assms(3) r(1) by (simp add: eip_cleanup_def Let_def)
  have "names_ok man1" "set ?vs \<subseteq> dom (gm_get (emVpcPnames man1))"
    using eip_loop_names [OF r(2)] inv by (auto simp: r(3) eip_inv_def eip_le_def)
  note k = kept_names [OF this]
  have "eip_new_out man1 man2 = EipRouteDel ` {d \<in> set rs. d \<notin> set ?ds}
    \<union> EipPortDel (eeEipBridge env) ` {p \<in> set ps. HasPrefix p pnameEipPrefix \<and> \<not> eeIsLink env p \<and> p \<notin> eip_port ` set ?vs}
    \<union> EipPortDel (eeIntegrationBridge env) ` {p \<in> set ps'. HasPrefix p pnameEipPrefix \<and> \<not> eeIsLink env p
        \<and> p \<notin> (\<lambda>b. b @ pnameEipSuffix) ` eip_port ` set ?vs}"
    unfolding man2 eip_clean_out [OF assms(6,7,5)] k by (rule refl)
  with r(1) assms(4) show ?thesis
    by (intro exI [of _ entries]) (auto simp: image_iff pnameEipSuffix_def)
qed

text \<open>An elastic address of a guest.\<close>

definition demo_eip_env :: eip_env where
  "demo_eip_env = \<lparr>eeEipBridge = ''breip'', eeIntegrationBridge = ''brvpc'', eeOverlayMTU = 1442,
     eeRunOvsctl = (\<lambda>_. Inr ()), eeLinkUp = Inr (), eeAddrExact = (\<lambda>_. Inr ()), eeDumpPort = (\<lambda>_ _. Inr 3),
     eeListRoutes = Inr [''100.64.128.0/17'', ''120.0.0.9/32'', ''120.0.0.10/32''],
     eeListPorts = (\<lambda>_. Inr [''ev-01234567-8'', ''ev-ffffffff-0'', ''ev-01234567-8-p'']), eeIsLink = (\<lambda>_. False),
     eeHasFlowMan = True, eeUnmarshal = (\<lambda>_. Inr (ex_flow 0))\<rparr>"

definition demo_mss :: modelSets where
  "demo_mss = \<lparr>msGuestnetworks = [\<lparr>enElasticip = Some \<lparr>eipId = ''e1'', eipIpAddr = ''120.0.0.9''\<rparr>,
     enVpcId = Some ''01234567-89ab'', enIpAddr = ''192.168.0.5''\<rparr>], msGroupnetworks = [], msLoadbalancerNetworks = []\<rparr>"

definition demo_eip_start :: eipMan where
  "demo_eip_start = fst (eip_start demo_eip_env)"

definition demo_eip_run :: "eipMan result" where
  "demo_eip_run = eip_run demo_eip_env demo_mss demo_eip_start"

lemma demo_eip_runs:
  "eip_reach {demo_eip_env} demo_eip_start" "is_ok demo_eip_run"
  "is_ok (res_bind demo_eip_run (eip_cleanup demo_eip_env demo_mss))"
  "prepEipEntries demo_mss = Inr [(''e1'', \<lparr>eeVpcId = ''01234567-89ab'', eeVpcIp = ''192.168.0.5'', eeEipIp = ''120.0.0.9''\<rparr>)]"
  unfolding demo_eip_start_def by (rule eip_reach_start, simp) code_simp+

theorem eip_run_flows_witness:
  "\<exists>man fs. demo_eip_run = Inr man \<and> last (emOut man) = EipFlow ''breip'' (UpdateFlowsCmd ''eipman'' fs) \<and> length fs = 4"
proof -
  obtain man where man: "demo_eip_run = Inr man" using is_okE [OF demo_eip_runs(2)] by blast
  have e: "eeHasFlowMan demo_eip_env" "\<And>args. is_ok (eeRunOvsctl demo_eip_env args)" "eeEipBridge demo_eip_env = ''breip''"
    by (simp_all add: demo_eip_env_def)
  obtain entries fs where en: "prepEipEntries demo_mss = Inr entries" and
    fs: "res_map (F (eeUnmarshal demo_eip_env))
        (eip_drop # concat (map (\<lambda>e. case eeDumpPort demo_eip_env (eeEipBridge demo_eip_env) (''ev-'' @ take 10 (eeVpcId e)) of
             Inl _ \<Rightarrow> [] | Inr n \<Rightarrow> eip_flows VpcEipGatewayMac3 n (eeVpcIp e) (eeEipIp e)) (map snd entries))) = Inr fs"
      "last (emOut man) = EipFlow (eeEipBridge demo_eip_env) (UpdateFlowsCmd ''eipman'' fs)"
    using eip_run_flows [OF demo_eip_runs(1) man [unfolded demo_eip_run_def] e(1,2)] by blast
  have "entries = [(''e1'', \<lparr>eeVpcId = ''01234567-89ab'', eeVpcIp = ''192.168.0.5'', eeEipIp = ''120.0.0.9''\<rparr>)]"
    using en demo_eip_runs(4) by (metis sum.inject(2))
  with fs(1) have "length fs = 4" by (auto simp: demo_eip_env_def eip_flows_def F_def)
  with man fs(2) e(3) show ?thesis by auto
qed

theorem eip_turn_exact_witness:
  "\<exists>man1 man2. demo_eip_run = Inr man1 \<and> eip_cleanup demo_eip_env demo_mss man1 = Inr man2
   \<and> EipRouteDel ''120.0.0.10/32'' \<in> eip_new_out man1 man2 \<and> EipRouteDel ''120.0.0.9/32'' \<notin> eip_new_out man1 man2"
proof -
  obtain man1 where 1: "demo_eip_run = Inr man1" using is_okE [OF demo_eip_runs(2)] by blast
  then obtain man2 where 2: "eip_cleanup demo_eip_env demo_mss man1 = Inr man2"
    using is_okE [OF demo_eip_runs(3)] unfolding 1 res_bind.simps by blast
  have e: "eeEipBridge demo_eip_env \<noteq> eeIntegrationBridge demo_eip_env"
    "eeListRoutes demo_eip_env = Inr [''100.64.128.0/17'', ''120.0.0.9/32'', ''120.0.0.10/32'']"
    "eip_listPorts demo_eip_env (eeIntegrationBridge demo_eip_env) = Some [''ev-01234567-8'', ''ev-ffffffff-0'', ''ev-01234567-8-p'']"
    "eip_listPorts demo_eip_env (eeEipBridge demo_eip_env) = Some [''ev-01234567-8'', ''ev-ffffffff-0'', ''ev-01234567-8-p'']"
    by (simp_all add: demo_eip_env_def eip_listPorts_def)
  show ?thesis
    using eip_turn_exact [OF demo_eip_runs(1) 1 [unfolded demo_eip_run_def] 2 e] 1 2
    by (auto simp: demo_eip_runs(4) VpcEipGatewayCidr_def)
qed

section \<open>The answers to requests for an address\<close>

text \<open>The effect of move and load actions on the fields of a packet, a map from field names to values,
  from left to right; other actions leave the fields alone.\<close>

definition arrow :: "string \<Rightarrow> string \<times> string" where
  "arrow t = (takeWhile (\<lambda>c. c \<noteq> CHR ''-'') t, drop 2 (dropWhile (\<lambda>c. c \<noteq> CHR ''-'') t))"

definition arp_act :: "string \<Rightarrow> (string \<Rightarrow> string) \<Rightarrow> string \<Rightarrow> string" where
  "arp_act a pkt =
     (let (x, y) = arrow (drop 5 a)
      in if HasPrefix a ''move:'' then pkt(y := pkt x) else if HasPrefix a ''load:'' then pkt(y := x) else pkt)"

definition arp_answer :: "string \<Rightarrow> (string \<Rightarrow> string) \<Rightarrow> string \<Rightarrow> string" where
  "arp_answer acts pkt = fold arp_act (split_on (CHR '','') acts) pkt"

definition move_text :: "string \<Rightarrow> string \<Rightarrow> string" where
  "move_text x y = ''move:'' @ x @ ''->'' @ y"

definition load_text :: "string \<Rightarrow> string \<Rightarrow> string" where
  "load_text x y = ''load:'' @ x @ ''->'' @ y"

lemma arp_act_simps:
  "CHR ''-'' \<notin> set x \<Longrightarrow> arp_act (move_text x y) pkt = pkt(y := pkt x)"
  "CHR ''-'' \<notin> set x \<Longrightarrow> arp_act (load_text x y) pkt = pkt(y := x)"
  "arp_act ''in_port'' pkt = pkt"
proof -
  have a: "arrow (x @ ''->'' @ y) = (x, y)" if "CHR ''-'' \<notin> set x"
  proof -
    have "takeWhile (\<lambda>c. c \<noteq> CHR ''-'') (x @ ''->'' @ y) = x" "dropWhile (\<lambda>c. c \<noteq> CHR ''-'') (x @ ''->'' @ y) = ''->'' @ y"
      using that by (induction x) auto
    then show ?thesis by (simp add: arrow_def)
  qed
  show "CHR ''-'' \<notin> set x \<Longrightarrow> arp_act (move_text x y) pkt = pkt(y := pkt x)"
    "CHR ''-'' \<notin> set x \<Longrightarrow> arp_act (load_text x y) pkt = pkt(y := x)"
    using a by (simp_all add: arp_act_def HasPrefix_def move_text_def load_text_def)
  show "arp_act ''in_port'' pkt = pkt" by (simp add: arp_act_def HasPrefix_def arrow_def)
qed

definition arp_list :: "string \<Rightarrow> string \<Rightarrow> string list" where
  "arp_list ethMac arpMac =
     [move_text ''NXM_OF_ETH_SRC[]'' ''NXM_OF_ETH_DST[]'',
      load_text ethMac ''NXM_OF_ETH_SRC[]'',
      load_text ''0x2'' ''NXM_OF_ARP_OP[]'',
      load_text arpMac ''NXM_NX_ARP_SHA[]'',
      move_text ''NXM_OF_ARP_TPA[]'' ''NXM_OF_ARP_SPA[]'',
      move_text ''NXM_NX_ARP_SHA[]'' ''NXM_NX_ARP_THA[]'',
      move_text ''NXM_OF_ARP_SPA[]'' ''NXM_OF_ARP_TPA[]'',
      ''in_port'']"

lemma arp_lists:
  "FakeArpRespActions mac = join '','' (arp_list (hexMac mac) (hexMac mac))"
  "arpactions mac = arp_list (hexMac mac) (hexMac VpcEipGatewayMac)"
  by (simp_all add: FakeArpRespActions_def arpactions_def arp_list_def hexMac_def move_text_def load_text_def)

lemma arp_list_answer:
  assumes "set ethMac \<inter> {CHR ''-'', CHR '',''} = {}" "set arpMac \<inter> {CHR ''-'', CHR '',''} = {}"
  shows "arp_answer (join '','' (arp_list ethMac arpMac)) q =
    q(''NXM_OF_ETH_DST[]'' := q ''NXM_OF_ETH_SRC[]'', ''NXM_OF_ETH_SRC[]'' := ethMac, ''NXM_OF_ARP_OP[]'' := ''0x2'',
      ''NXM_NX_ARP_SHA[]'' := arpMac, ''NXM_OF_ARP_SPA[]'' := q ''NXM_OF_ARP_TPA[]'',
      ''NXM_NX_ARP_THA[]'' := arpMac, ''NXM_OF_ARP_TPA[]'' := q ''NXM_OF_ARP_TPA[]'')"
proof -
  have "split_on (CHR '','') (join '','' (arp_list ethMac arpMac)) = arp_list ethMac arpMac"
    by (rule split_join) (use assms in \<open>auto simp: arp_list_def move_text_def load_text_def\<close>)
  moreover have "CHR ''-'' \<notin> set ethMac" "CHR ''-'' \<notin> set arpMac" using assms by auto
  ultimately show ?thesis
    by (simp only: arp_answer_def) (simp add: arp_list_def arp_act_simps fun_upd_twist)
qed

lemma hexMac_chars: "set (hexMac mac) \<subseteq> {CHR ''0'', CHR ''x''} \<union> set mac"
  by (auto simp: hexMac_def dest: set_dropWhileD)

text \<open>Both programs that answer requests for an address, that of the metadata and mapped
  addresses and that of the elastic addresses, send the answer to the asking station and name the
  asked address and a hardware address of the responder as its sender; but as the sender fields
  are written before they are copied, the target fields name the responder too, not the station
  that asked.\<close>

theorem arp_answer_fields:
  assumes "CHR ''-'' \<notin> set mac" "CHR '','' \<notin> set mac"
    and "r = arp_answer (FakeArpRespActions mac) q \<and> sha = hexMac mac
      \<or> r = arp_answer (join '','' (arpactions mac)) q \<and> sha = hexMac VpcEipGatewayMac"
  shows "r ''NXM_OF_ETH_DST[]'' = q ''NXM_OF_ETH_SRC[]'' \<and> r ''NXM_OF_ETH_SRC[]'' = hexMac mac
    \<and> r ''NXM_OF_ARP_OP[]'' = ''0x2''
    \<and> r ''NXM_NX_ARP_SHA[]'' = sha \<and> r ''NXM_OF_ARP_SPA[]'' = q ''NXM_OF_ARP_TPA[]''
    \<and> r ''NXM_NX_ARP_THA[]'' = sha \<and> r ''NXM_OF_ARP_TPA[]'' = q ''NXM_OF_ARP_TPA[]''"
proof -
  have m: "set (hexMac mac) \<inter> {CHR ''-'', CHR '',''} = {}"
    "set (hexMac VpcEipGatewayMac) \<inter> {CHR ''-'', CHR '',''} = {}"
    using assms(1,2) hexMac_chars [of mac] hexMac_chars [of VpcEipGatewayMac] by (auto simp: VpcEipGatewayMac_def)
  from assms(3) show ?thesis
    unfolding arp_lists using arp_list_answer [OF m(1) m(1)] arp_list_answer [OF m(1) m(2)] by auto
qed

theorem arp_answer_fields_witness:
  "arp_answer (FakeArpRespActions ''00:22:00:00:00:01'') (\<lambda>f. f) ''NXM_NX_ARP_THA[]'' = ''0x2200000001''
   \<and> arp_answer (join '','' (arpactions VpcEipGatewayMac3)) (\<lambda>f. f) ''NXM_NX_ARP_THA[]'' = ''0xeeeeeeeeeeef''"
  using arp_answer_fields [of "''00:22:00:00:00:01''" "arp_answer (FakeArpRespActions ''00:22:00:00:00:01'') (\<lambda>f. f)"
      "\<lambda>f. f" "hexMac ''00:22:00:00:00:01''"]
    arp_answer_fields [of VpcEipGatewayMac3 "arp_answer (join '','' (arpactions VpcEipGatewayMac3)) (\<lambda>f. f)"
      "\<lambda>f. f" "hexMac VpcEipGatewayMac"]
  by (simp add: hexMac_def VpcEipGatewayMac_def VpcEipGatewayMac3_def)

end
