(* ===== verification/TapMan.thy ===== *)
theory TapMan
  imports FlowSource FlowMan
begin

text \<open>
  The manager of taps and mirrors, \<open>pkg/agent/server/tap.go\<close>: the ports of the tap bridge, the flows
  between them, and the mirrors of the other bridges with their ports.

  The switch is a parameter: \<open>'s\<close> is its state and the fields of \<open>tap_env\<close> are the commands and queries
  the manager uses, so that a query after a command sees what the command did.  An error ends the
  operation that meets it; it keeps its cause, without the words that the callers put in front.
\<close>

section \<open>JSON\<close>

text \<open>The values of the JSON library.  The text of a composite value is a parameter.\<close>

datatype json = JNull | JScalar string | JString string | JArray "json list" | JDict "(string \<times> json) list"

definition GetString :: "(json \<Rightarrow> string) \<Rightarrow> json \<Rightarrow> string" where
  "GetString text j = (case j of JString s \<Rightarrow> s | JScalar s \<Rightarrow> s | _ \<Rightarrow> text j)"

definition GetArray :: "json \<Rightarrow> json list result" where
  "GetArray j = (case j of
     JArray js \<Rightarrow> Inr js | JString _ \<Rightarrow> Inr [j] | JScalar _ \<Rightarrow> Inr [j]
   | JNull \<Rightarrow> Inl (Err ''unsupported'') | JDict _ \<Rightarrow> Inl (Err ''not an array''))"

definition GetArray_key :: "string \<Rightarrow> json \<Rightarrow> json list result" where
  "GetArray_key k j = (case j of
     JDict kvs \<Rightarrow> (case map_of kvs k of None \<Rightarrow> Inl (Err ''key not found'') | Some v \<Rightarrow> GetArray v)
   | _ \<Rightarrow> Inl (Err ''not a dict''))"

text \<open>An array whose error is ignored is empty.\<close>

definition GetArray_or_nil :: "json \<Rightarrow> json list" where
  "GetArray_or_nil j = (case GetArray j of Inl _ \<Rightarrow> [] | Inr js \<Rightarrow> js)"

section \<open>The tables of the switch\<close>

record sMirrorConfig =
  smMirror :: string
  smBridge :: string
  smOutput :: string

definition fetchValue :: "(json \<Rightarrow> string) \<Rightarrow> json \<Rightarrow> string" where
  "fetchValue text arr =
     (let idList = GetArray_or_nil arr
      in if length idList > 1 \<and> GetString text (idList ! 0) = ''uuid'' then GetString text (idList ! 1) else '''')"

fun fetchPortNameId_rows :: "(json \<Rightarrow> string) \<Rightarrow> (string, string) gomap \<Rightarrow> json list \<Rightarrow> (string, string) gomap result" where
  "fetchPortNameId_rows text ret [] = Inr ret"
| "fetchPortNameId_rows text ret (row # rows) =
     res_bind (GetArray row) (\<lambda>data.
       fetchPortNameId_rows text
         (if length data > 1 then gm_set ret (GetString text (data ! 0)) (fetchValue text (data ! 1)) else ret) rows)"

definition fetchPortNameIdMapInternal :: "(json \<Rightarrow> string) \<Rightarrow> json \<Rightarrow> (string, string) gomap result" where
  "fetchPortNameIdMapInternal text j = res_bind (GetArray_key ''data'' j) (fetchPortNameId_rows text [])"

text \<open>The third column is read as soon as there are two: a row of two columns panics.\<close>

fun fetchMirrorNameId_rows ::
  "(json \<Rightarrow> string) \<Rightarrow> (string, sMirrorConfig) gomap \<Rightarrow> json list \<Rightarrow> (string, sMirrorConfig) gomap result" where
  "fetchMirrorNameId_rows text ret [] = Inr ret"
| "fetchMirrorNameId_rows text ret (row # rows) =
     res_bind (GetArray row) (\<lambda>data.
       if length data > 1 then
         if length data > 2 then
           fetchMirrorNameId_rows text (gm_set ret (GetString text (data ! 0))
             \<lparr>smMirror = fetchValue text (data ! 1), smBridge = '''', smOutput = fetchValue text (data ! 2)\<rparr>) rows
         else Inl (Panic ''index out of range'')
       else fetchMirrorNameId_rows text ret rows)"

definition fetchMirrorNameIdMapInternal :: "(json \<Rightarrow> string) \<Rightarrow> json \<Rightarrow> (string, sMirrorConfig) gomap result" where
  "fetchMirrorNameIdMapInternal text j = res_bind (GetArray_key ''data'' j) (fetchMirrorNameId_rows text [])"

text \<open>The uuids of a set of mirrors: an element with fewer than two entries panics.\<close>

fun set_mirrors :: "(json \<Rightarrow> string) \<Rightarrow> string \<Rightarrow> (string, string) gomap \<Rightarrow> json list \<Rightarrow> (string, string) gomap result" where
  "set_mirrors text brName ret [] = Inr ret"
| "set_mirrors text brName ret (m # ms) =
     (let l = GetArray_or_nil m
      in if length l > 1 then set_mirrors text brName (gm_set ret (GetString text (l ! 1)) brName) ms
         else Inl (Panic ''index out of range''))"

definition bridge_mirrors :: "(json \<Rightarrow> string) \<Rightarrow> string \<Rightarrow> (string, string) gomap \<Rightarrow> json list \<Rightarrow> (string, string) gomap result" where
  "bridge_mirrors text brName ret mirrorsList =
     (if length mirrorsList > 1 then
        let key = GetString text (mirrorsList ! 0)
        in if key = ''uuid'' then Inr (gm_set ret (GetString text (mirrorsList ! 1)) brName)
           else if key = ''set'' then set_mirrors text brName ret (GetArray_or_nil (mirrorsList ! 1))
           else Inr ret
      else Inr ret)"

fun fetchMirrorIdBridge_rows :: "(json \<Rightarrow> string) \<Rightarrow> (string, string) gomap \<Rightarrow> json list \<Rightarrow> (string, string) gomap result" where
  "fetchMirrorIdBridge_rows text ret [] = Inr ret"
| "fetchMirrorIdBridge_rows text ret (row # rows) =
     res_bind (GetArray row) (\<lambda>data.
       if length data > 1 then
         res_bind (GetArray (data ! 1)) (\<lambda>mirrorsList.
           res_bind (bridge_mirrors text (GetString text (data ! 0)) ret mirrorsList) (\<lambda>ret.
             fetchMirrorIdBridge_rows text ret rows))
       else fetchMirrorIdBridge_rows text ret rows)"

definition fetchMirrorIdBridgeMapInternal :: "(json \<Rightarrow> string) \<Rightarrow> json \<Rightarrow> (string, string) gomap result" where
  "fetchMirrorIdBridgeMapInternal text j = res_bind (GetArray_key ''data'' j) (fetchMirrorIdBridge_rows text [])"

section \<open>Configuration\<close>

record mirrorConfig =
  mcTapHostIp :: string
  mcHostIp :: string
  mcPort :: string
  mcBridge :: string
  mcFlowId :: "16 word"
  mcVlanId :: int
  mcDirection :: string

record tapServiceConfig =
  tcTapHostIp :: string
  tcMacAddr :: string
  tcIfname :: string
  tcMirrors :: "mirrorConfig list"

record hostTapConfig =
  htTaps :: "tapServiceConfig list"
  htMirrors :: "mirrorConfig list"

text \<open>The switch, the network cards of the host, the sources of the configuration and the libraries.\<close>

record 's tap_env =
  teTapBridge :: string
  teVpcBridge :: string
  teHostId :: string
  teLinkUp :: "unit result"
  teNics :: "(string \<times> string) list result"
  teTapFile :: "string result option"
  teApiConfig :: "json result"
  teParse :: "string \<Rightarrow> json result"
  teJsonText :: "json \<Rightarrow> string"
  teUnmarshalConfig :: "json \<Rightarrow> hostTapConfig result"
  teExec :: "string list \<Rightarrow> 's \<Rightarrow> 's \<times> unit result"
  teOutput :: "string list \<Rightarrow> 's \<Rightarrow> string result"
  tePortToBridge :: "string \<Rightarrow> 's \<Rightarrow> string result"
  teDeletePort :: "string \<Rightarrow> string \<Rightarrow> 's \<Rightarrow> 's \<times> unit result"
  teListPorts :: "string \<Rightarrow> 's \<Rightarrow> string list result"
  teDumpPort :: "string \<Rightarrow> string \<Rightarrow> 's \<Rightarrow> int result"
  teUnmarshal :: "string \<Rightarrow> flow result"
  teHasFlowMan :: bool

section \<open>Names and arguments\<close>

definition LocalTapPrefix :: string where "LocalTapPrefix = ''t-loc''"
definition LocalMirrorPrefix :: string where "LocalMirrorPrefix = ''m-loc''"
definition RemoteTapPrefix :: string where "RemoteTapPrefix = ''t-gre''"
definition RemoteMirrorPrefix :: string where "RemoteMirrorPrefix = ''m-gre''"

text \<open>The verbs \<open>%04x\<close> and \<open>%x\<close>.\<close>

definition hex :: "16 word \<Rightarrow> string" where
  "hex w = show_base 16 (uint w)"

definition hex4 :: "16 word \<Rightarrow> string" where
  "hex4 w = replicate (4 - length (hex w)) (CHR ''0'') @ hex w"

definition newTapMirror :: "string \<Rightarrow> mirrorConfig \<Rightarrow> mirrorConfig" where
  "newTapMirror vpcBridge m = (if mcBridge m = ''__vpc_bridge__'' then m\<lparr>mcBridge := vpcBridge\<rparr> else m)"

definition svc_newTapMirror :: "string \<Rightarrow> tapServiceConfig \<Rightarrow> mirrorConfig \<Rightarrow> mirrorConfig" where
  "svc_newTapMirror vpcBridge s m = (newTapMirror vpcBridge m)\<lparr>mcTapHostIp := tcTapHostIp s\<rparr>"

definition mirrorPort :: "mirrorConfig \<Rightarrow> string" where
  "mirrorPort m = (if mcTapHostIp m = mcHostIp m then LocalMirrorPrefix else RemoteMirrorPrefix) @ hex4 (mcFlowId m)"

definition tapPort :: "mirrorConfig \<Rightarrow> string" where
  "tapPort m = (if mcTapHostIp m = mcHostIp m then LocalTapPrefix else RemoteTapPrefix) @ hex4 (mcFlowId m)"

definition mirrorName :: "mirrorConfig \<Rightarrow> string" where
  "mirrorName m = ''m'' @ hex4 (mcFlowId m)"

definition destPortArgs :: "string \<Rightarrow> mirrorConfig \<Rightarrow> string list" where
  "destPortArgs tapBridge m =
     [''ovs-vsctl'', ''--'', ''add-port'', tapBridge, tapPort m, ''--'', ''set'', ''interface'', tapPort m]
     @ (if mcTapHostIp m = mcHostIp m
        then [''type=patch'', ''options:peer='' @ mirrorPort m]
        else [''type=gre'', ''options:key=0x'' @ hex (mcFlowId m), ''options:remote_ip='' @ mcHostIp m])"

definition mirrorPortArgs :: "mirrorConfig \<Rightarrow> string list" where
  "mirrorPortArgs m =
     [''ovs-vsctl'', ''--'', ''add-port'', mcBridge m, mirrorPort m, ''--'', ''set'', ''interface'', mirrorPort m]
     @ (if mcTapHostIp m = mcHostIp m
        then [''type=patch'', ''options:peer='' @ tapPort m]
        else [''type=gre'', ''options:key=0x'' @ hex (mcFlowId m), ''options:remote_ip='' @ mcTapHostIp m])"

definition mirrorArgs :: "mirrorConfig \<Rightarrow> string list" where
  "mirrorArgs m =
     [''ovs-vsctl'', ''--'', ''--id=@'' @ mirrorPort m, ''get'', ''Port'', mirrorPort m]
     @ (if length (mcPort m) > 0 then [''--'', ''--id=@'' @ mcPort m, ''get'', ''Port'', mcPort m] else [])
     @ [''--'', ''--id=@m'', ''create'', ''Mirror'', ''name='' @ mirrorName m, ''output-port=@'' @ mirrorPort m]
     @ (if length (mcPort m) = 0
        then ''select_all=true'' # (if mcVlanId m > 0 then [''select_vlan='' @ show_int (mcVlanId m)] else [])
        else (if mcDirection m = ''IN'' \<or> mcDirection m = ''BOTH'' then [''select_dst_port=@'' @ mcPort m] else [])
             @ (if mcDirection m = ''OUT'' \<or> mcDirection m = ''BOTH'' then [''select_src_port=@'' @ mcPort m] else []))
     @ [''--'', ''add'', ''Bridge'', mcBridge m, ''mirrors'', ''@m'']"

definition removeMirrorArgs :: "string \<Rightarrow> string \<Rightarrow> string list" where
  "removeMirrorArgs m br =
     [''ovs-vsctl'', ''--'', ''--id=@m'', ''get'', ''Mirror'', m, ''--'', ''remove'', ''Bridge'', br, ''mirrors'', ''@m'']"

section \<open>Services\<close>

definition findDevByMac :: "(string \<times> string) list result \<Rightarrow> string \<Rightarrow> string result" where
  "findDevByMac nics macAddr =
     res_bind nics (\<lambda>nics. case find (\<lambda>(mac, _). mac = macAddr) nics of
       Some (_, dev) \<Rightarrow> Inr dev | None \<Rightarrow> Inl (Err (''no such mac '' @ macAddr)))"

definition isGuest :: "'s tap_env \<Rightarrow> tapServiceConfig \<Rightarrow> bool" where
  "isGuest env s \<longleftrightarrow> \<not> is_ok (findDevByMac (teNics env) (tcMacAddr s))"

text \<open>\<open>ports\<close> also fills in the name of a physical port.\<close>

definition svc_ports :: "'s tap_env \<Rightarrow> tapServiceConfig \<Rightarrow> (tapServiceConfig \<times> string list) result" where
  "svc_ports env s =
     res_bind (if tcIfname s = '''' then findDevByMac (teNics env) (tcMacAddr s) else Inr (tcIfname s)) (\<lambda>dev.
       Inr (s\<lparr>tcIfname := dev\<rparr>, dev # map (\<lambda>m. tapPort (svc_newTapMirror (teVpcBridge env) s m)) (tcMirrors s)))"

text \<open>A port that is not on the bridge is taken off the bridge it is on, if it is on one.  The flag says
  whether it is to be added.\<close>

definition release :: "'s tap_env \<Rightarrow> string \<Rightarrow> string \<Rightarrow> 's \<Rightarrow> 's \<times> bool" where
  "release env br p sw =
     (case tePortToBridge env p sw of
        Inl _ \<Rightarrow> (sw, True)
      | Inr br' \<Rightarrow> if br' \<noteq> br then (fst (teDeletePort env br' p sw), True) else (sw, False))"

fun mirrors_args :: "'s tap_env \<Rightarrow> tapServiceConfig \<Rightarrow> mirrorConfig list \<Rightarrow> 's \<Rightarrow> 's \<times> string list list" where
  "mirrors_args env s [] sw = (sw, [])"
| "mirrors_args env s (m # ms) sw =
     (let tm = svc_newTapMirror (teVpcBridge env) s m;
          (sw, need) = release env (teTapBridge env) (tapPort tm) sw;
          (sw, ret) = mirrors_args env s ms sw
      in (sw, (if need then [destPortArgs (teTapBridge env) tm] else []) @ ret))"

definition portsArgs :: "'s tap_env \<Rightarrow> tapServiceConfig \<Rightarrow> 's \<Rightarrow> 's \<times> string list list" where
  "portsArgs env s sw =
     (let (sw, need) = release env (teTapBridge env) (tcIfname s) sw;
          (sw, ret) = mirrors_args env s (tcMirrors s) sw
      in (sw, (if need then [[''ovs-vsctl'', ''--'', ''--may-exist'', ''add-port'', teTapBridge env, tcIfname s]] else [])
              @ ret))"

definition mirror_flow :: "'s tap_env \<Rightarrow> int \<Rightarrow> 's \<Rightarrow> mirrorConfig \<Rightarrow> flow result" where
  "mirror_flow env tapNo sw m =
     res_bind (teDumpPort env (teTapBridge env) (tapPort m) sw) (\<lambda>mNo.
       F (teUnmarshal env) (fl 0 500 (''in_port='' @ show_int mNo) (''output:'' @ show_int tapNo)))"

definition svc_flows :: "'s tap_env \<Rightarrow> tapServiceConfig \<Rightarrow> 's \<Rightarrow> flow list result" where
  "svc_flows env s sw =
     res_bind (teDumpPort env (teTapBridge env) (tcIfname s) sw) (\<lambda>tapNo.
       res_map (\<lambda>m. mirror_flow env tapNo sw (svc_newTapMirror (teVpcBridge env) s m)) (tcMirrors s))"

fun exec_all :: "'s tap_env \<Rightarrow> string list list \<Rightarrow> 's \<Rightarrow> 's \<times> unit result" where
  "exec_all env [] sw = (sw, Inr ())"
| "exec_all env (args # argss) sw =
     (case teExec env args sw of (sw, Inl e) \<Rightarrow> (sw, Inl e) | (sw, Inr _) \<Rightarrow> exec_all env argss sw)"

section \<open>Synchronising\<close>

text \<open>The ports of the tap bridge and the flows between them.\<close>

fun tap_loop ::
  "'s tap_env \<Rightarrow> tapServiceConfig list \<Rightarrow> flow list \<Rightarrow> string list \<Rightarrow> 's \<Rightarrow> 's \<times> (flow list \<times> string list) result" where
  "tap_loop env [] tapFlows allPorts sw = (sw, Inr (tapFlows, allPorts))"
| "tap_loop env (st # taps) tapFlows allPorts sw =
     (if isGuest env st \<and> \<not> is_ok (tePortToBridge env (tcIfname st) sw)
      then tap_loop env taps tapFlows allPorts sw
      else case svc_ports env st of
             Inl e \<Rightarrow> (sw, Inl e)
           | Inr (st, ports) \<Rightarrow>
               let (sw, allArgs) = portsArgs env st sw
               in case exec_all env allArgs sw of
                    (sw, Inl e) \<Rightarrow> (sw, Inl e)
                  | (sw, Inr _) \<Rightarrow>
                      (case svc_flows env st sw of
                         Inl e \<Rightarrow> (sw, Inl e)
                       | Inr flows \<Rightarrow> tap_loop env taps (tapFlows @ flows) (allPorts @ ports) sw))"

fun delete_ports :: "'s tap_env \<Rightarrow> string \<Rightarrow> string list \<Rightarrow> 's \<Rightarrow> 's \<times> unit result" where
  "delete_ports env br [] sw = (sw, Inr ())"
| "delete_ports env br (p # ps) sw =
     (case teDeletePort env br p sw of (sw, Inl e) \<Rightarrow> (sw, Inl e) | (sw, Inr _) \<Rightarrow> delete_ports env br ps sw)"

definition query :: "'s tap_env \<Rightarrow> string list \<Rightarrow> 's \<Rightarrow> json result" where
  "query env args sw = res_bind (teOutput env args sw) (teParse env)"

definition fetchPortNameIdMap :: "'s tap_env \<Rightarrow> 's \<Rightarrow> (string, string) gomap result" where
  "fetchPortNameIdMap env sw =
     res_bind (query env [''ovs-vsctl'', ''--format=json'', ''--columns=name,_uuid'', ''list'', ''Port''] sw)
       (fetchPortNameIdMapInternal (teJsonText env))"

definition fetchMirrorNameIdMap :: "'s tap_env \<Rightarrow> 's \<Rightarrow> (string, sMirrorConfig) gomap result" where
  "fetchMirrorNameIdMap env sw =
     res_bind (query env [''ovs-vsctl'', ''--format=json'', ''--columns=name,_uuid,output_port'', ''list'', ''Mirror''] sw)
       (fetchMirrorNameIdMapInternal (teJsonText env))"

definition fetchMirrorIdBridgeMap :: "'s tap_env \<Rightarrow> 's \<Rightarrow> (string, string) gomap result" where
  "fetchMirrorIdBridgeMap env sw =
     res_bind (query env [''ovs-vsctl'', ''--format=json'', ''--columns=name,mirrors'', ''list'', ''Bridge''] sw)
       (fetchMirrorIdBridgeMapInternal (teJsonText env))"

text \<open>A key that is missing from a map of strings reads as the empty string.\<close>

definition fetchMirrorList :: "'s tap_env \<Rightarrow> 's \<Rightarrow> (string, sMirrorConfig) gomap result" where
  "fetchMirrorList env sw =
     res_bind (fetchMirrorNameIdMap env sw) (\<lambda>mirrorNameIdMap.
       res_bind (fetchMirrorIdBridgeMap env sw) (\<lambda>mirrorIdBridgeMap.
         res_bind (fetchPortNameIdMap env sw) (\<lambda>portIdName.
           let get = (\<lambda>m k. case gm_get m k of None \<Rightarrow> '''' | Some v \<Rightarrow> v)
           in Inr (map (\<lambda>(k, v). (k, \<lparr>smMirror = k, smBridge = get mirrorIdBridgeMap (smMirror v),
                                      smOutput = get portIdName (smOutput v)\<rparr>)) mirrorNameIdMap))))"

text \<open>The mirrors of the configuration that the switch does not have yet.\<close>

fun mirror_loop :: "'s tap_env \<Rightarrow> (string, sMirrorConfig) gomap \<Rightarrow> mirrorConfig list \<Rightarrow> 's \<Rightarrow> 's \<times> unit result" where
  "mirror_loop env mirrorMap [] sw = (sw, Inr ())"
| "mirror_loop env mirrorMap (m # ms) sw =
     (let tm = newTapMirror (teVpcBridge env) m
      in if gm_get mirrorMap (mirrorName tm) \<noteq> None then mirror_loop env mirrorMap ms sw
         else let (sw, need) = release env (mcBridge tm) (mirrorPort tm) sw
              in case exec_all env ((if need then [mirrorPortArgs tm] else []) @ [mirrorArgs tm]) sw of
                   (sw, Inl e) \<Rightarrow> (sw, Inl e)
                 | (sw, Inr _) \<Rightarrow> mirror_loop env mirrorMap ms sw)"

fun delete_mirror_ports :: "'s tap_env \<Rightarrow> string list \<Rightarrow> 's \<Rightarrow> 's \<times> unit result" where
  "delete_mirror_ports env [] sw = (sw, Inr ())"
| "delete_mirror_ports env (p # ps) sw =
     (case tePortToBridge env p sw of
        Inl _ \<Rightarrow> delete_mirror_ports env ps sw
      | Inr br \<Rightarrow>
          (case teDeletePort env br p sw of (sw, Inl e) \<Rightarrow> (sw, Inl e) | (sw, Inr _) \<Rightarrow> delete_mirror_ports env ps sw))"

definition is_mirror_port :: "string \<Rightarrow> bool" where
  "is_mirror_port p \<longleftrightarrow> HasPrefix p LocalMirrorPrefix \<or> HasPrefix p RemoteMirrorPrefix"

definition sync_mirrors ::
  "'s tap_env \<Rightarrow> mirrorConfig list \<Rightarrow> (string, sMirrorConfig) gomap \<Rightarrow> (string, string) gomap \<Rightarrow> 's \<Rightarrow> 's \<times> unit result" where
  "sync_mirrors env mirrors mirrorMap portMap sw =
     (let tms = map (newTapMirror (teVpcBridge env)) mirrors;
          allMirrors = map mirrorName tms;
          allMirrorPorts = map mirrorPort tms
      in case mirror_loop env mirrorMap mirrors sw of
           (sw, Inl e) \<Rightarrow> (sw, Inl e)
         | (sw, Inr _) \<Rightarrow>
             (case exec_all env (map (\<lambda>(m, c). removeMirrorArgs m (smBridge c))
                     (filter (\<lambda>(m, _). m \<notin> set allMirrors) mirrorMap)) sw of
                (sw, Inl e) \<Rightarrow> (sw, Inl e)
              | (sw, Inr _) \<Rightarrow>
                  delete_mirror_ports env
                    (filter (\<lambda>p. is_mirror_port p \<and> p \<notin> set allMirrorPorts) (map fst portMap)) sw))"

definition fetchTapConfig :: "'s tap_env \<Rightarrow> json result" where
  "fetchTapConfig env =
     (case teTapFile env of
        Some (Inr cfgBytes) \<Rightarrow>
          (case teParse env cfgBytes of Inr j \<Rightarrow> Inr j | Inl _ \<Rightarrow> teApiConfig env)
      | _ \<Rightarrow> teApiConfig env)"

text \<open>\<open>syncTapConfig\<close>: the flows it gives to the manager of the tap bridge, the switch and the error.\<close>

definition sync_taps :: "'s tap_env \<Rightarrow> hostTapConfig \<Rightarrow> 's \<Rightarrow> flow list option \<times> 's \<times> unit result" where
  "sync_taps env cfg sw =
     (case tap_loop env (htTaps cfg) [] [] sw of
        (sw, Inl e) \<Rightarrow> (None, sw, Inl e)
      | (sw, Inr (tapFlows, allPorts)) \<Rightarrow>
          (case teListPorts env (teTapBridge env) sw of
             Inl e \<Rightarrow> (None, sw, Inl e)
           | Inr ports \<Rightarrow>
               (case delete_ports env (teTapBridge env) (filter (\<lambda>p. p \<notin> set allPorts) ports) sw of
                  (sw, Inl e) \<Rightarrow> (None, sw, Inl e)
                | (sw, Inr _) \<Rightarrow> (if teHasFlowMan env then Some tapFlows else None, sw, Inr ()))))"

definition syncTapConfig :: "'s tap_env \<Rightarrow> 's \<Rightarrow> flow list option \<times> 's \<times> unit result" where
  "syncTapConfig env sw =
     (case res_bind (fetchTapConfig env) (teUnmarshalConfig env) of
        Inl e \<Rightarrow> (None, sw, Inl e)
      | Inr cfg \<Rightarrow>
          (case sync_taps env cfg sw of
             (fs, sw, Inl e) \<Rightarrow> (fs, sw, Inl e)
           | (fs, sw, Inr _) \<Rightarrow>
               (case fetchMirrorList env sw of
                  Inl e \<Rightarrow> (fs, sw, Inl e)
                | Inr mirrorMap \<Rightarrow>
                    (case fetchPortNameIdMap env sw of
                       Inl e \<Rightarrow> (fs, sw, Inl e)
                     | Inr portMap \<Rightarrow> (fs, sync_mirrors env (htMirrors cfg) mirrorMap portMap sw)))))"

definition ensureTapBridge :: "'s tap_env \<Rightarrow> 's \<Rightarrow> 's \<times> unit result" where
  "ensureTapBridge env sw =
     (case teExec env [''ovs-vsctl'', ''--'', ''--may-exist'', ''add-br'', teTapBridge env] sw of
        (sw, Inl e) \<Rightarrow> (sw, Inl e)
      | (sw, Inr _) \<Rightarrow> (sw, teLinkUp env))"

definition tap_run :: "'s tap_env \<Rightarrow> 's \<Rightarrow> flow list option \<times> 's \<times> unit result" where
  "tap_run env sw = (if length (teHostId env) = 0 then (None, sw, Inr ()) else syncTapConfig env sw)"

definition tap_refresh :: "'s tap_env \<Rightarrow> 's \<Rightarrow> flow list option \<times> 's \<times> unit result" where
  "tap_refresh env sw =
     (case ensureTapBridge env sw of
        (sw, Inl e) \<Rightarrow> (None, sw, Inl e)
      | (sw, Inr _) \<Rightarrow> tap_run env sw)"

text \<open>A turn of the loop of \<open>Start\<close>: the ticker, or the end of the context.\<close>

definition tap_turn :: "'s tap_env \<Rightarrow> bool \<Rightarrow> 's \<Rightarrow> (flow list option \<times> 's \<times> unit result) option" where
  "tap_turn env tick s = (if tick then Some (tap_refresh env s) else None)"


section \<open>The switch\<close>

text \<open>The port that a list of arguments adds, and the bridge it adds it to.\<close>

definition added :: "string list \<Rightarrow> (string \<times> string) option" where
  "added args =
     (if take 4 args = [''ovs-vsctl'', ''--'', ''--may-exist'', ''add-port''] \<and> length args > 5 then Some (args ! 5, args ! 4)
      else if take 3 args = [''ovs-vsctl'', ''--'', ''add-port''] \<and> length args > 4 then Some (args ! 4, args ! 3)
      else None)"

text \<open>The arguments of the manager: they add a port, or look up and change mirrors.\<close>

definition tap_args :: "string list \<Rightarrow> bool" where
  "tap_args args \<longleftrightarrow> added args \<noteq> None \<or> (length args > 2 \<and> HasPrefix (args ! 2) ''--id=@'')"

text \<open>What the manager relies on: \<open>pm\<close> tells the bridge of a port.  A command that fails changes no
  port; \<open>port-to-br\<close> and \<open>list-ports\<close> report the ports; \<open>add-port\<close> adds the port, \<open>del-port\<close> takes it off
  the bridge; the commands on mirrors change no port.\<close>

definition switch_laws :: "'s tap_env \<Rightarrow> ('s \<Rightarrow> string \<Rightarrow> string option) \<Rightarrow> bool" where
  "switch_laws env pm \<longleftrightarrow>
     (\<forall>p sw br. tePortToBridge env p sw = Inr br \<longleftrightarrow> pm sw p = Some br)
     \<and> (\<forall>br sw ps. teListPorts env br sw = Inr ps \<longrightarrow> set ps = {p. pm sw p = Some br})
     \<and> (\<forall>br p sw sw' r. teDeletePort env br p sw = (sw', r) \<longrightarrow>
          (if is_ok r then pm sw' = (pm sw)(p := None) \<and> pm sw p \<in> {None, Some br} else pm sw' = pm sw))
     \<and> (\<forall>args sw sw' r. tap_args args \<longrightarrow> teExec env args sw = (sw', r) \<longrightarrow>
          pm sw' = (case added args of None \<Rightarrow> pm sw | Some (p, br) \<Rightarrow> if is_ok r then (pm sw)(p \<mapsto> br) else pm sw))"

lemma switch_lawsD:
  assumes "switch_laws env pm"
  shows "tePortToBridge env p sw = Inr br \<longleftrightarrow> pm sw p = Some br"
    and "teListPorts env br sw = Inr ps \<Longrightarrow> set ps = {p. pm sw p = Some br}"
    and "teDeletePort env br p sw = (sw', Inr u) \<Longrightarrow> pm sw' = (pm sw)(p := None) \<and> pm sw p \<in> {None, Some br}"
    and "teDeletePort env br p sw = (sw', r) \<Longrightarrow> pm sw' = pm sw \<or> pm sw' = (pm sw)(p := None) \<and> pm sw p \<in> {None, Some br}"
    and "tap_args args \<Longrightarrow> teExec env args sw = (sw', Inr v) \<Longrightarrow>
      pm sw' = (case added args of None \<Rightarrow> pm sw | Some (p, br) \<Rightarrow> (pm sw)(p \<mapsto> br))"
    and "tap_args args \<Longrightarrow> teExec env args sw = (sw', Inl e) \<Longrightarrow> pm sw' = pm sw"
proof -
  note l = assms [unfolded switch_laws_def]
  show "tePortToBridge env p sw = Inr br \<longleftrightarrow> pm sw p = Some br" using l by blast
  show "teListPorts env br sw = Inr ps \<Longrightarrow> set ps = {p. pm sw p = Some br}" using l by blast
  have d: "if is_ok r then pm sw' = (pm sw)(p := None) \<and> pm sw p \<in> {None, Some br} else pm sw' = pm sw"
    if "teDeletePort env br p sw = (sw', r)" for r using l that by blast
  show "teDeletePort env br p sw = (sw', Inr u) \<Longrightarrow> pm sw' = (pm sw)(p := None) \<and> pm sw p \<in> {None, Some br}"
    using d [of "Inr u"] by simp
  show "teDeletePort env br p sw = (sw', r) \<Longrightarrow> pm sw' = pm sw \<or> pm sw' = (pm sw)(p := None) \<and> pm sw p \<in> {None, Some br}"
    using d [of r] by presburger
  have e: "pm sw' = (case added args of None \<Rightarrow> pm sw | Some (p, br) \<Rightarrow> if is_ok r then (pm sw)(p \<mapsto> br) else pm sw)"
    if "tap_args args" "teExec env args sw = (sw', r)" for r using l that by blast
  show "tap_args args \<Longrightarrow> teExec env args sw = (sw', Inr v) \<Longrightarrow>
      pm sw' = (case added args of None \<Rightarrow> pm sw | Some (p, br) \<Rightarrow> (pm sw)(p \<mapsto> br))"
    using e [of "Inr v"] by (simp split: option.splits)
  show "tap_args args \<Longrightarrow> teExec env args sw = (sw', Inl e) \<Longrightarrow> pm sw' = pm sw"
    using e [of "Inl e"] by (simp split: option.splits)
qed

lemma added_simps [simp]:
  "added [''ovs-vsctl'', ''--'', ''--may-exist'', ''add-port'', br, p] = Some (p, br)"
  "added (destPortArgs br m) = Some (tapPort m, br)"
  "added (mirrorPortArgs m) = Some (mirrorPort m, mcBridge m)"
  "added (mirrorArgs m) = None" "added (removeMirrorArgs n br) = None"
  by (simp_all add: added_def destPortArgs_def mirrorPortArgs_def mirrorArgs_def removeMirrorArgs_def)

lemma tap_args_simps [simp]:
  "tap_args [''ovs-vsctl'', ''--'', ''--may-exist'', ''add-port'', br, p]"
  "tap_args (destPortArgs br m)" "tap_args (mirrorPortArgs m)" "tap_args (mirrorArgs m)" "tap_args (removeMirrorArgs n br)"
  by (simp_all add: tap_args_def) (simp_all add: mirrorArgs_def removeMirrorArgs_def HasPrefix_def)

text \<open>The ports of a bridge.\<close>

definition on_bridge :: "('s \<Rightarrow> string \<Rightarrow> string option) \<Rightarrow> string \<Rightarrow> 's \<Rightarrow> string set" where
  "on_bridge pm br sw = {p. pm sw p = Some br}"

section \<open>The ports of the tap bridge\<close>

lemma release_ports:
  assumes "switch_laws env pm" "release env br p sw = (sw', need)"
  shows "on_bridge pm br sw' = on_bridge pm br sw" "\<not> need \<Longrightarrow> p \<in> on_bridge pm br sw"
    "q \<noteq> p \<Longrightarrow> pm sw' q = pm sw q"
proof -
  have "on_bridge pm br sw' = on_bridge pm br sw \<and> (\<not> need \<longrightarrow> p \<in> on_bridge pm br sw) \<and> (\<forall>q. q \<noteq> p \<longrightarrow> pm sw' q = pm sw q)"
  proof (cases "tePortToBridge env p sw")
    case (Inl e)
    with assms(2) show ?thesis by (simp add: release_def)
  next
    case (Inr br')
    then have p: "pm sw p = Some br'" using switch_lawsD(1) [OF assms(1)] by simp
    show ?thesis
    proof (cases "br' = br")
      case False
      obtain sw1 r where d: "teDeletePort env br' p sw = (sw1, r)" by fastforce
      with assms(2) Inr False have "sw' = sw1" "need" by (simp_all add: release_def)
      with switch_lawsD(4) [OF assms(1) d] p False show ?thesis by (auto simp: on_bridge_def split: if_splits)
    qed (use assms(2) Inr p in \<open>auto simp: release_def on_bridge_def\<close>)
  qed
  then show "on_bridge pm br sw' = on_bridge pm br sw" "\<not> need \<Longrightarrow> p \<in> on_bridge pm br sw"
    "q \<noteq> p \<Longrightarrow> pm sw' q = pm sw q" by blast+
qed

lemma exec_all_ports:
  assumes "switch_laws env pm" "exec_all env argss sw = (sw', Inr u)"
    and "\<forall>args\<in>set argss. tap_args args \<and> (\<forall>p b. added args = Some (p, b) \<longrightarrow> b = br)"
  shows "on_bridge pm br sw' = on_bridge pm br sw \<union> {p. \<exists>args\<in>set argss. added args = Some (p, br)}"
  using assms(2,3)
proof (induction argss arbitrary: sw)
  case (Cons args argss)
  obtain sw1 v where e: "teExec env args sw = (sw1, Inr v)" "exec_all env argss sw1 = (sw', Inr u)"
    using Cons.prems(1) by (auto split: prod.splits sum.splits)
  have "pm sw1 = (case added args of None \<Rightarrow> pm sw | Some (p, br) \<Rightarrow> (pm sw)(p \<mapsto> br))"
    by (rule switch_lawsD(5) [OF assms(1) _ e(1)]) (use Cons.prems(2) in simp)
  then have "on_bridge pm br sw1 = on_bridge pm br sw \<union> {p. added args = Some (p, br)}"
    using Cons.prems(2) by (auto simp: on_bridge_def split: option.splits if_splits)
  with Cons.IH [OF e(2)] Cons.prems(2) show ?case by auto
qed simp

lemma mirrors_args_ports:
  assumes "switch_laws env pm" "mirrors_args env s ms sw = (sw', argss)"
  shows "on_bridge pm (teTapBridge env) sw' = on_bridge pm (teTapBridge env) sw
    \<and> (\<forall>args\<in>set argss. \<exists>m. args = destPortArgs (teTapBridge env) m)
    \<and> (\<forall>m\<in>set ms. tapPort (svc_newTapMirror (teVpcBridge env) s m) \<in>
         on_bridge pm (teTapBridge env) sw \<union> {p. \<exists>args\<in>set argss. added args = Some (p, teTapBridge env)})
    \<and> {p. \<exists>args\<in>set argss. added args = Some (p, teTapBridge env)} \<subseteq> (\<lambda>m. tapPort (svc_newTapMirror (teVpcBridge env) s m)) ` set ms"
  using assms(2)
proof (induction ms arbitrary: sw sw' argss)
  case (Cons m ms)
  let ?tm = "svc_newTapMirror (teVpcBridge env) s m"
  obtain sw1 need where r: "release env (teTapBridge env) (tapPort ?tm) sw = (sw1, need)" by fastforce
  obtain sw2 ret where l: "mirrors_args env s ms sw1 = (sw2, ret)" by fastforce
  from Cons.prems r l have "sw' = sw2" "argss = (if need then [destPortArgs (teTapBridge env) ?tm] else []) @ ret"
    by (simp_all add: Let_def)
  with release_ports [OF assms(1) r] Cons.IH [OF l] show ?case by (cases need) auto
qed simp

lemma portsArgs_ports:
  assumes "switch_laws env pm" "portsArgs env s sw = (sw1, argss)" "exec_all env argss sw1 = (sw2, Inr u)"
  shows "on_bridge pm (teTapBridge env) sw2 = on_bridge pm (teTapBridge env) sw
    \<union> insert (tcIfname s) ((\<lambda>m. tapPort (svc_newTapMirror (teVpcBridge env) s m)) ` set (tcMirrors s))"
proof -
  let ?br = "teTapBridge env"
  obtain sw0 need where r: "release env ?br (tcIfname s) sw = (sw0, need)" by fastforce
  obtain sw' ret where l: "mirrors_args env s (tcMirrors s) sw0 = (sw', ret)" by fastforce
  have a: "sw1 = sw'"
    "argss = (if need then [[''ovs-vsctl'', ''--'', ''--may-exist'', ''add-port'', ?br, tcIfname s]] else []) @ ret"
    using assms(2) r l by (simp_all add: portsArgs_def Let_def)
  note m = mirrors_args_ports [OF assms(1) l] and rel = release_ports [OF assms(1) r]
  have "on_bridge pm ?br sw2 = on_bridge pm ?br sw1 \<union> {p. \<exists>args\<in>set argss. added args = Some (p, ?br)}"
    by (rule exec_all_ports [OF assms(1,3)]) (use m in \<open>auto simp: a split: if_splits\<close>)
  also have "\<dots> = on_bridge pm ?br sw
    \<union> insert (tcIfname s) ((\<lambda>m. tapPort (svc_newTapMirror (teVpcBridge env) s m)) ` set (tcMirrors s))"
    using m rel by (cases need) (auto simp: a)
  finally show ?thesis .
qed

text \<open>The loop over the services only adds ports to the tap bridge, and afterwards every port it noted
  is there.\<close>

lemma tap_loop_ports:
  assumes "switch_laws env pm" "tap_loop env taps fs ps sw = (sw', Inr (fs', ps'))"
  shows "\<exists>P. on_bridge pm (teTapBridge env) sw' = on_bridge pm (teTapBridge env) sw \<union> P \<and> set ps' = set ps \<union> P"
  using assms(2)
proof (induction taps arbitrary: fs ps sw)
  case (Cons st taps)
  show ?case
  proof (cases "isGuest env st \<and> \<not> is_ok (tePortToBridge env (tcIfname st) sw)")
    case True
    with Cons.prems Cons.IH show ?thesis by simp
  next
    case False
    obtain st' ports where p: "svc_ports env st = Inr (st', ports)"
      using Cons.prems False by (cases "svc_ports env st") auto
    obtain sw1 argss where a: "portsArgs env st' sw = (sw1, argss)" by fastforce
    obtain sw2 u where e: "exec_all env argss sw1 = (sw2, Inr u)"
      using Cons.prems False p a by (cases "exec_all env argss sw1") (auto split: sum.splits)
    obtain flows where f: "svc_flows env st' sw2 = Inr flows"
      using Cons.prems False p a e by (cases "svc_flows env st' sw2") auto
    have l: "tap_loop env taps (fs @ flows) (ps @ ports) sw2 = (sw', Inr (fs', ps'))"
      using Cons.prems False p a e f by simp
    have "set ports = insert (tcIfname st') ((\<lambda>m. tapPort (svc_newTapMirror (teVpcBridge env) st' m)) ` set (tcMirrors st'))"
      using p by (auto simp: svc_ports_def res_bind_Inr_iff svc_newTapMirror_def)
    then have "on_bridge pm (teTapBridge env) sw2 = on_bridge pm (teTapBridge env) sw \<union> set ports"
      using portsArgs_ports [OF assms(1) a e] by simp
    with Cons.IH [OF l] show ?thesis by (metis set_append sup_assoc)
  qed
qed auto

lemma delete_ports_laws:
  assumes "switch_laws env pm" "delete_ports env br ps sw = (sw', Inr u)"
  shows "pm sw' = (\<lambda>q. if q \<in> set ps then None else pm sw q)"
  using assms(2)
proof (induction ps arbitrary: sw)
  case (Cons p ps)
  obtain sw1 v where d: "teDeletePort env br p sw = (sw1, Inr v)" "delete_ports env br ps sw1 = (sw', Inr u)"
    using Cons.prems by (auto split: prod.splits sum.splits)
  from Cons.IH [OF d(2)] switch_lawsD(3) [OF assms(1) d(1)] show ?case by auto
qed simp

lemma sync_taps_ports:
  assumes "switch_laws env pm" "sync_taps env cfg sw = (out, sw', Inr u)"
  obtains sw1 fs ps where "tap_loop env (htTaps cfg) [] [] sw = (sw1, Inr (fs, ps))"
    "on_bridge pm (teTapBridge env) sw' = set ps" "out = (if teHasFlowMan env then Some fs else None)"
proof -
  obtain sw1 fs ps where t: "tap_loop env (htTaps cfg) [] [] sw = (sw1, Inr (fs, ps))"
    using assms(2) by (auto simp: sync_taps_def split: prod.splits sum.splits)
  obtain qs where q: "teListPorts env (teTapBridge env) sw1 = Inr qs"
    using assms(2) t by (auto simp: sync_taps_def split: sum.splits)
  have d: "delete_ports env (teTapBridge env) (filter (\<lambda>p. p \<notin> set ps) qs) sw1 = (sw', Inr u)"
    and o: "out = (if teHasFlowMan env then Some fs else None)"
    using assms(2) t q by (auto simp: sync_taps_def split: prod.splits sum.splits)
  have "set qs = on_bridge pm (teTapBridge env) sw1" using switch_lawsD(2) [OF assms(1) q] by (simp add: on_bridge_def)
  moreover have "set ps \<subseteq> on_bridge pm (teTapBridge env) sw1" using tap_loop_ports [OF assms(1) t] by auto
  ultimately have "on_bridge pm (teTapBridge env) sw' = set ps"
    using delete_ports_laws [OF assms(1) d] by (auto simp: on_bridge_def split: if_splits)
  with t o show thesis by (intro that)
qed

text \<open>The mirrors leave the tap bridge alone, if they are of other bridges and no port of the tap bridge
  has the name of a mirror port.\<close>

lemma mirrorPort_is_mirror_port [simp]: "is_mirror_port (mirrorPort m)"
  by (simp add: is_mirror_port_def mirrorPort_def HasPrefix_def)

lemma mirror_exec:
  assumes "switch_laws env pm" "exec_all env argss sw = (sw', r)"
    and "\<forall>args\<in>set argss. tap_args args \<and> (\<forall>q b. added args = Some (q, b) \<longrightarrow> q \<noteq> p)"
  shows "pm sw' p = pm sw p"
  using assms(2,3)
proof (induction argss arbitrary: sw)
  case (Cons args argss)
  obtain sw1 r1 where e: "teExec env args sw = (sw1, r1)" by fastforce
  have a: "tap_args args" "\<forall>q b. added args = Some (q, b) \<longrightarrow> q \<noteq> p" using Cons.prems(2) by auto
  have "pm sw1 p = pm sw p"
  proof (cases r1)
    case (Inl x)
    with switch_lawsD(6) [OF assms(1) a(1)] e show ?thesis by simp
  next
    case (Inr v)
    with switch_lawsD(5) [OF assms(1) a(1), of sw sw1 v] e a(2) show ?thesis by (auto split: option.splits)
  qed
  moreover have "sw' = sw1 \<or> exec_all env argss sw1 = (sw', r)"
    using Cons.prems(1) e by (cases r1) auto
  ultimately show ?case using Cons.IH Cons.prems(2) by auto
qed simp

lemma mirror_loop_keeps:
  assumes "switch_laws env pm" "mirror_loop env mm ms sw = (sw', r)" "\<not> is_mirror_port p"
  shows "pm sw' p = pm sw p"
  using assms(2)
proof (induction ms arbitrary: sw)
  case (Cons m ms)
  let ?tm = "newTapMirror (teVpcBridge env) m"
  show ?case
  proof (cases "gm_get mm (mirrorName ?tm) = None")
    case True
    obtain sw1 need where rel: "release env (mcBridge ?tm) (mirrorPort ?tm) sw = (sw1, need)" by fastforce
    obtain sw2 r2 where e: "exec_all env ((if need then [mirrorPortArgs ?tm] else []) @ [mirrorArgs ?tm]) sw1 = (sw2, r2)" by fastforce
    have ne: "mirrorPort ?tm \<noteq> p" using assms(3) mirrorPort_is_mirror_port by metis
    have "pm sw1 p = pm sw p" using release_ports(3) [OF assms(1) rel] ne by metis
    moreover have "pm sw2 p = pm sw1 p" by (rule mirror_exec [OF assms(1) e]) (use ne in auto)
    moreover have "sw' = sw2 \<or> mirror_loop env mm ms sw2 = (sw', r)"
      using Cons.prems True rel e by (cases r2) (auto simp: Let_def)
    ultimately show ?thesis using Cons.IH by auto
  qed (use Cons in \<open>auto simp: Let_def\<close>)
qed simp

lemma delete_mirror_ports_keeps:
  assumes "switch_laws env pm" "delete_mirror_ports env ps sw = (sw', r)" "p \<notin> set ps"
  shows "pm sw' p = pm sw p"
  using assms(2,3)
proof (induction ps arbitrary: sw)
  case (Cons q ps)
  show ?case
  proof (cases "tePortToBridge env q sw")
    case (Inr br)
    obtain sw1 r1 where d: "teDeletePort env br q sw = (sw1, r1)" by fastforce
    have "pm sw1 p = pm sw p" using switch_lawsD(4) [OF assms(1) d] Cons.prems(2) by auto
    moreover have "sw' = sw1 \<or> delete_mirror_ports env ps sw1 = (sw', r)" using Cons.prems(1) Inr d by (cases r1) auto
    ultimately show ?thesis using Cons.IH Cons.prems(2) by auto
  qed (use Cons in auto)
qed simp

lemma sync_mirrors_stages:
  assumes "sync_mirrors env ms mm pmap sw = (sw', r)"
  obtains sw1 r1 sw2 r2 sw3 r3 where "mirror_loop env mm ms sw = (sw1, r1)"
    "exec_all env (map (\<lambda>(m, c). removeMirrorArgs m (smBridge c))
       (filter (\<lambda>(m, _). m \<notin> set (map mirrorName (map (newTapMirror (teVpcBridge env)) ms))) mm)) sw1 = (sw2, r2)"
    "delete_mirror_ports env (filter (\<lambda>p. is_mirror_port p
       \<and> p \<notin> set (map mirrorPort (map (newTapMirror (teVpcBridge env)) ms))) (map fst pmap)) sw2 = (sw3, r3)"
    "sw' = sw1 \<and> r = r1 \<and> \<not> is_ok r \<or> sw' = sw2 \<and> r = r2 \<and> \<not> is_ok r \<or> sw' = sw3 \<and> r = r3"
proof -
  let ?rm = "map (\<lambda>(m, c). removeMirrorArgs m (smBridge c))
    (filter (\<lambda>(m, _). m \<notin> set (map mirrorName (map (newTapMirror (teVpcBridge env)) ms))) mm)"
  let ?del = "filter (\<lambda>p. is_mirror_port p \<and> p \<notin> set (map mirrorPort (map (newTapMirror (teVpcBridge env)) ms))) (map fst pmap)"
  obtain sw1 r1 where 1: "mirror_loop env mm ms sw = (sw1, r1)" by fastforce
  obtain sw2 r2 where 2: "exec_all env ?rm sw1 = (sw2, r2)" by fastforce
  obtain sw3 r3 where 3: "delete_mirror_ports env ?del sw2 = (sw3, r3)" by fastforce
  have "sw' = sw1 \<and> r = r1 \<and> \<not> is_ok r \<or> sw' = sw2 \<and> r = r2 \<and> \<not> is_ok r \<or> sw' = sw3 \<and> r = r3"
    using assms unfolding sync_mirrors_def Let_def 1 prod.case
    by (cases r1; cases r2; simp only: sum.case prod.case 2 3 prod.inject; fastforce)
  with 1 2 3 show thesis by (rule that)
qed

lemma sync_mirrors_keeps:
  assumes "switch_laws env pm" "sync_mirrors env ms mm pmap sw = (sw', r)" "\<not> is_mirror_port p"
  shows "pm sw' p = pm sw p"
  using assms(2)
proof (rule sync_mirrors_stages)
  fix sw1 r1 sw2 r2 sw3 r3
  assume 1: "mirror_loop env mm ms sw = (sw1, r1)"
    and 2: "exec_all env (map (\<lambda>(m, c). removeMirrorArgs m (smBridge c))
       (filter (\<lambda>(m, _). m \<notin> set (map mirrorName (map (newTapMirror (teVpcBridge env)) ms))) mm)) sw1 = (sw2, r2)"
    and 3: "delete_mirror_ports env (filter (\<lambda>p. is_mirror_port p
       \<and> p \<notin> set (map mirrorPort (map (newTapMirror (teVpcBridge env)) ms))) (map fst pmap)) sw2 = (sw3, r3)"
    and s: "sw' = sw1 \<and> r = r1 \<and> \<not> is_ok r \<or> sw' = sw2 \<and> r = r2 \<and> \<not> is_ok r \<or> sw' = sw3 \<and> r = r3"
  have "pm sw1 p = pm sw p" by (rule mirror_loop_keeps [OF assms(1) 1 assms(3)])
  moreover have "pm sw2 p = pm sw1 p" by (rule mirror_exec [OF assms(1) 2]) auto
  moreover have "pm sw3 p = pm sw2 p" by (rule delete_mirror_ports_keeps [OF assms(1) 3]) (use assms(3) in simp)
  ultimately show ?thesis using s by auto
qed

lemma switch_fewer:
  assumes "switch_laws env pm"
  shows "teDeletePort env b p sw = (sw', r) \<Longrightarrow> on_bridge pm br sw' \<subseteq> on_bridge pm br sw"
    and "tap_args args \<Longrightarrow> (\<forall>q b. added args = Some (q, b) \<longrightarrow> b \<noteq> br) \<Longrightarrow> teExec env args sw = (sw', r) \<Longrightarrow>
      on_bridge pm br sw' \<subseteq> on_bridge pm br sw"
proof -
  show "teDeletePort env b p sw = (sw', r) \<Longrightarrow> on_bridge pm br sw' \<subseteq> on_bridge pm br sw"
    using switch_lawsD(4) [OF assms, of b p sw sw' r] by (auto simp: on_bridge_def split: if_splits)
  show "tap_args args \<Longrightarrow> (\<forall>q b. added args = Some (q, b) \<longrightarrow> b \<noteq> br) \<Longrightarrow> teExec env args sw = (sw', r) \<Longrightarrow>
      on_bridge pm br sw' \<subseteq> on_bridge pm br sw"
    using switch_lawsD(5) [OF assms, of args sw sw'] switch_lawsD(6) [OF assms, of args sw sw']
    by (cases r) (auto simp: on_bridge_def split: option.splits if_splits)
qed

lemma release_fewer:
  assumes "switch_laws env pm" "release env b p sw = (sw', need)"
  shows "on_bridge pm br sw' \<subseteq> on_bridge pm br sw"
  using assms(2) switch_fewer(1) [OF assms(1)]
  by (auto simp: release_def split: sum.splits if_splits) (metis in_mono prod.collapse)

lemma exec_all_fewer:
  assumes "switch_laws env pm" "exec_all env argss sw = (sw', r)"
    and "\<forall>args\<in>set argss. tap_args args \<and> (\<forall>q b. added args = Some (q, b) \<longrightarrow> b \<noteq> br)"
  shows "on_bridge pm br sw' \<subseteq> on_bridge pm br sw"
  using assms(2,3)
proof (induction argss arbitrary: sw)
  case (Cons args argss)
  obtain sw1 r1 where e: "teExec env args sw = (sw1, r1)" by fastforce
  have "on_bridge pm br sw1 \<subseteq> on_bridge pm br sw"
    by (rule switch_fewer(2) [OF assms(1) _ _ e]) (use Cons.prems(2) in auto)
  moreover have "sw' = sw1 \<or> exec_all env argss sw1 = (sw', r)" using Cons.prems(1) e by (cases r1) auto
  ultimately show ?case using Cons.IH Cons.prems(2) by force
qed simp

lemma mirror_loop_fewer:
  assumes "switch_laws env pm" "mirror_loop env mm ms sw = (sw', r)"
    and "\<forall>m\<in>set ms. mcBridge (newTapMirror (teVpcBridge env) m) \<noteq> br"
  shows "on_bridge pm br sw' \<subseteq> on_bridge pm br sw"
  using assms(2,3)
proof (induction ms arbitrary: sw)
  case (Cons m ms)
  let ?tm = "newTapMirror (teVpcBridge env) m"
  show ?case
  proof (cases "gm_get mm (mirrorName ?tm) = None")
    case True
    obtain sw1 need where rel: "release env (mcBridge ?tm) (mirrorPort ?tm) sw = (sw1, need)" by fastforce
    obtain sw2 r2 where e: "exec_all env ((if need then [mirrorPortArgs ?tm] else []) @ [mirrorArgs ?tm]) sw1 = (sw2, r2)" by fastforce
    have "on_bridge pm br sw1 \<subseteq> on_bridge pm br sw" by (rule release_fewer [OF assms(1) rel])
    moreover have "on_bridge pm br sw2 \<subseteq> on_bridge pm br sw1"
      by (rule exec_all_fewer [OF assms(1) e]) (use Cons.prems(2) in auto)
    moreover have "sw' = sw2 \<or> mirror_loop env mm ms sw2 = (sw', r)"
      using Cons.prems True rel e by (cases r2) (auto simp: Let_def)
    ultimately show ?thesis using Cons.IH Cons.prems(2) by force
  qed (use Cons in \<open>auto simp: Let_def\<close>)
qed simp

lemma delete_mirror_ports_fewer:
  assumes "switch_laws env pm" "delete_mirror_ports env ps sw = (sw', r)"
  shows "on_bridge pm br sw' \<subseteq> on_bridge pm br sw"
  using assms(2)
proof (induction ps arbitrary: sw)
  case (Cons q ps)
  show ?case
  proof (cases "tePortToBridge env q sw")
    case (Inr b)
    obtain sw1 r1 where d: "teDeletePort env b q sw = (sw1, r1)" by fastforce
    have "on_bridge pm br sw1 \<subseteq> on_bridge pm br sw" by (rule switch_fewer(1) [OF assms(1) d])
    moreover have "sw' = sw1 \<or> delete_mirror_ports env ps sw1 = (sw', r)" using Cons.prems(1) Inr d by (cases r1) auto
    ultimately show ?thesis using Cons.IH by force
  qed (use Cons in auto)
qed simp

lemma sync_mirrors_fewer:
  assumes "switch_laws env pm" "sync_mirrors env ms mm pmap sw = (sw', r)"
    and "\<forall>m\<in>set ms. mcBridge (newTapMirror (teVpcBridge env) m) \<noteq> br"
  shows "on_bridge pm br sw' \<subseteq> on_bridge pm br sw"
  using assms(2)
proof (rule sync_mirrors_stages)
  fix sw1 r1 sw2 r2 sw3 r3
  assume 1: "mirror_loop env mm ms sw = (sw1, r1)"
    and 2: "exec_all env (map (\<lambda>(m, c). removeMirrorArgs m (smBridge c))
       (filter (\<lambda>(m, _). m \<notin> set (map mirrorName (map (newTapMirror (teVpcBridge env)) ms))) mm)) sw1 = (sw2, r2)"
    and 3: "delete_mirror_ports env (filter (\<lambda>p. is_mirror_port p
       \<and> p \<notin> set (map mirrorPort (map (newTapMirror (teVpcBridge env)) ms))) (map fst pmap)) sw2 = (sw3, r3)"
    and s: "sw' = sw1 \<and> r = r1 \<and> \<not> is_ok r \<or> sw' = sw2 \<and> r = r2 \<and> \<not> is_ok r \<or> sw' = sw3 \<and> r = r3"
  have "on_bridge pm br sw1 \<subseteq> on_bridge pm br sw" by (rule mirror_loop_fewer [OF assms(1) 1 assms(3)])
  moreover have "on_bridge pm br sw2 \<subseteq> on_bridge pm br sw1" by (rule exec_all_fewer [OF assms(1) 2]) auto
  moreover have "on_bridge pm br sw3 \<subseteq> on_bridge pm br sw2" by (rule delete_mirror_ports_fewer [OF assms(1) 3])
  ultimately show ?thesis using s by auto
qed

text \<open>Ports that are on some bridge stay on one while the services are set up.\<close>

lemma exec_all_dom:
  assumes "switch_laws env pm" "exec_all env argss sw = (sw', Inr u)" "\<forall>args\<in>set argss. tap_args args" "pm sw q \<noteq> None"
  shows "pm sw' q \<noteq> None"
  using assms(2-4)
proof (induction argss arbitrary: sw)
  case (Cons args argss)
  obtain sw1 v where e: "teExec env args sw = (sw1, Inr v)" "exec_all env argss sw1 = (sw', Inr u)"
    using Cons.prems(1) by (auto split: prod.splits sum.splits)
  have "pm sw1 = (case added args of None \<Rightarrow> pm sw | Some (p, br) \<Rightarrow> (pm sw)(p \<mapsto> br))"
    by (rule switch_lawsD(5) [OF assms(1) _ e(1)]) (use Cons.prems(2) in simp)
  with Cons.prems(3) have "pm sw1 q \<noteq> None" by (auto split: option.splits)
  with Cons.IH [OF e(2)] Cons.prems(2) show ?case by simp
qed simp

lemma mirrors_args_other:
  assumes "switch_laws env pm" "mirrors_args env s ms sw = (sw', argss)"
    and "q \<notin> (\<lambda>m. tapPort (svc_newTapMirror (teVpcBridge env) s m)) ` set ms"
  shows "pm sw' q = pm sw q"
  using assms(2,3)
proof (induction ms arbitrary: sw sw' argss)
  case (Cons m ms)
  let ?tm = "svc_newTapMirror (teVpcBridge env) s m"
  obtain sw1 need where r: "release env (teTapBridge env) (tapPort ?tm) sw = (sw1, need)" by fastforce
  obtain sw2 ret where l: "mirrors_args env s ms sw1 = (sw2, ret)" by fastforce
  from Cons.prems r l have "sw' = sw2" by (simp add: Let_def)
  with release_ports(3) [OF assms(1) r] Cons.IH [OF l] Cons.prems(2) show ?case by auto
qed simp

lemma portsArgs_dom:
  assumes "switch_laws env pm" "portsArgs env s sw = (sw1, argss)" "exec_all env argss sw1 = (sw2, Inr u)" "pm sw q \<noteq> None"
  shows "pm sw2 q \<noteq> None"
proof (cases "q \<in> insert (tcIfname s) ((\<lambda>m. tapPort (svc_newTapMirror (teVpcBridge env) s m)) ` set (tcMirrors s))")
  case True
  with portsArgs_ports [OF assms(1-3)] show ?thesis by (auto simp: on_bridge_def)
next
  case False
  let ?br = "teTapBridge env"
  obtain sw0 need where r: "release env ?br (tcIfname s) sw = (sw0, need)" by fastforce
  obtain sw' ret where l: "mirrors_args env s (tcMirrors s) sw0 = (sw', ret)" by fastforce
  have a: "sw1 = sw'"
    "argss = (if need then [[''ovs-vsctl'', ''--'', ''--may-exist'', ''add-port'', ?br, tcIfname s]] else []) @ ret"
    using assms(2) r l by (simp_all add: portsArgs_def Let_def)
  have "pm sw1 q = pm sw q"
    using mirrors_args_other [OF assms(1) l, of q] release_ports(3) [OF assms(1) r, of q] False by (simp add: a(1))
  moreover have "\<forall>args\<in>set argss. tap_args args"
    using mirrors_args_ports [OF assms(1) l] by (auto simp: a(2) split: if_splits)
  ultimately show ?thesis using exec_all_dom [OF assms(1,3)] assms(4) by simp
qed

text \<open>The ports of the services, if every guest's interface is plugged in.\<close>

definition service_ports :: "'s tap_env \<Rightarrow> tapServiceConfig list \<Rightarrow> string set" where
  "service_ports env taps = {p. \<exists>st\<in>set taps. \<exists>st' ps. svc_ports env st = Inr (st', ps) \<and> p \<in> set ps}"

lemma tap_loop_services:
  assumes "switch_laws env pm" "tap_loop env taps fs ps sw = (sw', Inr (fs', ps'))"
    and "\<forall>st\<in>set taps. isGuest env st \<longrightarrow> pm sw (tcIfname st) \<noteq> None"
  shows "set ps' = set ps \<union> service_ports env taps"
  using assms(2,3)
proof (induction taps arbitrary: fs ps sw)
  case (Cons st taps)
  have go: "\<not> (isGuest env st \<and> \<not> is_ok (tePortToBridge env (tcIfname st) sw))"
  proof
    assume g: "isGuest env st \<and> \<not> is_ok (tePortToBridge env (tcIfname st) sw)"
    with Cons.prems(2) obtain br where "pm sw (tcIfname st) = Some br" by auto
    with switch_lawsD(1) [OF assms(1)] g show False by (metis is_ok_simps(1))
  qed
  obtain st' ports where p: "svc_ports env st = Inr (st', ports)"
    using Cons.prems go by (cases "svc_ports env st") auto
  obtain sw1 argss where a: "portsArgs env st' sw = (sw1, argss)" by fastforce
  obtain sw2 u where e: "exec_all env argss sw1 = (sw2, Inr u)"
    using Cons.prems go p a by (cases "exec_all env argss sw1") (auto split: sum.splits)
  obtain flows where f: "svc_flows env st' sw2 = Inr flows"
    using Cons.prems go p a e by (cases "svc_flows env st' sw2") auto
  have l: "tap_loop env taps (fs @ flows) (ps @ ports) sw2 = (sw', Inr (fs', ps'))"
    using Cons.prems go p a e f by simp
  have "\<forall>st\<in>set taps. isGuest env st \<longrightarrow> pm sw2 (tcIfname st) \<noteq> None"
    using Cons.prems(2) portsArgs_dom [OF assms(1) a e] by simp
  from Cons.IH [OF l this] p show ?case by (auto simp: service_ports_def)
qed (simp add: service_ports_def)

lemma tapPort_not_mirror: "\<not> is_mirror_port (tapPort m)"
  by (simp add: is_mirror_port_def tapPort_def HasPrefix_def LocalMirrorPrefix_def RemoteMirrorPrefix_def
      LocalTapPrefix_def RemoteTapPrefix_def)


section \<open>Mirrors that exist\<close>

lemma mirror_loop_existing:
  "\<forall>m\<in>set ms. gm_get mm (mirrorName m) \<noteq> None \<Longrightarrow> mirror_loop env mm ms sw = (sw, Inr ())"
proof (induction ms)
  case (Cons m ms)
  moreover have "mirrorName (newTapMirror b m) = mirrorName m" for b by (simp add: newTapMirror_def mirrorName_def)
  ultimately show ?case by (simp add: Let_def)
qed simp

lemma delete_mirror_ports_gone:
  assumes "switch_laws env pm" "delete_mirror_ports env ps sw = (sw', Inr u)" "p \<in> set ps"
  shows "pm sw' p = None"
proof -
  have gone: "pm sw' p = None" if "delete_mirror_ports env ps sw = (sw', Inr u)" "pm sw p = None" for ps sw
    using that
  proof (induction ps arbitrary: sw)
    case (Cons q ps)
    show ?case
    proof (cases "tePortToBridge env q sw")
      case (Inr br)
      with Cons.prems obtain sw1 v where d: "teDeletePort env br q sw = (sw1, Inr v)" "delete_mirror_ports env ps sw1 = (sw', Inr u)"
        by (auto split: prod.splits sum.splits)
      from switch_lawsD(3) [OF assms(1) d(1)] Cons.prems(2) have "pm sw1 p = None" by auto
      with Cons.IH d(2) show ?thesis by blast
    qed (use Cons in auto)
  qed simp
  show ?thesis using assms(2,3)
  proof (induction ps arbitrary: sw)
    case (Cons q ps)
    show ?case
    proof (cases "tePortToBridge env q sw")
      case (Inl e)
      then have "pm sw q = None" using switch_lawsD(1) [OF assms(1), of q sw] by (cases "pm sw q") auto
      with Cons Inl gone show ?thesis by auto
    next
      case (Inr br)
      with Cons.prems obtain sw1 v where d: "teDeletePort env br q sw = (sw1, Inr v)" "delete_mirror_ports env ps sw1 = (sw', Inr u)"
        by (auto split: prod.splits sum.splits)
      from switch_lawsD(3) [OF assms(1) d(1)] have "pm sw1 q = None" by simp
      with Cons d(2) gone show ?thesis by auto
    qed
  qed simp
qed

text \<open>A mirror that the switch has under its name is never changed.  When the tap of a flow moves
  from this host to another one, or back, the name of the mirror stays but the name of its port
  changes: a synchronisation deletes the old port and does not create the new one, so the mirror is
  left without the port it sends to.\<close>

theorem moved_mirror_loses_port:
  assumes "switch_laws env pm" "sync_mirrors env ms mm pmap sw = (sw', Inr u)"
    and "\<forall>m\<in>set ms. gm_get mm (mirrorName m) \<noteq> None"
    and "m \<in> set ms" "mcFlowId old = mcFlowId m" "mirrorPort old \<noteq> mirrorPort m"
    and "\<forall>m'\<in>set ms. mirrorPort m' \<noteq> mirrorPort old"
    and "gm_get pmap (mirrorPort old) \<noteq> None" "pm sw (mirrorPort m) = None"
  shows "mirrorName old = mirrorName m \<and> pm sw' (mirrorPort old) = None \<and> pm sw' (mirrorPort m) = None"
proof -
  have pt: "mirrorPort (newTapMirror b x) = mirrorPort x" for b x by (simp add: newTapMirror_def mirrorPort_def)
  from assms(2) show ?thesis
  proof (rule sync_mirrors_stages)
    fix sw1 r1 sw2 r2 sw3 r3
    assume 1: "mirror_loop env mm ms sw = (sw1, r1)"
      and 2: "exec_all env (map (\<lambda>(m, c). removeMirrorArgs m (smBridge c))
         (filter (\<lambda>(m, _). m \<notin> set (map mirrorName (map (newTapMirror (teVpcBridge env)) ms))) mm)) sw1 = (sw2, r2)"
      and 3: "delete_mirror_ports env (filter (\<lambda>p. is_mirror_port p
         \<and> p \<notin> set (map mirrorPort (map (newTapMirror (teVpcBridge env)) ms))) (map fst pmap)) sw2 = (sw3, r3)"
      and s: "sw' = sw1 \<and> Inr u = r1 \<and> \<not> is_ok (Inr u :: unit result) \<or> sw' = sw2 \<and> Inr u = r2 \<and> \<not> is_ok (Inr u :: unit result)
        \<or> sw' = sw3 \<and> Inr u = r3"
    have "sw1 = sw" using 1 mirror_loop_existing [OF assms(3), of env sw] by (metis prod.inject)
    with assms(9) have "pm sw1 (mirrorPort m) = None" by simp
    moreover have "pm sw2 (mirrorPort m) = pm sw1 (mirrorPort m)" by (rule mirror_exec [OF assms(1) 2]) auto
    moreover have "pm sw3 (mirrorPort m) = pm sw2 (mirrorPort m)"
      by (rule delete_mirror_ports_keeps [OF assms(1) 3]) (use assms(4) in \<open>auto simp: pt image_iff\<close>)
    moreover have "mirrorPort old \<in> set (filter (\<lambda>p. is_mirror_port p
         \<and> p \<notin> set (map mirrorPort (map (newTapMirror (teVpcBridge env)) ms))) (map fst pmap))"
    proof -
      have "mirrorPort old \<in> set (map fst pmap)" using assms(8) by (simp add: map_of_eq_None_iff)
      moreover have "mirrorPort old \<notin> set (map mirrorPort (map (newTapMirror (teVpcBridge env)) ms))"
        using assms(7) by (auto simp: pt)
      ultimately show ?thesis by simp
    qed
    then have "pm sw3 (mirrorPort old) = None" using delete_mirror_ports_gone [OF assms(1)] 3 s by auto
    ultimately show ?thesis using s assms(5) by (simp add: mirrorName_def)
  qed
qed

section \<open>A switch\<close>

text \<open>A switch that is the map of its ports, and a host with one guest tap and one mirror of it.\<close>

definition demo_mirror :: mirrorConfig where
  "demo_mirror = \<lparr>mcTapHostIp = ''10.1.0.1'', mcHostIp = ''10.1.0.1'', mcPort = ''vnet1'', mcBridge = ''br0'', mcFlowId = 5,
     mcVlanId = 0, mcDirection = ''BOTH''\<rparr>"

definition demo_tap_cfg :: hostTapConfig where
  "demo_tap_cfg = \<lparr>htTaps = [\<lparr>tcTapHostIp = ''10.1.0.1'', tcMacAddr = ''00:22:00:00:00:07'', tcIfname = ''vnet7'', tcMirrors = [demo_mirror]\<rparr>],
     htMirrors = [demo_mirror]\<rparr>"

definition demo_tap_env :: "(string \<times> string) list tap_env" where
  "demo_tap_env = \<lparr>teTapBridge = ''brtap'', teVpcBridge = ''brvpc'', teHostId = ''h1'', teLinkUp = Inr (), teNics = Inr [],
     teTapFile = None, teApiConfig = Inr JNull, teParse = (\<lambda>_. Inr (JDict [(''data'', JArray [])])), teJsonText = (\<lambda>_. ''''),
     teUnmarshalConfig = (\<lambda>_. Inr demo_tap_cfg),
     teExec = (\<lambda>args sw. case added args of Some (p, br) \<Rightarrow> (gm_set sw p br, Inr ()) | None \<Rightarrow> (sw, Inr ())),
     teOutput = (\<lambda>_ _. Inr ''''),
     tePortToBridge = (\<lambda>p sw. case gm_get sw p of Some br \<Rightarrow> Inr br | None \<Rightarrow> Inl (Err ''no port'')),
     teDeletePort = (\<lambda>br p sw. if gm_get sw p \<in> {None, Some br} then (gm_del sw p, Inr ()) else (sw, Inl (Err ''other bridge''))),
     teListPorts = (\<lambda>br sw. Inr (filter (\<lambda>p. gm_get sw p = Some br) (map fst sw))),
     teDumpPort = (\<lambda>_ _ _. Inr 1), teUnmarshal = (\<lambda>_. Inr (ex_flow 0)), teHasFlowMan = True\<rparr>"

lemma demo_switch_laws: "switch_laws demo_tap_env gm_get"
proof -
  have "tePortToBridge demo_tap_env p sw = Inr br \<longleftrightarrow> gm_get sw p = Some br" for p sw br
    by (simp add: demo_tap_env_def split: option.splits)
  moreover have "set ps = {p. gm_get sw p = Some br}" if "teListPorts demo_tap_env br sw = Inr ps" for br sw ps
    using that map_of_SomeD by (force simp: demo_tap_env_def)
  moreover have "if is_ok r then gm_get sw' = (gm_get sw)(p := None) \<and> gm_get sw p \<in> {None, Some br} else gm_get sw' = gm_get sw"
    if "teDeletePort demo_tap_env br p sw = (sw', r)" for br p sw sw' r
    using that by (auto simp: demo_tap_env_def split: if_splits)
  moreover have "gm_get sw' = (case added args of None \<Rightarrow> gm_get sw | Some (p, br) \<Rightarrow> if is_ok r then (gm_get sw)(p \<mapsto> br) else gm_get sw)"
    if "teExec demo_tap_env args sw = (sw', r)" for args sw sw' r
    using that by (auto simp: demo_tap_env_def split: option.splits)
  ultimately show ?thesis unfolding switch_laws_def by blast
qed

definition demo_tap_sync :: "flow list option \<times> (string \<times> string) list \<times> unit result" where
  "demo_tap_sync = syncTapConfig demo_tap_env [(''vnet7'', ''br0''), (''stale'', ''brtap'')]"

lemma demo_tap_synced: "is_ok (snd (snd demo_tap_sync))"
  by code_simp


theorem moved_mirror_loses_port_witness:
  "\<exists>sw. sync_mirrors demo_tap_env [demo_mirror\<lparr>mcTapHostIp := ''10.1.0.2''\<rparr>]
      [(''m0005'', \<lparr>smMirror = ''m0005'', smBridge = ''br0'', smOutput = ''''\<rparr>)] [(''m-loc0005'', ''u1'')] [(''m-loc0005'', ''br0'')] = (sw, Inr ())
    \<and> gm_get sw ''m-loc0005'' = None \<and> gm_get sw ''m-gre0005'' = None"
proof -
  let ?m = "demo_mirror\<lparr>mcTapHostIp := ''10.1.0.2''\<rparr>"
  let ?mm = "[(''m0005'', \<lparr>smMirror = ''m0005'', smBridge = ''br0'', smOutput = ''''\<rparr>)]"
  let ?r = "sync_mirrors demo_tap_env [?m] ?mm [(''m-loc0005'', ''u1'')] [(''m-loc0005'', ''br0'')]"
  have "is_ok (snd ?r)" by code_simp
  then obtain u where "snd ?r = Inr u" by (cases "snd ?r") auto
  then have r: "?r = (fst ?r, Inr u)" by (metis surjective_pairing)
  have n: "mirrorPort demo_mirror = ''m-loc0005''" "mirrorPort ?m = ''m-gre0005''" "mirrorName ?m = ''m0005''" by code_simp+
  have "mirrorName demo_mirror = mirrorName ?m \<and> gm_get (fst ?r) (mirrorPort demo_mirror) = None \<and> gm_get (fst ?r) (mirrorPort ?m) = None"
    by (rule moved_mirror_loses_port [OF demo_switch_laws r, of ?m]) (simp_all add: n)
  with r n show ?thesis by (intro exI [of _ "fst ?r"]) simp
qed

section \<open>Names\<close>

lemma show_base_length:
  assumes "2 \<le> b" "0 \<le> n" "n < b ^ k" "0 < k"
  shows "length (show_base b n) \<le> k"
  using assms(2-)
proof (induction k arbitrary: n)
  case (Suc k)
  show ?case
  proof (cases "n < b")
    case True
    then show ?thesis by (simp add: show_base.simps [of b n])
  next
    case False
    have "k \<noteq> 0" using Suc.prems(2) False by (cases k) auto
    moreover have "n div b < b ^ k" 
    proof (rule ccontr)
      assume "\<not> n div b < b ^ k"
      then have "b * b ^ k \<le> b * (n div b)" using assms(1) by simp
      also have "\<dots> \<le> n" using assms(1) by (simp add: minus_mod_eq_mult_div [symmetric])
      finally show False using Suc.prems(2) by simp
    qed
    moreover have "0 \<le> n div b" using Suc.prems(1) assms(1) by (simp add: pos_imp_zdiv_nonneg_iff)
    ultimately have "length (show_base b (n div b)) \<le> k" using Suc.IH by simp
    with False assms(1) show ?thesis by (simp add: show_base.simps [of b n])
  qed
qed simp

lemma hex4_length: "length (hex4 w) = 4"
proof -
  have "uint w < 16 ^ 4" using uint_lt2p [of w] by simp
  then have "length (hex w) \<le> 4" unfolding hex_def by (intro show_base_length) auto
  then show ?thesis by (simp add: hex4_def)
qed

lemma parse_zeros: "0 \<le> maxv \<Longrightarrow> parse_digits 16 maxv 0 (replicate k (CHR ''0'') @ s) = parse_digits 16 maxv 0 s"
proof (induction k)
  case (Suc k)
  have "digit_val (CHR ''0'') = Some 0" by code_simp
  with Suc show ?case by simp
qed simp

lemma hex4_inj: "hex4 v = hex4 w \<longleftrightarrow> v = w"
proof
  assume e: "hex4 v = hex4 w"
  have p: "ParseUint (hex4 x) 16 16 = (uint x, None)" for x
  proof -
    have "ParseUint (hex4 x) 16 16 = ParseUint (hex x) 16 16"
      by (simp add: ParseUint_def hex4_def parse_zeros) (simp add: hex_def)
    also have "\<dots> = (uint x, None)"
      unfolding hex_def by (rule ParseUint_show) (use uint_lt2p [of x] in auto)
    finally show ?thesis .
  qed
  have "uint v = uint w" using p [of v] p [of w] e by simp
  then show "v = w" by transfer simp
qed simp

text \<open>The names of mirrors and ports are made of the 16 bits of the flow id: mirrors have the same
  name exactly if they have the same flow id, ports exactly if they also agree in whether the tap
  is on the same host; every name of a port has nine characters, within the limit of the kernel.\<close>

theorem mirror_names:
  "(mirrorName a = mirrorName b \<longleftrightarrow> mcFlowId a = mcFlowId b)
   \<and> (mirrorPort a = mirrorPort b \<longleftrightarrow> mcFlowId a = mcFlowId b \<and> (mcTapHostIp a = mcHostIp a \<longleftrightarrow> mcTapHostIp b = mcHostIp b))
   \<and> (tapPort a = tapPort b \<longleftrightarrow> mcFlowId a = mcFlowId b \<and> (mcTapHostIp a = mcHostIp a \<longleftrightarrow> mcTapHostIp b = mcHostIp b))
   \<and> tapPort a \<noteq> mirrorPort b \<and> length (mirrorPort a) = 9 \<and> length (tapPort a) = 9"
  by (simp add: mirrorName_def mirrorPort_def tapPort_def hex4_inj hex4_length LocalMirrorPrefix_def RemoteMirrorPrefix_def
      LocalTapPrefix_def RemoteTapPrefix_def)

section \<open>Tables\<close>

text \<open>The table of bridges as the switch prints it: a bridge with one mirror has its uuid, one with
  another number of mirrors a set.\<close>

definition mirrors_json :: "string list \<Rightarrow> json" where
  "mirrors_json us = (let uuid = (\<lambda>u. JArray [JString ''uuid'', JString u])
     in if length us = 1 then uuid (hd us) else JArray [JString ''set'', JArray (map uuid us)])"

definition bridge_table :: "(string \<times> string list) list \<Rightarrow> json" where
  "bridge_table rows = JDict [(''data'', JArray (map (\<lambda>(br, us). JArray [JString br, mirrors_json us]) rows)),
     (''headings'', JArray [JString ''name'', JString ''mirrors''])]"

lemma set_mirrors_uuids:
  "set_mirrors text br ret (map (\<lambda>u. JArray [JString ''uuid'', JString u]) us) = Inr (foldl (\<lambda>m u. gm_set m u br) ret us)"
  by (induction us arbitrary: ret) (simp_all add: GetArray_or_nil_def GetArray_def GetString_def)

lemma bridge_row:
  "\<exists>ms. GetArray (mirrors_json us) = Inr ms \<and> bridge_mirrors text br ret ms = Inr (foldl (\<lambda>m u. gm_set m u br) ret us)"
proof (cases "length us = 1")
  case True
  then obtain u where "us = [u]" by (cases us) auto
  then show ?thesis by (simp add: mirrors_json_def GetArray_def bridge_mirrors_def GetString_def)
next
  case False
  then show ?thesis
    by (simp add: mirrors_json_def GetArray_def bridge_mirrors_def GetString_def GetArray_or_nil_def set_mirrors_uuids)
qed

lemma foldl_set_get: "gm_get (foldl (\<lambda>m u. gm_set m u br) ret us) u = (if u \<in> set us then Some br else gm_get ret u)"
  by (induction us arbitrary: ret) auto

lemma bridge_rows:
  assumes "distinct (concat (map snd rows))" "set (concat (map snd rows)) \<inter> dom (gm_get ret) = {}"
  shows "\<exists>m. fetchMirrorIdBridge_rows text ret (map (\<lambda>(br, us). JArray [JString br, mirrors_json us]) rows) = Inr m
    \<and> (\<forall>u br. gm_get m u = Some br \<longleftrightarrow> gm_get ret u = Some br \<or> (\<exists>us. (br, us) \<in> set rows \<and> u \<in> set us))"
  using assms
proof (induction rows arbitrary: ret)
  case (Cons row rows)
  obtain b us where row: "row = (b, us)" by fastforce
  let ?ret = "foldl (\<lambda>m u. gm_set m u b) ret us"
  obtain ms where ms: "GetArray (mirrors_json us) = Inr ms" "bridge_mirrors text b ret ms = Inr ?ret" using bridge_row by blast
  have "distinct (concat (map snd rows))" "set (concat (map snd rows)) \<inter> dom (gm_get ?ret) = {}"
    using Cons.prems unfolding row by (auto simp: foldl_set_get dom_def split: if_splits)
  from Cons.IH [OF this] obtain m where m: "fetchMirrorIdBridge_rows text ?ret (map (\<lambda>(br, us). JArray [JString br, mirrors_json us]) rows) = Inr m"
    "\<forall>u br. gm_get m u = Some br \<longleftrightarrow> gm_get ?ret u = Some br \<or> (\<exists>us. (br, us) \<in> set rows \<and> u \<in> set us)" by blast
  have "fetchMirrorIdBridge_rows text ret (map (\<lambda>(br, us). JArray [JString br, mirrors_json us]) (row # rows)) = Inr m"
    using m(1) ms by (simp add: row GetArray_def [of "JArray _"] GetString_def)
  moreover have "gm_get m u = Some br \<longleftrightarrow> gm_get ret u = Some br \<or> (\<exists>us. (br, us) \<in> set (row # rows) \<and> u \<in> set us)" for u br
    using m(2) Cons.prems by (auto simp: row foldl_set_get dom_def split: if_splits)
  ultimately show ?case by blast
qed simp

text \<open>Reading the table of bridges that the switch prints gives for every mirror the bridge it is a
  mirror of, as every mirror is of one bridge only.\<close>

theorem bridge_table_roundtrip:
  assumes "distinct (concat (map snd rows))"
  shows "\<exists>m. fetchMirrorIdBridgeMapInternal text (bridge_table rows) = Inr m
    \<and> (\<forall>u br. gm_get m u = Some br \<longleftrightarrow> (\<exists>us. (br, us) \<in> set rows \<and> u \<in> set us))"
  using bridge_rows [OF assms, of "[]"]
  by (simp add: fetchMirrorIdBridgeMapInternal_def bridge_table_def GetArray_key_def GetArray_def)

theorem bridge_table_roundtrip_witness:
  "\<exists>m. fetchMirrorIdBridgeMapInternal (\<lambda>_. '''') (bridge_table [(''br0'', [''u1'', ''u2'']), (''br1'', []), (''br2'', [''u3''])]) = Inr m
   \<and> gm_get m ''u2'' = Some ''br0'' \<and> gm_get m ''u3'' = Some ''br2''"
  using bridge_table_roundtrip [of "[(''br0'', [''u1'', ''u2'']), (''br1'', []), (''br2'', [''u3''])]" "\<lambda>_. ''''"] by auto

end
