(* ===== verification/Janitor.thy ===== *)
theory Janitor
  imports Watcher TapMan
begin

text \<open>
  The janitor of the host's bridges, \<open>pkg/agent/server/ifaces.go\<close>: it deletes the ports of the bridges
  that belong neither to the host's networks nor to a card of a guest.  The commands it gives are
  values of \<open>jan_effect\<close>.
\<close>

section \<open>Maps of interfaces\<close>

type_synonym brIfaceMap = "(string, (string, unit) gomap) gomap"

definition brm_has :: "brIfaceMap \<Rightarrow> string \<Rightarrow> string \<Rightarrow> bool" where
  "brm_has m br iface =
     (case gm_get m br of None \<Rightarrow> False | Some ifaces \<Rightarrow> gm_get ifaces iface \<noteq> None)"

definition brm_add :: "brIfaceMap \<Rightarrow> string \<times> string \<Rightarrow> brIfaceMap" where
  "brm_add m = (\<lambda>(br, iface).
     case gm_get m br of
       None \<Rightarrow> gm_set m br [(iface, ())]
     | Some ifaces \<Rightarrow> gm_set m br (gm_set ifaces iface ()))"

text \<open>The pairs of a map, as nested loops visit them.\<close>

definition brm_pairs :: "brIfaceMap \<Rightarrow> (string \<times> string) list" where
  "brm_pairs m = concat (map (\<lambda>(br, ifaces). map (\<lambda>(iface, _). (br, iface)) ifaces) m)"

definition brm_Copy :: "brIfaceMap \<Rightarrow> brIfaceMap" where
  "brm_Copy m = foldl (\<lambda>cp (br, ifaces). gm_set cp br (foldl (\<lambda>c (iface, v). gm_set c iface v) [] ifaces)) [] m"

definition brm_mergeWith :: "brIfaceMap \<Rightarrow> brIfaceMap \<Rightarrow> brIfaceMap" where
  "brm_mergeWith m m1 = foldl brm_add m (brm_pairs m1)"

section \<open>The janitor\<close>

datatype jan_effect = JanPortDel string string | JanLinkDel string

record jan_env =
  jeConfig :: "HostConfig result"
  jeReadDir :: "string \<Rightarrow> (string \<times> bool) list result"
  jeParseRule :: "string \<Rightarrow> sec_rule result"
  jeWildRule :: "sec_rule \<Rightarrow> bool"
  jeDesc :: "string \<Rightarrow> guestDesc result"
  jeListPorts :: "string \<Rightarrow> string list result"
  jeLinkType :: "string \<Rightarrow> string option"

definition jan_guest :: "string \<Rightarrow> string \<Rightarrow> Guest" where
  "jan_guest i p = \<lparr>gId = i, gPath = p, gName = '''', gSecurityRules = None, gNICs = [], gVpcNICs = [], gHostId = '''',
     gSrcIpCheck = False, gSrcMacCheck = False, gIsSlave = False, gIsVolatileHost = False\<rparr>"

definition jan_load :: "jan_env \<Rightarrow> string \<Rightarrow> string \<Rightarrow> Guest \<times> unit result" where
  "jan_load env serversPath i =
     (let p = path_Join [serversPath, i]
      in LoadDesc (jeParseRule env) (jeWildRule env) (jeDesc env p) (jan_guest i p))"

fun scanDescs_loop :: "jan_env \<Rightarrow> string \<Rightarrow> brIfaceMap \<Rightarrow> (string \<times> bool) list \<Rightarrow> brIfaceMap result" where
  "scanDescs_loop env serversPath r [] = Inr r"
| "scanDescs_loop env serversPath r ((i, isDir) # fis) =
     (if \<not> isDir \<or> \<not> REGEX_UUID i then scanDescs_loop env serversPath r fis
      else case jan_load env serversPath i of
             (_, Inl e) \<Rightarrow> Inl e
           | (ug, Inr _) \<Rightarrow>
               scanDescs_loop env serversPath
                 (foldl brm_add r (map (\<lambda>nic. (nicBridge nic, nicIfnameHost nic)) (gNICs ug))) fis)"

definition scanDescs :: "jan_env \<Rightarrow> HostConfig \<Rightarrow> brIfaceMap result" where
  "scanDescs env hc =
     (let serversPath = optServersPath (hcOptions hc)
      in res_bind (jeReadDir env serversPath) (scanDescs_loop env serversPath []))"

text \<open>A link that exists is destroyed only if it is a tap or a veth device.\<close>

definition tryDestroy :: "jan_env \<Rightarrow> string \<times> string \<Rightarrow> jan_effect list" where
  "tryDestroy env = (\<lambda>(br, iface).
     case jeLinkType env iface of
       None \<Rightarrow> [JanPortDel br iface]
     | Some t \<Rightarrow> if t = ''veth'' \<or> t = ''tun'' then [JanPortDel br iface, JanLinkDel iface] else [])"

fun got_ports :: "jan_env \<Rightarrow> brIfaceMap \<Rightarrow> string list \<Rightarrow> brIfaceMap result" where
  "got_ports env gotMap [] = Inr gotMap"
| "got_ports env gotMap (br # brs) =
     res_bind (jeListPorts env br) (\<lambda>ports.
       got_ports env (foldl brm_add gotMap (map (\<lambda>p. (br, p)) (filter (\<lambda>p. \<not> is_mirror_port p) ports))) brs)"

definition janitor_scan :: "jan_env \<Rightarrow> jan_effect list result" where
  "janitor_scan env =
     res_bind (jeConfig env) (\<lambda>hc.
       let infraMap = foldl brm_add [] (map (\<lambda>n. (hcnBridge n, hcnIfname n)) (HostNetworkConfigs hc))
       in res_bind (got_ports env [] (map fst infraMap)) (\<lambda>gotMap.
            res_bind (scanDescs env hc) (\<lambda>serversMap.
              let wantMap = brm_mergeWith (brm_Copy infraMap) serversMap
              in Inr (concat (map (tryDestroy env) (filter (\<lambda>(br, iface). \<not> brm_has wantMap br iface) (brm_pairs gotMap)))))))"

section \<open>Maps as sets of pairs\<close>

text \<open>A map stands for a set of pairs, which its operations refine.\<close>

definition brm_set :: "brIfaceMap \<Rightarrow> (string \<times> string) set" where
  "brm_set m = {(br, i). brm_has m br i}"

definition brm_wf :: "brIfaceMap \<Rightarrow> bool" where
  "brm_wf m \<longleftrightarrow> gm_wf m \<and> (\<forall>br is. gm_get m br = Some is \<longrightarrow> gm_wf is)"

lemma brm_has_set: "brm_has m br i \<longleftrightarrow> (br, i) \<in> brm_set m"
  by (simp add: brm_set_def)

lemma brm_add_set: "brm_set (brm_add m p) = insert p (brm_set m)"
  by (cases p) (auto simp: brm_set_def brm_has_def brm_add_def split: option.splits if_splits)

lemma brm_add_wf: "brm_wf m \<Longrightarrow> brm_wf (brm_add m p)"
  by (cases p) (auto simp: brm_wf_def brm_add_def gm_wf_def [of "[_]"] split: option.splits if_splits)

lemma brm_adds: "brm_set (foldl brm_add m ps) = brm_set m \<union> set ps" "brm_wf m \<Longrightarrow> brm_wf (foldl brm_add m ps)"
  by (induction ps arbitrary: m) (auto simp: brm_add_set brm_add_wf)

lemma brm_empty [simp]: "brm_set [] = {}" "brm_wf []"
  by (simp_all add: brm_set_def brm_has_def brm_wf_def)

lemma brm_pairs_set:
  assumes "brm_wf m"
  shows "set (brm_pairs m) = brm_set m"
proof -
  have "(br, i) \<in> set (brm_pairs m) \<longleftrightarrow> (\<exists>is. (br, is) \<in> set m \<and> i \<in> fst ` set is)" for br i
    by (force simp: brm_pairs_def)
  also have "\<dots> br i \<longleftrightarrow> (\<exists>is. gm_get m br = Some is \<and> gm_get is i \<noteq> None)" for br i
    using assms by (simp add: brm_wf_def gm_wf_def map_of_eq_None_iff)
  finally have "(br, i) \<in> set (brm_pairs m) \<longleftrightarrow> (\<exists>is. gm_get m br = Some is \<and> gm_get is i \<noteq> None)" for br i .
  then show ?thesis by (auto simp: brm_set_def brm_has_def split: option.splits)
qed

lemma copy_get:
  "gm_wf xs \<Longrightarrow> gm_get (foldl (\<lambda>c (k, v). gm_set c k (f v)) ret xs) k =
     (case gm_get xs k of Some v \<Rightarrow> Some (f v) | None \<Rightarrow> gm_get ret k)"
proof (induction xs arbitrary: ret)
  case (Cons x xs)
  obtain a v where x: "x = (a, v)" by fastforce
  with Cons.prems have "gm_wf xs" "gm_get xs a = None" by (auto simp: gm_wf_def map_of_eq_None_iff)
  with Cons.IH [of "gm_set ret a (f v)"] show ?case by (simp add: x split: option.split)
qed simp

lemma brm_Copy_set:
  assumes "brm_wf m"
  shows "brm_set (brm_Copy m) = brm_set m"
proof -
  let ?cp = "\<lambda>is. foldl (\<lambda>c (iface, v). gm_set c iface v) [] is"
  have "gm_get (brm_Copy m) br = map_option ?cp (gm_get m br)" for br
    unfolding brm_Copy_def using copy_get [of m ?cp "[]" br] assms by (simp add: brm_wf_def split: option.splits)
  moreover have "gm_get (?cp is) i = gm_get is i" if "gm_get m br = Some is" for br "is" i
    using copy_get [of "is" "\<lambda>v. v" "[]" i] assms that by (auto simp: brm_wf_def split: option.splits)
  ultimately show ?thesis by (auto simp: brm_set_def brm_has_def split: option.splits)
qed

lemma brm_adds_bridges: "set (map fst (foldl brm_add m ps)) = set (map fst m) \<union> fst ` set ps"
proof (induction ps arbitrary: m)
  case (Cons p ps)
  have "set (map fst (brm_add m p)) = insert (fst p) (set (map fst m))"
    by (cases p) (auto simp: brm_add_def dom_update split: option.splits)
  with Cons show ?case by simp
qed simp

section \<open>What the janitor deletes\<close>

lemma got_ports_set:
  assumes "got_ports env m brs = Inr m'" "brm_wf m"
  shows "brm_wf m' \<and> brm_set m' = brm_set m
    \<union> {(br, p). br \<in> set brs \<and> (\<exists>ps. jeListPorts env br = Inr ps \<and> p \<in> set ps \<and> \<not> is_mirror_port p)}"
  using assms
proof (induction brs arbitrary: m)
  case (Cons br brs)
  then obtain ps where ps: "jeListPorts env br = Inr ps"
    "got_ports env (foldl brm_add m (map (\<lambda>p. (br, p)) (filter (\<lambda>p. \<not> is_mirror_port p) ps))) brs = Inr m'"
    by (auto simp: res_bind_Inr_iff)
  from Cons.IH [OF ps(2) brm_adds(2) [OF Cons.prems(2)]] ps(1) show ?case by (auto simp: brm_adds)
qed simp

text \<open>The cards that the descriptions of the guests have on the host's bridges.\<close>

definition described :: "jan_env \<Rightarrow> string \<Rightarrow> (string \<times> bool) list \<Rightarrow> (string \<times> string) set" where
  "described env serversPath fis = {(br, iface). \<exists>i g nic. (i, True) \<in> set fis \<and> REGEX_UUID i
     \<and> jan_load env serversPath i = (g, Inr ()) \<and> nic \<in> set (gNICs g) \<and> nicBridge nic = br \<and> nicIfnameHost nic = iface}"

lemma scanDescs_loop_set:
  assumes "scanDescs_loop env sp r fis = Inr m" "brm_wf r"
  shows "brm_wf m \<and> brm_set m = brm_set r \<union> described env sp fis"
  using assms
proof (induction fis arbitrary: r)
  case (Cons fi fis)
  obtain i d where fi: "fi = (i, d)" by fastforce
  show ?case
  proof (cases "d \<and> REGEX_UUID i")
    case False
    with Cons fi show ?thesis by (auto simp: described_def)
  next
    case True
    let ?ps = "\<lambda>g. map (\<lambda>nic. (nicBridge nic, nicIfnameHost nic)) (gNICs g)"
    obtain g where g: "jan_load env sp i = (g, Inr ())" "scanDescs_loop env sp (foldl brm_add r (?ps g)) fis = Inr m"
      using Cons.prems(1) True by (auto simp: fi split: prod.splits sum.splits)
    have "described env sp (fi # fis) = set (?ps g) \<union> described env sp fis"
      using True g(1) by (auto simp: described_def fi)
    with Cons.IH [OF g(2) brm_adds(2) [OF Cons.prems(2)]] show ?thesis by (auto simp: brm_adds)
  qed
qed (simp add: described_def)

text \<open>C29: a scan that succeeds deletes exactly the ports of the bridges of the host's networks that are
  no mirror port, no interface of the host's networks on that bridge, not the interface of a card of
  a guest with a description, and no network device of a kind other than tap and veth.  In
  particular a card of a guest never loses its port.\<close>

theorem janitor_exact:
  assumes "janitor_scan env = Inr es"
  shows "\<exists>hc fis. jeConfig env = Inr hc \<and> jeReadDir env (optServersPath (hcOptions hc)) = Inr fis
    \<and> (\<forall>br p. JanPortDel br p \<in> set es \<longleftrightarrow>
         br \<in> hcnBridge ` set (HostNetworkConfigs hc)
         \<and> (\<exists>ps. jeListPorts env br = Inr ps \<and> p \<in> set ps) \<and> \<not> is_mirror_port p
         \<and> (br, p) \<notin> (\<lambda>n. (hcnBridge n, hcnIfname n)) ` set (HostNetworkConfigs hc)
         \<and> (br, p) \<notin> described env (optServersPath (hcOptions hc)) fis
         \<and> jeLinkType env p \<in> {None, Some ''veth'', Some ''tun''})"
proof -
  obtain hc where hc: "jeConfig env = Inr hc" using assms by (auto simp: janitor_scan_def res_bind_Inr_iff)
  let ?ns = "map (\<lambda>n. (hcnBridge n, hcnIfname n)) (HostNetworkConfigs hc)"
  let ?infra = "foldl brm_add [] ?ns"
  let ?sp = "optServersPath (hcOptions hc)"
  from assms hc obtain got srv where g: "got_ports env [] (map fst ?infra) = Inr got" and s: "scanDescs env hc = Inr srv"
    and es: "es = concat (map (tryDestroy env) (filter (\<lambda>(br, iface). \<not> brm_has (brm_mergeWith (brm_Copy ?infra) srv) br iface) (brm_pairs got)))"
    by (auto simp: janitor_scan_def res_bind_Inr_iff Let_def)
  obtain fis where fis: "jeReadDir env ?sp = Inr fis" and srv: "scanDescs_loop env ?sp [] fis = Inr srv"
    using s by (auto simp: scanDescs_def Let_def res_bind_Inr_iff)
  have i: "brm_wf ?infra" "brm_set ?infra = set ?ns" using brm_adds [of "[]" ?ns] by auto
  have b: "set (map fst ?infra) = hcnBridge ` set (HostNetworkConfigs hc)"
    unfolding brm_adds_bridges by (simp add: image_image)
  note g' = got_ports_set [OF g brm_empty(2)] and s' = scanDescs_loop_set [OF srv brm_empty(2)]
  have w: "brm_has (brm_mergeWith (brm_Copy ?infra) srv) br p \<longleftrightarrow> (br, p) \<in> set ?ns \<union> described env ?sp fis" for br p
    using s' i brm_pairs_set [of srv] by (simp add: brm_has_set brm_mergeWith_def brm_adds brm_Copy_set)
  have "JanPortDel br p \<in> set es \<longleftrightarrow> (br, p) \<in> set (brm_pairs got) \<and> (br, p) \<notin> set ?ns \<union> described env ?sp fis
      \<and> JanPortDel br p \<in> set (tryDestroy env (br, p))" for br p
  proof -
    have "q = (br, p)" if "JanPortDel br p \<in> set (tryDestroy env q)" for q
      using that by (auto simp: tryDestroy_def split: option.splits if_splits prod.splits)
    then show ?thesis unfolding es by (auto simp: w split: prod.splits)
  qed
  moreover have "JanPortDel br p \<in> set (tryDestroy env (br, p)) \<longleftrightarrow> jeLinkType env p \<in> {None, Some ''veth'', Some ''tun''}" for br p
    by (auto simp: tryDestroy_def split: option.splits)
  moreover have "set (brm_pairs got) = {(br, p). br \<in> hcnBridge ` set (HostNetworkConfigs hc)
      \<and> (\<exists>ps. jeListPorts env br = Inr ps \<and> p \<in> set ps \<and> \<not> is_mirror_port p)}"
    using g' brm_pairs_set [of got] unfolding b by simp
  ultimately show ?thesis using hc fis by auto
qed

text \<open>A host with one guest and a port that nobody knows.\<close>

definition demo_jan_hc :: HostConfig where
  "demo_jan_hc = NewHostConfig (\<lambda>_. None) (\<lambda>_. None) demo_options"

definition demo_jan_env :: jan_env where
  "demo_jan_env = \<lparr>jeConfig = Inr demo_jan_hc, jeReadDir = (\<lambda>_. Inr [(''01234567-89ab-cdef-0123-456789abcdef'', True), (''tap-config.json'', False)]),
     jeParseRule = demo_parse, jeWildRule = demo_wild, jeDesc = (\<lambda>_. Inr demo_desc),
     jeListPorts = (\<lambda>_. Inr [''eth0'', ''vnet0'', ''vnet9'', ''m-loc0005'']), jeLinkType = (\<lambda>_. None)\<rparr>"

lemma demo_janitor:
  "is_ok (janitor_scan demo_jan_env)"
  "map (\<lambda>nic. (nicBridge nic, nicIfnameHost nic))
     (gNICs (fst (jan_load demo_jan_env ''/opt/servers'' ''01234567-89ab-cdef-0123-456789abcdef''))) = [(''br0'', ''vnet0'')]"
  "map (\<lambda>n. (hcnBridge n, hcnIfname n)) (HostNetworkConfigs demo_jan_hc) = [(''br0'', ''eth0''), (''brlocal'', '''')]"
  "optServersPath (hcOptions demo_jan_hc) = ''/opt/servers''" "\<not> is_mirror_port ''vnet9''"
  by code_simp+

theorem janitor_exact_witness:
  "\<exists>es. janitor_scan demo_jan_env = Inr es \<and> JanPortDel ''br0'' ''vnet9'' \<in> set es"
proof -
  let ?i = "''01234567-89ab-cdef-0123-456789abcdef''"
  obtain es where es: "janitor_scan demo_jan_env = Inr es"
    using demo_janitor(1) by (metis is_ok_simps(2) sumE)
  obtain hc fis where c: "jeConfig demo_jan_env = Inr hc" "jeReadDir demo_jan_env (optServersPath (hcOptions hc)) = Inr fis"
    and x: "\<forall>br p. JanPortDel br p \<in> set es \<longleftrightarrow>
         br \<in> hcnBridge ` set (HostNetworkConfigs hc)
         \<and> (\<exists>ps. jeListPorts demo_jan_env br = Inr ps \<and> p \<in> set ps) \<and> \<not> is_mirror_port p
         \<and> (br, p) \<notin> (\<lambda>n. (hcnBridge n, hcnIfname n)) ` set (HostNetworkConfigs hc)
         \<and> (br, p) \<notin> described demo_jan_env (optServersPath (hcOptions hc)) fis
         \<and> jeLinkType demo_jan_env p \<in> {None, Some ''veth'', Some ''tun''}"
    using janitor_exact [OF es] by blast
  have hc: "hc = demo_jan_hc" "fis = [(?i, True), (''tap-config.json'', False)]" using c by (simp_all add: demo_jan_env_def)
  have n: "(\<lambda>n. (hcnBridge n, hcnIfname n)) ` set (HostNetworkConfigs demo_jan_hc) = {(''br0'', ''eth0''), (''brlocal'', '''')}"
    using arg_cong [OF demo_janitor(3), of set] by simp
  then have "hcnBridge ` set (HostNetworkConfigs demo_jan_hc) = fst ` {(''br0'', ''eth0''), (''brlocal'', '''')}"
    by (metis (no_types, lifting) fst_conv image_cong image_image)
  moreover have "described demo_jan_env ''/opt/servers'' fis \<subseteq> {(''br0'', ''vnet0'')}"
  proof
    fix q assume "q \<in> described demo_jan_env ''/opt/servers'' fis"
    then obtain i g nic where "(i, True) \<in> set fis" "jan_load demo_jan_env ''/opt/servers'' i = (g, Inr ())" "nic \<in> set (gNICs g)"
      "q = (nicBridge nic, nicIfnameHost nic)" unfolding described_def by blast
    moreover from this(1) have "i = ?i" by (simp add: hc(2))
    ultimately have "q \<in> set (map (\<lambda>nic. (nicBridge nic, nicIfnameHost nic)) (gNICs (fst (jan_load demo_jan_env ''/opt/servers'' ?i))))"
      by simp
    then show "q \<in> {(''br0'', ''vnet0'')}" unfolding demo_janitor(2) by simp
  qed
  ultimately have "JanPortDel ''br0'' ''vnet9'' \<in> set es"
    using x demo_janitor(4,5) n unfolding hc(1) by (auto simp: demo_jan_env_def)
  with es show ?thesis by blast
qed

end
