(* ===== verification/Agent.thy ===== *)
theory Agent
  imports FlowMan GoStr
begin

text \<open>
  The table of flow managers, \<open>GetFlowMan\<close> of \<open>pkg/agent/server/server.go\<close>, the remote procedures on
  flows, \<open>pkg/agent/server/openflow.go\<close> with \<open>pkg/agent/proto/flow.go\<close>, and the cache of port numbers,
  \<open>pkg/agent/utils/cache_port_stats.go\<close>.  Times are nanoseconds.
\<close>

section \<open>The table of flow managers\<close>

record agentServer =
  asFlowMans :: "(string, flow_man) gomap"
  asErrorBridges :: "(string, int) gomap"

definition newAgentServer :: agentServer where
  "newAgentServer = \<lparr>asFlowMans = [], asErrorBridges = []\<rparr>"

definition errorBridgeTTL :: int where "errorBridgeTTL = 5 * 60 * 10 ^ 9"

text \<open>\<open>GetByKey\<close> of the store of bridges with an error: an entry older than its time to live is taken out
  and not found.\<close>

definition error_recent :: "int \<Rightarrow> string \<Rightarrow> agentServer \<Rightarrow> agentServer \<times> bool" where
  "error_recent now br s =
     (case gm_get (asErrorBridges s) br of
        None \<Rightarrow> (s, False)
      | Some t \<Rightarrow> if now - t > errorBridgeTTL then (s\<lparr>asErrorBridges := gm_del (asErrorBridges s) br\<rparr>, False) else (s, True))"

text \<open>\<open>bridge_exists\<close> is what the switch says of the bridge.\<close>

definition GetFlowMan :: "(string \<Rightarrow> unit result) \<Rightarrow> int \<Rightarrow> string \<Rightarrow> agentServer \<Rightarrow> agentServer \<times> flow_man option" where
  "GetFlowMan bridge_exists now br s =
     (case gm_get (asFlowMans s) br of
        Some fm \<Rightarrow> (s, Some fm)
      | None \<Rightarrow>
          let (s, recent) = error_recent now br s
          in if recent then (s, None)
             else case NewFlowMan bridge_exists br of
                    Inl e \<Rightarrow> (s\<lparr>asErrorBridges := gm_set (asErrorBridges s) br now\<rparr>, None)
                  | Inr fm \<Rightarrow> (s\<lparr>asFlowMans := gm_set (asFlowMans s) br fm\<rparr>, Some fm))"

section \<open>Remote procedures on flows\<close>

record pbFlow =
  pbCookie :: "64 word"
  pbTable :: "32 word"
  pbPriority :: "32 word"
  pbMatches :: string
  pbActions :: string

definition OvsFlow_text :: "pbFlow \<Rightarrow> string" where
  "OvsFlow_text f = join '',''
     ((if pbCookie f \<noteq> 0 then [''cookie=0x'' @ show_base 16 (uint (pbCookie f))] else [])
      @ (if pbTable f \<noteq> 0 then [''table='' @ show_int (uint (pbTable f))] else [])
      @ [''priority='' @ show_int (uint (pbPriority f)), pbMatches f, ''actions='' @ pbActions f])"

definition OvsFlow :: "(string \<Rightarrow> flow result) \<Rightarrow> pbFlow \<Rightarrow> flow result" where
  "OvsFlow unmarshal f = unmarshal (OvsFlow_text f)"

record pbResponse =
  respCode :: int
  respMesg :: string

definition newResponse :: "string option \<Rightarrow> pbResponse" where
  "newResponse err = (case err of None \<Rightarrow> \<lparr>respCode = 0, respMesg = ''ok''\<rparr> | Some m \<Rightarrow> \<lparr>respCode = 1, respMesg = m\<rparr>)"

text \<open>A call: the agent, the commands sent to flow managers, the answer or the panic.  The manager that
  \<open>GetFlowMan\<close> returns is used without a test for nil.\<close>

type_synonym rpc_out = "agentServer \<times> (string \<times> flowManCmd) list \<times> pbResponse result"

definition send_to :: "(string \<Rightarrow> unit result) \<Rightarrow> int \<Rightarrow> string \<Rightarrow> flowManCmd \<Rightarrow> agentServer \<Rightarrow> rpc_out" where
  "send_to bridge_exists now br cmd s =
     (case GetFlowMan bridge_exists now br s of
        (s, None) \<Rightarrow> (s, [], Inl (Panic ''nil pointer dereference''))
      | (s, Some fm) \<Rightarrow> (s, [(bridge fm, cmd)], Inr (newResponse None)))"

definition conversion_error :: "go_error \<Rightarrow> string" where
  "conversion_error e = ''conversion to ovs.Flow error: '' @ (case e of Err m \<Rightarrow> m | Panic m \<Rightarrow> m)"

definition rpc_AddFlow :: "(string \<Rightarrow> flow result) \<Rightarrow> (string \<Rightarrow> unit result) \<Rightarrow> int \<Rightarrow> string \<Rightarrow> pbFlow \<Rightarrow> agentServer \<Rightarrow> rpc_out" where
  "rpc_AddFlow unmarshal bridge_exists now br f s =
     (case OvsFlow unmarshal f of
        Inl e \<Rightarrow> (s, [], Inr (newResponse (Some (conversion_error e))))
      | Inr of' \<Rightarrow> send_to bridge_exists now br (AddFlowCmd of') s)"

definition rpc_DelFlow :: "(string \<Rightarrow> flow result) \<Rightarrow> (string \<Rightarrow> unit result) \<Rightarrow> int \<Rightarrow> string \<Rightarrow> pbFlow \<Rightarrow> agentServer \<Rightarrow> rpc_out" where
  "rpc_DelFlow unmarshal bridge_exists now br f s =
     (case OvsFlow unmarshal f of
        Inl e \<Rightarrow> (s, [], Inr (newResponse (Some (conversion_error e))))
      | Inr of' \<Rightarrow> send_to bridge_exists now br (DelFlowCmd of') s)"

definition rpc_SyncFlows :: "(string \<Rightarrow> unit result) \<Rightarrow> int \<Rightarrow> string \<Rightarrow> agentServer \<Rightarrow> rpc_out" where
  "rpc_SyncFlows bridge_exists now br s = send_to bridge_exists now br SyncFlowsCmd s"

section \<open>The cache of port numbers\<close>

record portStatsData =
  psdPortStats :: int
  psdCreated :: int

type_synonym PortStatsCache = "(string, portStatsData) gomap"

definition stalePeriod :: int where "stalePeriod = 3 * 10 ^ 9"
definition cacheLimit :: nat where "cacheLimit = 2048"

definition staled :: "int \<Rightarrow> portStatsData \<Rightarrow> bool" where
  "staled now data \<longleftrightarrow> now - psdCreated data \<ge> stalePeriod"

definition cleanStales :: "int \<Rightarrow> PortStatsCache \<Rightarrow> PortStatsCache" where
  "cleanStales now store = filter (\<lambda>(_, v). \<not> staled now v) store"

text \<open>\<open>DumpPort\<close>: \<open>cli\<close> asks the switch.  The cleaning that a full cache starts runs beside it and takes only
  stale entries out; it is the separate step \<open>cleanStales\<close>.\<close>

definition cache_key :: "string \<Rightarrow> string \<Rightarrow> string" where
  "cache_key br port = br @ '','' @ port"

definition cache_DumpPort ::
  "(string \<Rightarrow> string \<Rightarrow> int result) \<Rightarrow> int \<Rightarrow> string \<Rightarrow> string \<Rightarrow> PortStatsCache \<Rightarrow> PortStatsCache \<times> int result" where
  "cache_DumpPort cli now br port store =
     (let key = cache_key br port;
          ask = (case cli br port of
                   Inl e \<Rightarrow> (store, Inl e)
                 | Inr ps \<Rightarrow> (gm_set store key \<lparr>psdPortStats = ps, psdCreated = now\<rparr>, Inr ps))
      in case gm_get store key of
           Some data \<Rightarrow> if \<not> staled now data then (store, Inr (psdPortStats data)) else ask
         | None \<Rightarrow> ask)"

section \<open>OVS commands\<close>

text \<open>\<open>ExecOvsctl\<close> of \<open>pkg/agent/utils/ovsctl.go\<close>: \<open>exec\<close> runs the command; its error is wrapped with the text of
  the command, one line per command of a transaction.\<close>

definition ovsctl_text :: "string list \<Rightarrow> string" where
  "ovsctl_text args = concat (map (\<lambda>arg. (if arg \<noteq> ''--'' then '' '' else [CHR '' '', CHR 0x5C, CHR 0x0A, CHR '' '', CHR '' '']) @ arg) args)"

definition ExecOvsctl :: "(string list \<Rightarrow> string result) \<Rightarrow> string list \<Rightarrow> string result" where
  "ExecOvsctl exec args =
     (if args = [] then Inl (Panic ''exec: empty args'')
      else case exec args of
             Inl (Err e) \<Rightarrow> Inl (Err (ovsctl_text args @ '': '' @ e))
           | r \<Rightarrow> r)"

lemma ExecOvsctl_output: "args \<noteq> [] \<Longrightarrow> ExecOvsctl exec args = Inr out \<longleftrightarrow> exec args = Inr out"
  by (auto simp: ExecOvsctl_def split: sum.splits go_error.splits)

section \<open>One manager per bridge\<close>

inductive agent_reach :: "agentServer \<Rightarrow> bool" where
  agent_new: "agent_reach newAgentServer"
| agent_get: "agent_reach s \<Longrightarrow> agent_reach (fst (GetFlowMan ex now br s))"

lemma error_recent_mans [simp]: "asFlowMans (fst (error_recent now br s)) = asFlowMans s"
  by (simp add: error_recent_def split: option.split)

lemma GetFlowMan_cases:
  obtains (known) fm where "gm_get (asFlowMans s) br = Some fm" "GetFlowMan ex now br s = (s, Some fm)"
  | (failed) s' where "gm_get (asFlowMans s) br = None" "GetFlowMan ex now br s = (s', None)" "asFlowMans s' = asFlowMans s"
  | (new) fm s' where "gm_get (asFlowMans s) br = None" "NewFlowMan ex br = Inr fm" "GetFlowMan ex now br s = (s', Some fm)"
      "asFlowMans s' = gm_set (asFlowMans s) br fm"
proof (cases "gm_get (asFlowMans s) br")
  case None
  obtain s1 r where e: "error_recent now br s = (s1, r)" by fastforce
  with error_recent_mans [of now br s] have m: "asFlowMans s1 = asFlowMans s" by simp
  show ?thesis
  proof (cases "r \<or> \<not> is_ok (NewFlowMan ex br)")
    case True
    then have "\<exists>s'. GetFlowMan ex now br s = (s', None) \<and> asFlowMans s' = asFlowMans s"
      using None e m by (cases "NewFlowMan ex br") (auto simp: GetFlowMan_def)
    with None failed show ?thesis by blast
  next
    case False
    then obtain fm where "NewFlowMan ex br = Inr fm" by (cases "NewFlowMan ex br") auto
    with False None e m new show ?thesis by (auto simp: GetFlowMan_def)
  qed
next
  case (Some fm)
  with known show ?thesis by (simp add: GetFlowMan_def)
qed

lemma agent_reach_bridge:
  assumes "agent_reach s" "gm_get (asFlowMans s) br = Some fm"
  shows "bridge fm = br"
  using assms
proof (induction arbitrary: br fm rule: agent_reach.induct)
  case agent_new
  then show ?case by (simp add: newAgentServer_def)
next
  case (agent_get s ex now b)
  show ?case
  proof (cases rule: GetFlowMan_cases [of s b ex now])
    case (new fm' s')
    then have "bridge fm' = b" by (auto simp: NewFlowMan_def res_bind_Inr_iff split: if_splits)
    with new agent_get show ?thesis by (auto split: if_splits)
  qed (use agent_get in auto)
qed

text \<open>A manager that is in the table stays there.\<close>

lemma GetFlowMan_keeps:
  "gm_get (asFlowMans s) br = Some fm \<Longrightarrow> gm_get (asFlowMans (fst (GetFlowMan ex now b s))) br = Some fm"
  by (cases rule: GetFlowMan_cases [of s b ex now]) auto

text \<open>\<open>GetFlowMan\<close> returns the manager of the bridge it is asked for, and the same one from then on; if
  it cannot create one, it does not try again for five minutes, whatever the switch says then.\<close>

theorem GetFlowMan_once:
  assumes "agent_reach s" "GetFlowMan ex now br s = (s', r)"
  shows "case r of
      Some fm \<Rightarrow> bridge fm = br \<and> GetFlowMan ex' later br s' = (s', Some fm)
    | None \<Rightarrow> gm_get (asErrorBridges s') br \<noteq> None
        \<and> (\<forall>t. gm_get (asErrorBridges s') br = Some t \<longrightarrow> later \<le> t + errorBridgeTTL \<longrightarrow> GetFlowMan ex' later br s' = (s', None))"
proof (cases r)
  case (Some fm)
  have "gm_get (asFlowMans s') br = Some fm"
    using assms(2) Some by (cases rule: GetFlowMan_cases [of s br ex now]) auto
  moreover have "agent_reach s'" using agent_get [OF assms(1), of ex now br] assms(2) by simp
  ultimately show ?thesis using agent_reach_bridge Some by (simp add: GetFlowMan_def)
next
  case None
  have m: "gm_get (asFlowMans s') br = None"
    using assms(2) None by (cases rule: GetFlowMan_cases [of s br ex now]) auto
  have "gm_get (asErrorBridges s') br \<noteq> None"
    using assms(2) None
    by (auto simp: GetFlowMan_def error_recent_def split: option.splits sum.splits if_splits)
  moreover have "GetFlowMan ex' later br s' = (s', None)"
    if "gm_get (asErrorBridges s') br = Some t" "later \<le> t + errorBridgeTTL" for t
    using that m by (simp add: GetFlowMan_def error_recent_def)
  ultimately show ?thesis using None by auto
qed


section \<open>Answers of the cache\<close>

text \<open>The history of a cache: at every time the switch answers as it is then.  Entries remember an answer
  that the switch gave when they were created.\<close>

inductive cache_reach :: "(int \<Rightarrow> string \<Rightarrow> string \<Rightarrow> int result) \<Rightarrow> int \<Rightarrow> PortStatsCache \<Rightarrow> bool" for cli where
  cache_new: "cache_reach cli now []"
| cache_dump: "cache_reach cli now store \<Longrightarrow> now \<le> t \<Longrightarrow> CHR '','' \<notin> set br \<Longrightarrow>
    cache_reach cli t (fst (cache_DumpPort (cli t) t br p store))"
| cache_clean: "cache_reach cli now store \<Longrightarrow> now \<le> t \<Longrightarrow> cache_reach cli t (cleanStales t store)"

definition cache_inv :: "(int \<Rightarrow> string \<Rightarrow> string \<Rightarrow> int result) \<Rightarrow> int \<Rightarrow> PortStatsCache \<Rightarrow> bool" where
  "cache_inv cli now store \<longleftrightarrow> (\<forall>k d. (k, d) \<in> set store \<longrightarrow>
     psdCreated d \<le> now \<and> (\<exists>br p. k = cache_key br p \<and> CHR '','' \<notin> set br \<and> cli (psdCreated d) br p = Inr (psdPortStats d)))"

interpretation port_key: sep_key cache_key "CHR '',''"
  by unfold_locales (simp add: cache_key_def)

lemma cache_key_inj:
  assumes "cache_key br p = cache_key br' p'" "CHR '','' \<notin> set br" "CHR '','' \<notin> set br'"
  shows "br = br' \<and> p = p'"
  using assms by (rule port_key.key_inj)

lemma cache_inv_set:
  assumes "cache_inv cli now store" "cli now br p = Inr n" "CHR '','' \<notin> set br"
  shows "cache_inv cli now (gm_set store (cache_key br p) \<lparr>psdPortStats = n, psdCreated = now\<rparr>)"
proof -
  have "set (gm_set store k v) \<subseteq> insert (k, v) (set store)" for k and v :: portStatsData
    by (induction store) auto
  then have "e = (cache_key br p, \<lparr>psdPortStats = n, psdCreated = now\<rparr>) \<or> e \<in> set store"
    if "e \<in> set (gm_set store (cache_key br p) \<lparr>psdPortStats = n, psdCreated = now\<rparr>)" for e using that by blast
  with assms show ?thesis unfolding cache_inv_def by (metis order_refl prod.inject portStatsData.select_convs)
qed

lemma cache_inv_later: "cache_inv cli now store \<Longrightarrow> now \<le> t \<Longrightarrow> cache_inv cli t store"
  unfolding cache_inv_def by fastforce

lemma cache_reach_inv: "cache_reach cli now store \<Longrightarrow> cache_inv cli now store"
proof (induction rule: cache_reach.induct)
  case (cache_new now)
  show ?case by (simp add: cache_inv_def)
next
  case (cache_dump now store t br p)
  have i: "cache_inv cli t store" using cache_dump cache_inv_later by blast
  then show ?case
    using cache_inv_set [OF i _ cache_dump.hyps(3)]
    by (auto simp: cache_DumpPort_def Let_def split: option.splits sum.splits)
next
  case (cache_clean now store t)
  then have "cache_inv cli t store" using cache_inv_later by blast
  then show ?case by (auto simp: cache_inv_def cleanStales_def)
qed


section \<open>Examples\<close>

definition demo_exists :: "string \<Rightarrow> unit result" where
  "demo_exists br = (if br = ''br0'' then Inr () else Inl (Err ''no bridge''))"

theorem GetFlowMan_once_witness:
  "GetFlowMan demo_exists 0 ''br9'' newAgentServer = (newAgentServer\<lparr>asErrorBridges := [(''br9'', 0)]\<rparr>, None)
   \<and> GetFlowMan (\<lambda>_. Inr ()) 300000000000 ''br9'' (newAgentServer\<lparr>asErrorBridges := [(''br9'', 0)]\<rparr>)
     = (newAgentServer\<lparr>asErrorBridges := [(''br9'', 0)]\<rparr>, None)"
proof -
  have g: "GetFlowMan demo_exists 0 ''br9'' newAgentServer = (newAgentServer\<lparr>asErrorBridges := [(''br9'', 0)]\<rparr>, None)"
    by (simp add: GetFlowMan_def newAgentServer_def error_recent_def NewFlowMan_def demo_exists_def)
  from GetFlowMan_once [OF agent_new g, where later = 300000000000 and ex' = "\<lambda>_. Inr ()"] g show ?thesis by (simp add: errorBridgeTTL_def)
qed

definition demo_pb_flow :: pbFlow where
  "demo_pb_flow = \<lparr>pbCookie = 0, pbTable = 0, pbPriority = 100, pbMatches = ''in_port=1'', pbActions = ''normal''\<rparr>"



end
