(* ===== verification/Forward.thy ===== *)
theory Forward
  imports OvnMd
begin

text \<open>
  The port forwards of the VPC metadata servers at work, \<open>Serve\<close>, \<open>dial\<close> and \<open>serveConn\<close> of
  \<open>pkg/agent/server/ovn-md.go\<close>.

  A forwarded connection is copied by four goroutines, a reader and a writer for each of its two
  sides; the reader of a side hands what it has read to the writer of the other side over a channel
  without buffer.  A fifth goroutine closes both connections when the context is cancelled.  The model
  is a transition system: \<open>fwd_do\<close> performs one action of one goroutine, or none when the action is not
  possible, and the runs are all sequences of actions.  What a connection reads, and how much of a
  write it accepts, is chosen by the action; a closed connection fails.
\<close>

section \<open>Network namespaces\<close>

text \<open>
  \<open>nsRun_\<close> (here \<open>nsRun_base\<close>) runs a function on a thread of its own and puts that thread back into the namespace the caller was in;
  \<open>nsRun\<close> moves the thread into the namespace of the server first.  A function maps the namespace of its thread
  to the one it leaves the thread in and its result; \<open>set_ok\<close> says which namespaces the kernel lets a thread
  enter.
\<close>

type_synonym 'a ns_fun = "string \<Rightarrow> string \<times> 'a result"

definition nsRun_base :: "string result \<Rightarrow> (string \<Rightarrow> bool) \<Rightarrow> 'a ns_fun \<Rightarrow> 'a ns_fun" where
  "nsRun_base getNs set_ok f ns =
     (case getNs of
        Inl (Err e) \<Rightarrow> (ns, Inl (Err (''get current net ns: '' @ e)))
      | Inl (Panic e) \<Rightarrow> (ns, Inl (Panic e))
      | Inr origNs \<Rightarrow> let (ns', r) = f ns in (if set_ok origNs then origNs else ns', r))"

definition nsRun :: "string result \<Rightarrow> (string \<Rightarrow> bool) \<Rightarrow> string \<Rightarrow> 'a ns_fun \<Rightarrow> 'a ns_fun" where
  "nsRun getNs set_ok server_ns f =
     nsRun_base getNs set_ok
       (\<lambda>ns. if set_ok server_ns then f server_ns else (ns, Inl (Err (''nsRun: set netns '' @ server_ns))))"

text \<open>Whatever the function does, its thread is put back, and it runs in the namespace of the server or not at
  all.\<close>

lemma nsRun_restores:
  assumes "set_ok origNs"
  shows "fst (nsRun (Inr origNs) set_ok server_ns f ns) = origNs"
    and "snd (nsRun (Inr origNs) set_ok server_ns f ns) =
      (if set_ok server_ns then snd (f server_ns) else Inl (Err (''nsRun: set netns '' @ server_ns)))"
  using assms by (simp_all add: nsRun_def nsRun_base_def split: prod.split)

section \<open>Dialling\<close>

text \<open>\<open>dialTCP\<close> is a connection attempt from a namespace.\<close>

definition forward_dial :: "(string \<Rightarrow> string \<Rightarrow> int \<Rightarrow> unit result) \<Rightarrow> ovnMdForward \<Rightarrow> string \<Rightarrow> unit result" where
  "forward_dial dialTCP f ns =
     (if fwProto f = ''tcp'' then
        (case dialTCP ns (fwRemoteAddr f) (fwRemotePort f) of
           Inl (Err e) \<Rightarrow> Inl (Err (fwProto f @ '' dial: '' @ e))
         | r \<Rightarrow> r)
      else Inl (Err (''unknown protocol: '' @ fwProto f)))"

section \<open>The state of a forwarded connection\<close>

datatype side = Local | Remote

fun other :: "side \<Rightarrow> side" where
  "other Local = Remote"
| "other Remote = Local"

lemma other_other [simp]: "other (other s) = s"
  by (cases s) auto

lemma other_neq [simp]: "other s \<noteq> s" "s \<noteq> other s"
  by (cases s; simp)+

text \<open>
  Where a reader is: in \<open>Read\<close>, in the \<open>select\<close> that offers what it read, past its loop with the deferred
  calls to come, past \<open>wg.Done\<close>, and ended with its error assigned to the variable of \<open>rwfunc\<close>.  The
  assignment comes after \<open>wg.Done\<close>, which is a deferred call of the function whose result is assigned.
\<close>

datatype reader = RRead | RSend string | RLeft "go_error option" | RDone "go_error option" | REnd "go_error option"

datatype writer = WRecv | WWrite string | WLeft "go_error option" | WDone "go_error option" | WEnd "go_error option"

record fwd_conn =
  fcReader :: "side \<Rightarrow> reader"
  fcWriter :: "side \<Rightarrow> writer"
  fcRead :: "side \<Rightarrow> string"
  fcWritten :: "side \<Rightarrow> string"
  fcClosed :: "side \<Rightarrow> bool"
  fcRw :: "side \<Rightarrow> go_error list option"
  fcParent :: bool
  fcCancelled :: bool
  fcCloser :: bool
  fcResult :: "go_error list option"

text \<open>
  \<open>fcRead\<close> and \<open>fcWritten\<close> are all bytes read from and written to a side so far; \<open>fcRw\<close> is the result of
  \<open>rwfunc\<close> for a side, once it has returned, and \<open>fcResult\<close> the result of \<open>serveConn\<close>, each the list of the
  errors in the aggregate (the empty list is nil); \<open>fcCloser\<close> says that the closing goroutine still waits.
\<close>

definition serveConn_init :: fwd_conn where
  "serveConn_init = \<lparr>fcReader = (\<lambda>_. RRead), fcWriter = (\<lambda>_. WRecv), fcRead = (\<lambda>_. ''''), fcWritten = (\<lambda>_. ''''),
     fcClosed = (\<lambda>_. False), fcRw = (\<lambda>_. None), fcParent = False, fcCancelled = False, fcCloser = True, fcResult = None\<rparr>"

text \<open>The start of \<open>serveConn\<close>: without the remote connection the local one is closed.\<close>

definition serveConn ::
  "(string \<Rightarrow> string \<Rightarrow> int \<Rightarrow> unit result) \<Rightarrow> string result \<Rightarrow> (string \<Rightarrow> bool) \<Rightarrow> string \<Rightarrow> ovnMdForward \<Rightarrow> string
    \<Rightarrow> string \<times> fwd_conn result" where
  "serveConn dialTCP getNs set_ok server_ns f ns =
     (case nsRun getNs set_ok server_ns (\<lambda>ns. (ns, forward_dial dialTCP f ns)) ns of
        (ns', Inl (Err e)) \<Rightarrow> (ns', Inl (Err (''dial remote: '' @ e)))
      | (ns', Inl (Panic e)) \<Rightarrow> (ns', Inl (Panic e))
      | (ns', Inr _) \<Rightarrow> (ns', Inr serveConn_init))"

text \<open>A connection is copied only when its remote end was reached from the namespace of the server; the thread
  is back in its own namespace.\<close>

lemma serveConn_dials:
  assumes "set_ok origNs" "serveConn dialTCP (Inr origNs) set_ok server_ns f ns = (ns', r)"
  shows "ns' = origNs"
    and "r = Inr c \<Longrightarrow> c = serveConn_init \<and> fwProto f = ''tcp'' \<and> dialTCP server_ns (fwRemoteAddr f) (fwRemotePort f) = Inr ()"
proof -
  let ?r = "nsRun (Inr origNs) set_ok server_ns (\<lambda>ns. (ns, forward_dial dialTCP f ns)) ns"
  have f: "fst ?r = origNs" by (rule nsRun_restores(1)) (rule assms(1))
  have s: "snd ?r = (if set_ok server_ns then forward_dial dialTCP f server_ns
      else Inl (Err (''nsRun: set netns '' @ server_ns)))"
    using nsRun_restores(2) [of set_ok origNs server_ns "\<lambda>ns. (ns, forward_dial dialTCP f ns)" ns, OF assms(1)]
    unfolding snd_conv .
  obtain ns1 r1 where r: "?r = (ns1, r1)" by (rule prod.exhaust)
  have ns1: "ns1 = origNs" using f unfolding r fst_conv .
  have r1: "serveConn dialTCP (Inr origNs) set_ok server_ns f ns =
      (ns1, case r1 of Inl (Err e) \<Rightarrow> Inl (Err (''dial remote: '' @ e)) | Inl (Panic e) \<Rightarrow> Inl (Panic e) | Inr _ \<Rightarrow> Inr serveConn_init)"
    unfolding serveConn_def r by (simp split: sum.split go_error.split)
  show "ns' = origNs" using assms(2) unfolding r1 ns1 by (rule Pair_inject) (rule sym)
  assume "r = Inr c"
  then have "r1 = Inr () \<and> c = serveConn_init"
    using assms(2) unfolding r1 by (cases r1) (auto split: go_error.splits)
  then show "c = serveConn_init \<and> fwProto f = ''tcp'' \<and> dialTCP server_ns (fwRemoteAddr f) (fwRemotePort f) = Inr ()"
    using s unfolding r snd_conv by (auto simp: forward_dial_def split: if_splits sum.splits go_error.splits)
qed

section \<open>The actions\<close>

abbreviation set_reader :: "side \<Rightarrow> reader \<Rightarrow> fwd_conn \<Rightarrow> fwd_conn" where
  "set_reader s r c \<equiv> c\<lparr>fcReader := (fcReader c)(s := r)\<rparr>"

abbreviation set_writer :: "side \<Rightarrow> writer \<Rightarrow> fwd_conn \<Rightarrow> fwd_conn" where
  "set_writer s w c \<equiv> c\<lparr>fcWriter := (fcWriter c)(s := w)\<rparr>"

definition rwbuf :: nat where "rwbuf = 4096"

text \<open>The reader of a side: what \<open>conn.Read\<close> returns, the cancelled context in its \<open>select\<close>, the deferred
  calls, the assignment of the error.  A read of nothing without an error is repeated.\<close>

datatype reader_act = ReadData string | ReadNothing | ReadErr string | ReadCancelled | ReadDefers | ReadAssign

fun reader_do :: "side \<Rightarrow> reader_act \<Rightarrow> fwd_conn \<Rightarrow> fwd_conn option" where
  "reader_do s (ReadData d) c =
     (if fcReader c s = RRead \<and> \<not> fcClosed c s \<and> d \<noteq> [] \<and> length d \<le> rwbuf
      then Some (set_reader s (RSend d) (c\<lparr>fcRead := (fcRead c)(s := fcRead c s @ d)\<rparr>)) else None)"
| "reader_do s ReadNothing c =
     (if fcReader c s = RRead \<and> \<not> fcClosed c s then Some c else None)"
| "reader_do s (ReadErr e) c =
     (if fcReader c s = RRead then Some (set_reader s (RLeft (Some (Err (''read: '' @ e)))) c) else None)"
| "reader_do s ReadCancelled c =
     (case fcReader c s of
        RSend _ \<Rightarrow> if fcCancelled c then Some (set_reader s (RLeft None) c) else None
      | _ \<Rightarrow> None)"
| "reader_do s ReadDefers c =
     (case fcReader c s of
        RLeft e \<Rightarrow> Some (set_reader s (RDone e) (c\<lparr>fcCancelled := True\<rparr>))
      | _ \<Rightarrow> None)"
| "reader_do s ReadAssign c =
     (case fcReader c s of
        RDone e \<Rightarrow> Some (set_reader s (REnd e) c)
      | _ \<Rightarrow> None)"

text \<open>The writer of a side: the cancelled context in its \<open>select\<close>, what \<open>conn.Write\<close> returns (the number of
  bytes and an error), the deferred calls, the assignment of the error.\<close>

datatype writer_act = WriteCancelled | WriteRet nat "string option" | WriteDefers | WriteAssign

definition write_error :: "string \<Rightarrow> nat \<Rightarrow> string option \<Rightarrow> go_error option" where
  "write_error d n err =
     (if n \<noteq> length d then Some (Err (''wrote '' @ show_int (int (length d)) @ '' bytes, written '' @ show_int (int n)))
      else case err of None \<Rightarrow> None | Some e \<Rightarrow> Some (Err (''write: '' @ e)))"

fun writer_do :: "side \<Rightarrow> writer_act \<Rightarrow> fwd_conn \<Rightarrow> fwd_conn option" where
  "writer_do s WriteCancelled c =
     (if fcWriter c s = WRecv \<and> fcCancelled c then Some (set_writer s (WLeft None) c) else None)"
| "writer_do s (WriteRet n err) c =
     (case fcWriter c s of
        WWrite d \<Rightarrow>
          if n \<le> length d \<and> (n < length d \<longrightarrow> err \<noteq> None) \<and> (fcClosed c s \<longrightarrow> n = 0 \<and> err \<noteq> None)
          then Some (set_writer s (case write_error d n err of None \<Rightarrow> WRecv | Some e \<Rightarrow> WLeft (Some e))
                 (c\<lparr>fcWritten := (fcWritten c)(s := fcWritten c s @ take n d)\<rparr>))
          else None
      | _ \<Rightarrow> None)"
| "writer_do s WriteDefers c =
     (case fcWriter c s of
        WLeft e \<Rightarrow> Some (set_writer s (WDone e) (c\<lparr>fcCancelled := True\<rparr>))
      | _ \<Rightarrow> None)"
| "writer_do s WriteAssign c =
     (case fcWriter c s of
        WDone e \<Rightarrow> Some (set_writer s (WEnd e) c)
      | _ \<Rightarrow> None)"

text \<open>The channel from the reader of a side to the writer of the other one.\<close>

definition handover :: "side \<Rightarrow> fwd_conn \<Rightarrow> fwd_conn option" where
  "handover s c =
     (case fcReader c s of
        RSend d \<Rightarrow> if fcWriter c (other s) = WRecv then Some (set_reader s RRead (set_writer (other s) (WWrite d) c)) else None
      | _ \<Rightarrow> None)"

text \<open>The errors that \<open>rwfunc\<close> finds in its two variables when both goroutines have called \<open>wg.Done\<close>.\<close>

fun reader_past :: "reader \<Rightarrow> bool" where
  "reader_past (RDone _) = True"
| "reader_past (REnd _) = True"
| "reader_past _ = False"

fun writer_past :: "writer \<Rightarrow> bool" where
  "writer_past (WDone _) = True"
| "writer_past (WEnd _) = True"
| "writer_past _ = False"

fun err_list :: "go_error option \<Rightarrow> go_error list" where
  "err_list None = []"
| "err_list (Some e) = [e]"

fun reader_err :: "reader \<Rightarrow> go_error list" where
  "reader_err (REnd e) = err_list e"
| "reader_err _ = []"

fun writer_err :: "writer \<Rightarrow> go_error list" where
  "writer_err (WEnd e) = err_list e"
| "writer_err _ = []"

definition rwfunc_return :: "side \<Rightarrow> fwd_conn \<Rightarrow> fwd_conn option" where
  "rwfunc_return s c =
     (if fcRw c s = None \<and> reader_past (fcReader c s) \<and> writer_past (fcWriter c s)
      then Some (c\<lparr>fcClosed := (fcClosed c)(s := True),
                  fcRw := (fcRw c)(s := Some (reader_err (fcReader c s) @ writer_err (fcWriter c s)))\<rparr>)
      else None)"

definition closer_do :: "fwd_conn \<Rightarrow> fwd_conn option" where
  "closer_do c = (if fcCloser c \<and> fcCancelled c then Some (c\<lparr>fcCloser := False, fcClosed := (\<lambda>_. True)\<rparr>) else None)"

definition serveConn_return :: "fwd_conn \<Rightarrow> fwd_conn option" where
  "serveConn_return c =
     (case (fcResult c, fcRw c Local, fcRw c Remote) of
        (None, Some es, Some es') \<Rightarrow> Some (c\<lparr>fcResult := Some (es @ es')\<rparr>)
      | _ \<Rightarrow> None)"

definition parent_cancel :: "fwd_conn \<Rightarrow> fwd_conn option" where
  "parent_cancel c = (if fcParent c then None else Some (c\<lparr>fcParent := True, fcCancelled := True\<rparr>))"

datatype fwd_act =
    Reader side reader_act
  | Writer side writer_act
  | Handover side
  | RwReturn side
  | CloseConns
  | Return
  | ParentCancel

fun fwd_do :: "fwd_act \<Rightarrow> fwd_conn \<Rightarrow> fwd_conn option" where
  "fwd_do (Reader s a) c = reader_do s a c"
| "fwd_do (Writer s a) c = writer_do s a c"
| "fwd_do (Handover s) c = handover s c"
| "fwd_do (RwReturn s) c = rwfunc_return s c"
| "fwd_do CloseConns c = closer_do c"
| "fwd_do Return c = serveConn_return c"
| "fwd_do ParentCancel c = parent_cancel c"

fun fwd_run :: "fwd_act list \<Rightarrow> fwd_conn \<Rightarrow> fwd_conn option" where
  "fwd_run [] c = Some c"
| "fwd_run (a # as) c = (case fwd_do a c of None \<Rightarrow> None | Some c' \<Rightarrow> fwd_run as c')"

inductive fwd_reach :: "fwd_conn \<Rightarrow> bool" where
  fwd_start: "fwd_reach serveConn_init"
| fwd_step: "fwd_reach c \<Longrightarrow> fwd_do a c = Some c' \<Longrightarrow> fwd_reach c'"

lemma fwd_run_reach: "fwd_run as c = Some c' \<Longrightarrow> fwd_reach c \<Longrightarrow> fwd_reach c'"
  by (induction as arbitrary: c) (auto split: option.splits intro: fwd_step)


section \<open>The accept loop\<close>

text \<open>
  \<open>Serve\<close>: the loop that accepts connections and the goroutine that closes the listener when the context is
  cancelled or when no connection was noticed for a day.  Times are nanoseconds.  The loop tells the
  goroutine of a connection only when that is waiting for it, so a connection may go unnoticed.
\<close>

record forward_serve =
  svListening :: bool
  svIdle :: bool
  svTimer :: int
  svCancelled :: bool
  svAccepted :: nat
  svReturned :: bool

definition idleD :: int where "idleD = 24 * 3600 * 10 ^ 9"

definition Serve_init :: "int \<Rightarrow> forward_serve" where
  "Serve_init now = \<lparr>svListening = True, svIdle = True, svTimer = now + idleD, svCancelled = False, svAccepted = 0, svReturned = False\<rparr>"

datatype serve_act = Accept int bool | AcceptErr | IdleTimeout int | IdleDone | ServeCancel

fun Serve_do :: "serve_act \<Rightarrow> forward_serve \<Rightarrow> forward_serve option" where
  "Serve_do (Accept now noticed) v =
     (if svListening v \<and> \<not> svReturned v \<and> (noticed \<longrightarrow> svIdle v)
      then Some (v\<lparr>svAccepted := svAccepted v + 1, svTimer := (if noticed then now + idleD else svTimer v)\<rparr>) else None)"
| "Serve_do AcceptErr v = (if svReturned v then None else Some (v\<lparr>svReturned := True\<rparr>))"
| "Serve_do (IdleTimeout now) v =
     (if svIdle v \<and> svTimer v \<le> now then Some (v\<lparr>svListening := False, svIdle := False\<rparr>) else None)"
| "Serve_do IdleDone v =
     (if svIdle v \<and> svCancelled v then Some (v\<lparr>svListening := False, svIdle := False\<rparr>) else None)"
| "Serve_do ServeCancel v = (if svCancelled v then None else Some (v\<lparr>svCancelled := True\<rparr>))"

inductive serve_reach :: "forward_serve \<Rightarrow> bool" where
  serve_start: "serve_reach (Serve_init now)"
| serve_step: "serve_reach v \<Longrightarrow> Serve_do a v = Some v' \<Longrightarrow> serve_reach v'"

lemma serve_reach_idle: "serve_reach v \<Longrightarrow> svListening v = svIdle v"
proof (induction rule: serve_reach.induct)
  case (serve_step v a v')
  then show ?case by (cases a) (auto split: if_splits)
qed (simp add: Serve_init_def)

text \<open>A cancelled forward stops: its listener can be closed, and then the loop can only return.\<close>

lemma serve_cancel_stops:
  assumes "serve_reach v" "svCancelled v"
  shows "\<not> svListening v \<or> (\<exists>v'. Serve_do IdleDone v = Some v' \<and> \<not> svListening v')"
    and "\<not> svListening v \<Longrightarrow> Serve_do (Accept now n) v = None"
  using assms serve_reach_idle [OF assms(1)] by auto

text \<open>When \<open>Accept\<close> fails the loop returns and the forward is no longer listed (\<open>forward_done\<close>), but nothing closes
  its listener: the port stays bound until the day is over or the server stops.\<close>

lemma serve_accept_error_keeps_port: "\<exists>v. serve_reach v \<and> svReturned v \<and> svListening v \<and> \<not> svCancelled v"
proof -
  have "Serve_do AcceptErr (Serve_init 0) = Some ((Serve_init 0)\<lparr>svReturned := True\<rparr>)" by (simp add: Serve_init_def)
  from serve_step [OF serve_start this] show ?thesis
    by (intro exI [of _ "(Serve_init 0)\<lparr>svReturned := True\<rparr>"]) (simp add: Serve_init_def)
qed

section \<open>The actions of a connection by cases\<close>

text \<open>The actions that an unfolded step can be, as elimination rules.\<close>

lemmas fwd_do_simps = handover_def rwfunc_return_def closer_do_def serveConn_return_def parent_cancel_def

lemmas fwd_do_splits = if_splits option.splits reader.splits writer.splits

lemma fwd_do_cases:
  assumes "fwd_do a c = Some c'"
  obtains (reader) s ra where "a = Reader s ra" "reader_do s ra c = Some c'"
  | (writer) s wa where "a = Writer s wa" "writer_do s wa c = Some c'"
  | (handover) s d where "a = Handover s" "fcReader c s = RSend d" "fcWriter c (other s) = WRecv"
      "c' = set_reader s RRead (set_writer (other s) (WWrite d) c)"
  | (rwreturn) s where "a = RwReturn s" "fcRw c s = None" "reader_past (fcReader c s)" "writer_past (fcWriter c s)"
      "c' = c\<lparr>fcClosed := (fcClosed c)(s := True),
              fcRw := (fcRw c)(s := Some (reader_err (fcReader c s) @ writer_err (fcWriter c s)))\<rparr>"
  | (closer) "a = CloseConns" "fcCloser c" "fcCancelled c" "c' = c\<lparr>fcCloser := False, fcClosed := (\<lambda>_. True)\<rparr>"
  | (return) es es' where "a = Return" "fcResult c = None" "fcRw c Local = Some es" "fcRw c Remote = Some es'"
      "c' = c\<lparr>fcResult := Some (es @ es')\<rparr>"
  | (parent) "a = ParentCancel" "\<not> fcParent c" "c' = c\<lparr>fcParent := True, fcCancelled := True\<rparr>"
  using assms by (cases a) (auto simp: fwd_do_simps split: fwd_do_splits)

section \<open>What is written is what was read\<close>

fun reader_live :: "reader \<Rightarrow> bool" where
  "reader_live RRead = True"
| "reader_live (RSend _) = True"
| "reader_live _ = False"

fun writer_live :: "writer \<Rightarrow> bool" where
  "writer_live WRecv = True"
| "writer_live (WWrite _) = True"
| "writer_live _ = False"

fun reader_holds :: "reader \<Rightarrow> string" where
  "reader_holds (RSend d) = d"
| "reader_holds _ = []"

fun writer_holds :: "writer \<Rightarrow> string" where
  "writer_holds (WWrite d) = d"
| "writer_holds _ = []"

text \<open>Of one direction: the bytes read are those written, those the writer holds, those that were given
  up, and those the reader holds; nothing is given up while both goroutines of the direction run.\<close>

definition flow_ok :: "reader \<Rightarrow> string \<Rightarrow> writer \<Rightarrow> string \<Rightarrow> bool" where
  "flow_ok r rd w wr \<longleftrightarrow>
     (\<exists>lost. rd = wr @ writer_holds w @ lost @ reader_holds r \<and> (reader_live r \<and> writer_live w \<longrightarrow> lost = []))"

definition fwd_ok :: "fwd_conn \<Rightarrow> bool" where
  "fwd_ok c \<longleftrightarrow> (\<forall>s. flow_ok (fcReader c s) (fcRead c s) (fcWriter c (other s)) (fcWritten c (other s)))"

lemma flow_ok_leave: "flow_ok r rd w wr \<Longrightarrow> \<not> reader_live r' \<Longrightarrow> flow_ok r' rd w wr"
  by (cases r') (auto simp: flow_ok_def)

lemma flow_ok_read: "flow_ok RRead rd w wr \<Longrightarrow> flow_ok (RSend d) (rd @ d) w wr"
  by (auto simp: flow_ok_def)

lemma flow_ok_handover: "flow_ok (RSend d) rd WRecv wr \<Longrightarrow> flow_ok RRead rd (WWrite d) wr"
  by (auto simp: flow_ok_def)

lemma flow_ok_wleave:
  assumes "flow_ok r rd w wr" "\<not> writer_live w'"
  shows "flow_ok r rd w' wr"
  using assms by (cases w') (auto simp: flow_ok_def)

lemma flow_ok_write:
  assumes "flow_ok r rd (WWrite d) wr" "w' = WRecv \<Longrightarrow> n = length d" "w' = WRecv \<or> (\<exists>e. w' = WLeft e)"
  shows "flow_ok r rd w' (wr @ take n d)"
proof -
  from assms(1) obtain lost where l: "rd = wr @ d @ lost @ reader_holds r" "reader_live r \<longrightarrow> lost = []"
    by (auto simp: flow_ok_def)
  show ?thesis
  proof (cases "w' = WRecv")
    case True
    then show ?thesis using l assms(2) by (auto simp: flow_ok_def)
  next
    case False
    with assms(3) obtain e where "w' = WLeft e" by blast
    moreover have "rd = (wr @ take n d) @ (drop n d @ lost) @ reader_holds r" using l by simp
    ultimately show ?thesis by (auto simp: flow_ok_def simp del: append_assoc append_take_drop_id)
  qed
qed

lemma write_error_None: "write_error d n err = None \<Longrightarrow> n = length d"
  by (simp add: write_error_def split: if_splits)

lemma fwd_ok_init: "fwd_ok serveConn_init"
  by (simp add: fwd_ok_def serveConn_init_def flow_ok_def)

lemma side_eq_other: "t \<noteq> s \<Longrightarrow> t = other s"
  by (cases s; cases t) auto

text \<open>An action on the reader of \<open>s\<close> is one on the direction from \<open>s\<close>, an action on the writer of \<open>s\<close> one on the
  direction to \<open>s\<close>.\<close>

lemma fwd_ok_reader:
  assumes "fwd_ok c" "flow_ok r rd (fcWriter c (other s)) (fcWritten c (other s))"
    and "fcReader c' = (fcReader c)(s := r)" "fcRead c' = (fcRead c)(s := rd)" "fcWriter c' = fcWriter c" "fcWritten c' = fcWritten c"
  shows "fwd_ok c'"
  using assms by (auto simp: fwd_ok_def)

lemma fwd_ok_writer:
  assumes "fwd_ok c" "flow_ok (fcReader c (other s)) (fcRead c (other s)) w wr"
    and "fcReader c' = fcReader c" "fcRead c' = fcRead c" "fcWriter c' = (fcWriter c)(s := w)" "fcWritten c' = (fcWritten c)(s := wr)"
  shows "fwd_ok c'"
  unfolding fwd_ok_def
proof
  fix t
  show "flow_ok (fcReader c' t) (fcRead c' t) (fcWriter c' (other t)) (fcWritten c' (other t))"
  proof (cases "other t = s")
    case True
    then have "t = other s" by auto
    then show ?thesis using assms by simp
  next
    case False
    then show ?thesis using assms by (simp add: fwd_ok_def)
  qed
qed

lemma fwd_okD: "fwd_ok c \<Longrightarrow> flow_ok (fcReader c s) (fcRead c s) (fcWriter c (other s)) (fcWritten c (other s))"
  by (simp add: fwd_ok_def)

lemma fwd_okD': "fwd_ok c \<Longrightarrow> flow_ok (fcReader c (other s)) (fcRead c (other s)) (fcWriter c s) (fcWritten c s)"
  using fwd_okD [of c "other s"] by simp

lemma fwd_ok_other [simp]:
  "fwd_ok (c\<lparr>fcCancelled := b\<rparr>) = fwd_ok c" "fwd_ok (c\<lparr>fcClosed := cl\<rparr>) = fwd_ok c" "fwd_ok (c\<lparr>fcRw := rw\<rparr>) = fwd_ok c"
  "fwd_ok (c\<lparr>fcCloser := b\<rparr>) = fwd_ok c" "fwd_ok (c\<lparr>fcParent := b\<rparr>) = fwd_ok c" "fwd_ok (c\<lparr>fcResult := res\<rparr>) = fwd_ok c"
  by (simp_all add: fwd_ok_def)

lemma fwd_ok_leave:
  assumes "fwd_ok c" "\<not> reader_live (fcReader c' s)" "fcReader c' = (fcReader c)(s := fcReader c' s)"
    and "fcRead c' = fcRead c" "fcWriter c' = fcWriter c" "fcWritten c' = fcWritten c"
  shows "fwd_ok c'"
  by (rule fwd_ok_reader [OF assms(1) flow_ok_leave [OF fwd_okD [OF assms(1)] assms(2)]]) (use assms in simp_all)

lemma fwd_ok_wleave:
  assumes "fwd_ok c" "\<not> writer_live (fcWriter c' s)" "fcWriter c' = (fcWriter c)(s := fcWriter c' s)"
    and "fcRead c' = fcRead c" "fcReader c' = fcReader c" "fcWritten c' = fcWritten c"
  shows "fwd_ok c'"
  by (rule fwd_ok_writer [OF assms(1) flow_ok_wleave [OF fwd_okD' [OF assms(1)] assms(2)]]) (use assms in simp_all)

lemma fwd_ok_reader_do:
  assumes "fwd_ok c" "reader_do s a c = Some c'"
  shows "fwd_ok c'"
proof (cases "\<exists>d. a = ReadData d")
  case True
  then obtain d where a: "a = ReadData d" by blast
  with assms(2) have r: "fcReader c s = RRead"
    and c': "c' = set_reader s (RSend d) (c\<lparr>fcRead := (fcRead c)(s := fcRead c s @ d)\<rparr>)"
    by (simp_all split: if_splits)
  have "flow_ok (RSend d) (fcRead c s @ d) (fcWriter c (other s)) (fcWritten c (other s))"
    using fwd_okD [OF assms(1), of s] by (intro flow_ok_read) (simp add: r)
  then show ?thesis by (rule fwd_ok_reader [OF assms(1)]) (simp_all add: c')
next
  case False
  show ?thesis
  proof (cases "a = ReadNothing")
    case True
    then show ?thesis using assms by (simp split: if_splits)
  next
    case False
    with \<open>\<nexists>d. a = ReadData d\<close> show ?thesis using assms(2)
      by (intro fwd_ok_leave [OF assms(1), of c' s]) (cases a; auto split: if_splits reader.splits)+
  qed
qed

lemma fwd_ok_writer_do:
  assumes "fwd_ok c" "writer_do s a c = Some c'"
  shows "fwd_ok c'"
proof (cases "\<exists>n err. a = WriteRet n err")
  case True
  then obtain n err where a: "a = WriteRet n err" by blast
  with assms(2) obtain d where w: "fcWriter c s = WWrite d" by (auto split: writer.splits)
  with assms(2) a have c': "c' = set_writer s (case write_error d n err of None \<Rightarrow> WRecv | Some e \<Rightarrow> WLeft (Some e))
      (c\<lparr>fcWritten := (fcWritten c)(s := fcWritten c s @ take n d)\<rparr>)"
    by (simp split: if_splits)
  have "flow_ok (fcReader c (other s)) (fcRead c (other s))
      (case write_error d n err of None \<Rightarrow> WRecv | Some e \<Rightarrow> WLeft (Some e)) (fcWritten c s @ take n d)"
    using fwd_okD' [OF assms(1), of s] unfolding w
    by (rule flow_ok_write) (auto split: option.splits dest: write_error_None)
  then show ?thesis by (rule fwd_ok_writer [OF assms(1)]) (simp_all add: c')
next
  case False
  then show ?thesis using assms(2)
    by (intro fwd_ok_wleave [OF assms(1), of c' s]) (cases a; auto split: if_splits writer.splits)+
qed

lemma fwd_ok_handover:
  assumes "fwd_ok c" "fcReader c s = RSend d" "fcWriter c (other s) = WRecv"
  shows "fwd_ok (set_reader s RRead (set_writer (other s) (WWrite d) c))" (is "fwd_ok ?c'")
  unfolding fwd_ok_def
proof
  fix t
  show "flow_ok (fcReader ?c' t) (fcRead ?c' t) (fcWriter ?c' (other t)) (fcWritten ?c' (other t))"
  proof (cases "t = s")
    case True
    then show ?thesis using fwd_okD [OF assms(1), of s] by (simp add: assms(2,3) flow_ok_handover)
  next
    case False
    then have "t = other s" by (rule side_eq_other)
    then show ?thesis using fwd_okD' [OF assms(1), of s] by simp
  qed
qed

lemma fwd_ok_step: "fwd_do a c = Some c' \<Longrightarrow> fwd_ok c \<Longrightarrow> fwd_ok c'"
  by (erule fwd_do_cases) (auto intro: fwd_ok_reader_do fwd_ok_writer_do fwd_ok_handover [simplified])

lemma fwd_reach_ok: "fwd_reach c \<Longrightarrow> fwd_ok c"
  by (induction rule: fwd_reach.induct) (auto intro: fwd_ok_init fwd_ok_step)

text \<open>C10: in every reachable state of a forwarded connection the bytes written to a side are the first bytes
  read from the other side, in order; when the reader and the writer of a direction are both waiting
  they are all of them.\<close>

theorem forwarded_in_order:
  assumes "fwd_reach c"
  shows "(\<exists>rest. fcRead c s = fcWritten c (other s) @ rest)
    \<and> (fcReader c s = RRead \<and> fcWriter c (other s) = WRecv \<longrightarrow> fcWritten c (other s) = fcRead c s)"
  using fwd_okD [OF fwd_reach_ok [OF assms], of s] by (auto simp: flow_ok_def)

section \<open>The end of a connection\<close>

text \<open>How many actions a goroutine can still perform once the connections are closed.\<close>

fun reader_left :: "reader \<Rightarrow> nat" where
  "reader_left RRead = 3"
| "reader_left (RSend _) = 5"
| "reader_left (RLeft _) = 2"
| "reader_left (RDone _) = 1"
| "reader_left (REnd _) = 0"

fun writer_left :: "writer \<Rightarrow> nat" where
  "writer_left WRecv = 3"
| "writer_left (WWrite _) = 4"
| "writer_left (WLeft _) = 2"
| "writer_left (WDone _) = 1"
| "writer_left (WEnd _) = 0"

definition side_left :: "fwd_conn \<Rightarrow> side \<Rightarrow> nat" where
  "side_left c s = reader_left (fcReader c s) + writer_left (fcWriter c s) + (if fcRw c s = None then 1 else 0)"

definition fwd_left :: "fwd_conn \<Rightarrow> nat" where
  "fwd_left c = side_left c Local + side_left c Remote
     + (if fcParent c then 0 else 1) + (if fcCloser c then 1 else 0) + (if fcResult c = None then 1 else 0)"

definition all_closed :: "fwd_conn \<Rightarrow> bool" where
  "all_closed c \<longleftrightarrow> fcClosed c Local \<and> fcClosed c Remote"

lemma all_closed_iff: "all_closed c \<longleftrightarrow> (\<forall>s. fcClosed c s)"
  unfolding all_closed_def by (metis (full_types) side.exhaust)

lemma fwd_left_sides: "fwd_left c = side_left c s + side_left c (other s)
     + (if fcParent c then 0 else 1) + (if fcCloser c then 1 else 0) + (if fcResult c = None then 1 else 0)"
  by (cases s) (simp_all add: fwd_left_def)

lemma write_error_Some: "err \<noteq> None \<Longrightarrow> write_error d n err \<noteq> None"
  by (auto simp: write_error_def)

text \<open>A reader and a writer change only their own place, the bytes of their side and the context.\<close>

lemma reader_do_frame:
  assumes "reader_do s a c = Some c'"
  shows "fcReader c' (other s) = fcReader c (other s)" "fcWriter c' = fcWriter c" "fcRw c' = fcRw c" "fcClosed c' = fcClosed c"
    "fcParent c' = fcParent c" "fcCloser c' = fcCloser c" "fcResult c' = fcResult c"
  using assms by (cases a; auto split: if_splits reader.splits)+

lemma writer_do_frame:
  assumes "writer_do s a c = Some c'"
  shows "fcWriter c' (other s) = fcWriter c (other s)" "fcReader c' = fcReader c" "fcRw c' = fcRw c" "fcClosed c' = fcClosed c"
    "fcParent c' = fcParent c" "fcCloser c' = fcCloser c" "fcResult c' = fcResult c"
  using assms by (cases a; auto split: if_splits writer.splits)+

lemma reader_do_left:
  assumes "reader_do s a c = Some c'" "fcClosed c s"
  shows "reader_left (fcReader c' s) < reader_left (fcReader c s)"
  using assms by (cases a) (auto split: if_splits reader.splits)

lemma writer_do_left:
  assumes "writer_do s a c = Some c'" "fcClosed c s"
  shows "writer_left (fcWriter c' s) < writer_left (fcWriter c s)"
  using assms by (cases a) (auto split: if_splits writer.splits option.splits dest: write_error_Some)

lemma fwd_left_decreases:
  assumes "fwd_do a c = Some c'" "all_closed c"
  shows "fwd_left c' < fwd_left c"
  using assms(1)
proof (cases rule: fwd_do_cases)
  case (reader s ra)
  with assms(2) show ?thesis
    by (simp add: all_closed_iff fwd_left_sides [of _ s] side_left_def reader_do_frame [OF reader(2)] reader_do_left)
next
  case (writer s wa)
  with assms(2) show ?thesis
    by (simp add: all_closed_iff fwd_left_sides [of _ s] side_left_def writer_do_frame [OF writer(2)] writer_do_left)
next
  case (handover s d)
  then show ?thesis by (simp add: fwd_left_sides [of _ s] side_left_def)
next
  case (rwreturn s)
  then show ?thesis by (simp add: fwd_left_sides [of _ s] side_left_def)
qed (simp_all add: fwd_left_def side_left_def)

lemma all_closed_step:
  assumes "fwd_do a c = Some c'" "all_closed c"
  shows "all_closed c'"
  using assms(1)
proof (cases rule: fwd_do_cases)
  case (reader s ra)
  with assms(2) show ?thesis by (simp add: all_closed_iff reader_do_frame)
next
  case (writer s wa)
  with assms(2) show ?thesis by (simp add: all_closed_iff writer_do_frame)
qed (use assms(2) in \<open>simp_all add: all_closed_iff\<close>)

lemma fwd_run_bounded:
  "fwd_run as c = Some c' \<Longrightarrow> all_closed c \<Longrightarrow> all_closed c' \<and> length as + fwd_left c' \<le> fwd_left c"
proof (induction as arbitrary: c)
  case (Cons a as)
  then obtain c1 where c1: "fwd_do a c = Some c1" "fwd_run as c1 = Some c'" by (auto split: option.splits)
  from Cons.IH [OF c1(2) all_closed_step [OF c1(1) Cons.prems(2)]] fwd_left_decreases [OF c1(1) Cons.prems(2)]
  show ?case by simp
qed simp

text \<open>A connection is closed only after the context was cancelled, and a goroutine past its deferred calls
  has cancelled it.\<close>

definition cancel_ok :: "fwd_conn \<Rightarrow> bool" where
  "cancel_ok c \<longleftrightarrow> (\<forall>s. fcClosed c s \<or> reader_past (fcReader c s) \<or> writer_past (fcWriter c s) \<longrightarrow> fcCancelled c)
     \<and> (\<not> fcCloser c \<longrightarrow> all_closed c)"

lemma reader_do_cancel:
  assumes "reader_do s a c = Some c'"
  shows "fcCancelled c \<Longrightarrow> fcCancelled c'" "reader_past (fcReader c' s) \<Longrightarrow> reader_past (fcReader c s) \<or> fcCancelled c'"
  using assms by (cases a; auto split: if_splits reader.splits)+

lemma writer_do_cancel:
  assumes "writer_do s a c = Some c'"
  shows "fcCancelled c \<Longrightarrow> fcCancelled c'" "writer_past (fcWriter c' s) \<Longrightarrow> writer_past (fcWriter c s) \<or> fcCancelled c'"
  using assms by (cases a; auto split: if_splits writer.splits option.splits)+

lemma cancel_ok_step:
  assumes "fwd_do a c = Some c'" "cancel_ok c"
  shows "cancel_ok c'"
  using assms(1)
proof (cases rule: fwd_do_cases)
  case (reader s ra)
  have "reader_past (fcReader c' t) \<Longrightarrow> reader_past (fcReader c t) \<or> fcCancelled c'" for t
    using reader_do_cancel(2) [OF reader(2)] reader_do_frame(1) [OF reader(2)] by (cases "t = s") (auto dest: side_eq_other)
  then show ?thesis using assms(2) reader_do_cancel(1) [OF reader(2)]
    unfolding cancel_ok_def all_closed_iff reader_do_frame(2-) [OF reader(2)] by blast
next
  case (writer s wa)
  have "writer_past (fcWriter c' t) \<Longrightarrow> writer_past (fcWriter c t) \<or> fcCancelled c'" for t
    using writer_do_cancel(2) [OF writer(2)] writer_do_frame(1) [OF writer(2)] by (cases "t = s") (auto dest: side_eq_other)
  then show ?thesis using assms(2) writer_do_cancel(1) [OF writer(2)]
    unfolding cancel_ok_def all_closed_iff writer_do_frame(2-) [OF writer(2)] by blast
qed (use assms(2) in \<open>auto simp: cancel_ok_def all_closed_iff\<close>)

lemma fwd_reach_cancel_ok: "fwd_reach c \<Longrightarrow> cancel_ok c"
  by (induction rule: fwd_reach.induct) (simp add: cancel_ok_def serveConn_init_def, rule cancel_ok_step)

text \<open>With the context cancelled no goroutine can wait for ever: there is an action as long as \<open>serveConn\<close> has
  not returned.\<close>

lemma reader_progress: "fcCancelled c \<Longrightarrow> reader_past (fcReader c s) \<or> (\<exists>a. reader_do s a c \<noteq> None)"
proof (cases "fcReader c s")
  case RRead
  then have "reader_do s (ReadErr []) c \<noteq> None" by simp
  then show ?thesis by blast
next
  case (RSend d)
  assume "fcCancelled c"
  with RSend have "reader_do s ReadCancelled c \<noteq> None" by simp
  then show ?thesis by blast
next
  case (RLeft e)
  then have "reader_do s ReadDefers c \<noteq> None" by simp
  then show ?thesis by blast
qed simp_all

lemma writer_progress: "fcCancelled c \<Longrightarrow> writer_past (fcWriter c s) \<or> (\<exists>a. writer_do s a c \<noteq> None)"
proof (cases "fcWriter c s")
  case WRecv
  assume "fcCancelled c"
  with WRecv have "writer_do s WriteCancelled c \<noteq> None" by simp
  then show ?thesis by blast
next
  case (WWrite d)
  then have "writer_do s (WriteRet 0 (Some [])) c \<noteq> None" by simp
  then show ?thesis by blast
next
  case (WLeft e)
  then have "writer_do s WriteDefers c \<noteq> None" by simp
  then show ?thesis by blast
qed simp_all

lemma rw_progress:
  assumes "fcCancelled c" "fcRw c s = None"
  shows "\<exists>a. fwd_do a c \<noteq> None"
proof (cases "reader_past (fcReader c s) \<and> writer_past (fcWriter c s)")
  case True
  with assms(2) have "fwd_do (RwReturn s) c \<noteq> None" by (simp add: rwfunc_return_def)
  then show ?thesis by blast
next
  case False
  with reader_progress [OF assms(1), of s] writer_progress [OF assms(1), of s]
  obtain a where "reader_do s a c \<noteq> None \<or> (\<exists>b. writer_do s b c \<noteq> None)" by blast
  then have "fwd_do (Reader s a) c \<noteq> None \<or> (\<exists>b. fwd_do (Writer s b) c \<noteq> None)" by simp
  then show ?thesis by blast
qed

lemma fwd_progress:
  assumes "fcCancelled c" "fcResult c = None"
  shows "\<exists>a. fwd_do a c \<noteq> None"
proof (cases "\<exists>s. fcRw c s = None")
  case True
  then show ?thesis using rw_progress [OF assms(1)] by blast
next
  case False
  then obtain es es' where "fcRw c Local = Some es" "fcRw c Remote = Some es'" by (metis not_None_eq)
  then have "fwd_do Return c \<noteq> None" using assms(2) by (simp add: serveConn_return_def)
  then show ?thesis by blast
qed

text \<open>C11: once the context of a forwarded connection is cancelled, by the end of one of its goroutines or from
  outside, the closing goroutine can run; after that every run is bounded by the number of actions left, and
  a run that cannot go on has returned from \<open>serveConn\<close>.\<close>

theorem forward_ends:
  assumes "fwd_reach c" "fcCancelled c"
  shows "\<exists>c1. (c1 = c \<or> fwd_do CloseConns c = Some c1) \<and> all_closed c1
    \<and> (\<forall>as c2. fwd_run as c1 = Some c2 \<longrightarrow>
         length as \<le> fwd_left c1 \<and> (fcResult c2 = None \<longrightarrow> (\<exists>a. fwd_do a c2 \<noteq> None)))"
proof -
  have ok: "cancel_ok c" using fwd_reach_cancel_ok [OF assms(1)] .
  define c1 where "c1 = (case fwd_do CloseConns c of None \<Rightarrow> c | Some c1 \<Rightarrow> c1)"
  have c1: "c1 = c \<or> fwd_do CloseConns c = Some c1" by (auto simp: c1_def split: option.splits)
  have cl: "all_closed c1"
    using assms(2) ok by (auto simp: c1_def closer_do_def cancel_ok_def all_closed_iff)
  have r1: "fwd_reach c1" using c1 assms(1) fwd_step by blast
  have "length as \<le> fwd_left c1 \<and> (fcResult c2 = None \<longrightarrow> (\<exists>a. fwd_do a c2 \<noteq> None))"
    if "fwd_run as c1 = Some c2" for as c2
  proof -
    have "all_closed c2" "length as \<le> fwd_left c1" using fwd_run_bounded [OF that cl] by auto
    moreover have "cancel_ok c2" using fwd_reach_cancel_ok [OF fwd_run_reach [OF that r1]] .
    ultimately show ?thesis using fwd_progress [of c2] by (auto simp: cancel_ok_def all_closed_iff)
  qed
  with c1 cl show ?thesis by blast
qed

section \<open>What is lost\<close>

text \<open>The run in which the client sends \<open>d\<close>, ends its side of the connection, and the answer \<open>d'\<close> of the guest is
  read while the end of the client's reader cancels the context.\<close>

definition half_close_run :: "string \<Rightarrow> string \<Rightarrow> fwd_act list" where
  "half_close_run d d' =
     [Reader Local (ReadData d), Handover Local, Writer Remote (WriteRet (length d) None),
      Reader Local (ReadErr ''EOF''), Reader Remote (ReadData d'), Reader Local ReadDefers,
      Reader Remote ReadCancelled, Reader Remote ReadDefers, Writer Local WriteCancelled, Writer Local WriteDefers,
      Writer Remote WriteCancelled, Writer Remote WriteDefers, CloseConns,
      Reader Local ReadAssign, RwReturn Local, RwReturn Remote, Return]"

text \<open>C16: the end of one direction cancels both.  A client that sends a request and then shuts down its side
  of the connection for writing can lose the answer: a run in which no write fails reads the whole
  answer from the guest, writes none of it and reports the end of the input as an error.\<close>

theorem half_close_loses:
  assumes "d \<noteq> []" "length d \<le> rwbuf" "d' \<noteq> []" "length d' \<le> rwbuf"
  shows "\<exists>c. fwd_run (half_close_run d d') serveConn_init = Some c
    \<and> fcWritten c Remote = d \<and> fcRead c Remote = d' \<and> fcWritten c Local = []
    \<and> fcResult c = Some [Err ''read: EOF'']"
  using assms by (simp add: half_close_run_def serveConn_init_def fwd_do_simps write_error_def)

text \<open>\<open>wg.Done\<close> is called before the error is assigned: a failed read can end in a \<open>serveConn\<close> that returns nil.\<close>

definition lost_error_run :: "string \<Rightarrow> fwd_act list" where
  "lost_error_run e =
     [Reader Local (ReadErr e), Reader Local ReadDefers, Writer Local WriteCancelled, Writer Local WriteDefers, RwReturn Local,
      CloseConns, Writer Remote WriteCancelled, Writer Remote WriteDefers, Reader Remote (ReadErr e), Reader Remote ReadDefers,
      RwReturn Remote, Return]"

lemma forward_error_lost:
  "\<exists>c. fwd_run (lost_error_run e) serveConn_init = Some c \<and> \<not> fcParent c \<and> fcResult c = Some []
    \<and> fcReader c Local = RDone (Some (Err (''read: '' @ e)))"
  by (simp add: lost_error_run_def serveConn_init_def fwd_do_simps)

section \<open>Witnesses\<close>

definition demo_conn :: fwd_conn where
  "demo_conn = the (fwd_run [Reader Local (ReadData ''GET''), Handover Local, Writer Remote (WriteRet 3 None)] serveConn_init)"

lemma demo_conn: "fwd_run [Reader Local (ReadData ''GET''), Handover Local, Writer Remote (WriteRet 3 None)] serveConn_init = Some demo_conn"
  by (simp add: demo_conn_def serveConn_init_def fwd_do_simps write_error_def rwbuf_def)

theorem forwarded_in_order_witness:
  "fcRead demo_conn Local = ''GET'' \<and> fcWritten demo_conn Remote = fcRead demo_conn Local"
proof -
  have "fcReader demo_conn Local = RRead" "fcWriter demo_conn (other Local) = WRecv" "fcRead demo_conn Local = ''GET''" by code_simp+
  with forwarded_in_order [OF fwd_run_reach [OF demo_conn fwd_start], of Local] show ?thesis by simp
qed

definition demo_eof :: fwd_conn where
  "demo_eof = the (fwd_run [Reader Local (ReadErr ''EOF''), Reader Local ReadDefers] serveConn_init)"

lemma demo_eof: "fwd_run [Reader Local (ReadErr ''EOF''), Reader Local ReadDefers] serveConn_init = Some demo_eof"
  by (simp add: demo_eof_def serveConn_init_def)

theorem forward_ends_witness:
  "\<exists>c1. fwd_do CloseConns demo_eof = Some c1 \<and> all_closed c1 \<and> (\<exists>a. fwd_do a c1 \<noteq> None)"
proof -
  have c: "fcCancelled demo_eof" "\<not> all_closed demo_eof" "fcResult demo_eof = None" by code_simp+
  from forward_ends [OF fwd_run_reach [OF demo_eof fwd_start] c(1)] c(2) obtain c1
    where c1: "fwd_do CloseConns demo_eof = Some c1" "all_closed c1"
      "fwd_run [] c1 = Some c1 \<Longrightarrow> fcResult c1 = None \<Longrightarrow> \<exists>a. fwd_do a c1 \<noteq> None" by blast
  moreover have "fcResult c1 = None" using c1(1) c(3) by (auto simp: closer_do_def split: if_splits)
  ultimately show ?thesis by auto
qed

theorem half_close_loses_witness:
  "\<exists>c. fwd_run (half_close_run ''GET /'' ''200 OK'') serveConn_init = Some c \<and> fcRead c Remote = ''200 OK'' \<and> fcWritten c Local = []"
  using half_close_loses [of "''GET /''" "''200 OK''"] by (auto simp: rwbuf_def)

end
