(* ===== verification/Cli.thy ===== *)
theory Cli
  imports Agent
begin

text \<open>
  The command line client, \<open>cmd/sdncli/cli/cli.go\<close> with \<open>pkg/agent/client.go\<close>, the rest of the remote procedures
  it can reach, \<open>pkg/agent/server/vswitch.go\<close> and \<open>DumpBridgePort\<close> of \<open>pkg/agent/server/openflow.go\<close>, and the
  agent with the flow managers of its table at work.

  The parser of the command line and the transport of the calls are libraries: \<open>DoCmd\<close> gets the set of flags
  after parsing, and a record of the calls of the client.  \<open>agent_client\<close> is that record with the procedures
  of the agent behind it.
\<close>

section \<open>Flags\<close>

datatype flag_value = FString string | FUint64 "64 word" | FUint32 "32 word"

type_synonym flag_set = "(string, flag_value) gomap"

text \<open>\<open>GetString\<close>, \<open>GetUint64\<close> and \<open>GetUint32\<close> of \<open>pflag\<close>: the value of a flag of that type, or the zero value and an
  error.\<close>

definition flag_error :: "string \<Rightarrow> go_error option" where
  "flag_error n = Some (Err (''flag '' @ n))"

definition GetString :: "flag_set \<Rightarrow> string \<Rightarrow> string \<times> go_error option" where
  "GetString fs n = (case gm_get fs n of Some (FString v) \<Rightarrow> (v, None) | _ \<Rightarrow> ('''', flag_error n))"

definition GetUint64 :: "flag_set \<Rightarrow> string \<Rightarrow> 64 word \<times> go_error option" where
  "GetUint64 fs n = (case gm_get fs n of Some (FUint64 v) \<Rightarrow> (v, None) | _ \<Rightarrow> (0, flag_error n))"

definition GetUint32 :: "flag_set \<Rightarrow> string \<Rightarrow> 32 word \<times> go_error option" where
  "GetUint32 fs n = (case gm_get fs n of Some (FUint32 v) \<Rightarrow> (v, None) | _ \<Rightarrow> (0, flag_error n))"

definition flagSetMustGet :: "'v \<times> go_error option \<Rightarrow> 'v" where
  "flagSetMustGet ve = fst ve"

definition flagSetToFlowArgs :: "flag_set \<Rightarrow> pbFlow" where
  "flagSetToFlowArgs fs =
     \<lparr>pbCookie = flagSetMustGet (GetUint64 fs ''cookie''),
      pbTable = flagSetMustGet (GetUint32 fs ''table''),
      pbPriority = flagSetMustGet (GetUint32 fs ''priority''),
      pbMatches = flagSetMustGet (GetString fs ''matches''),
      pbActions = flagSetMustGet (GetString fs ''actions'')\<rparr>"

text \<open>The flags of a command: name, shorthand and default.\<close>

definition InitCmdFlags :: "string \<Rightarrow> (string \<times> string \<times> flag_value) list" where
  "InitCmdFlags cmd =
     (if cmd = ''addFlow'' \<or> cmd = ''delFlow'' then
        [(''bridge'', ''b'', FString ''br0''), (''cookie'', ''c'', FUint64 0), (''priority'', ''p'', FUint32 0),
         (''table'', ''t'', FUint32 0), (''matches'', ''m'', FString ''''), (''actions'', ''a'', FString ''normal'')]
      else if cmd = ''syncFlows'' then [(''bridge'', ''b'', FString ''br0'')]
      else if cmd = ''dumpBridgePort'' then [(''bridge'', ''b'', FString ''br0''), (''port'', ''p'', FString '''')]
      else [])"

definition sockFlag :: "string \<times> string \<times> flag_value" where
  "sockFlag = (''sock'', ''s'', FString ''/var/run/yunion-sdnagent.sock'')"

definition default_flags :: "string \<Rightarrow> flag_set" where
  "default_flags cmd = map (\<lambda>(n, _, v). (n, v)) (InitCmdFlags cmd @ [sockFlag])"

section \<open>Calls and answers\<close>

record pbPortResponse = pbResponse +
  respPortNo :: "32 word option"

definition rpc_DumpBridgePort :: "(string \<Rightarrow> string \<Rightarrow> int result) \<Rightarrow> string \<Rightarrow> string \<Rightarrow> pbPortResponse result" where
  "rpc_DumpBridgePort ofCli br port =
     (case ofCli br port of
        Inl (Panic e) \<Rightarrow> Inl (Panic e)
      | Inl (Err e) \<Rightarrow> Inr \<lparr>respCode = 1, respMesg = e, respPortNo = None\<rparr>
      | Inr portID \<Rightarrow> Inr \<lparr>respCode = 0, respMesg = ''ok'', respPortNo = Some (word_of_int portID)\<rparr>)"

text \<open>The calls on bridges and ports give the names to the OVS client and answer with its error.\<close>

record 'w vswitch_cli =
  vcAddBridge :: "string \<Rightarrow> 'w \<Rightarrow> 'w \<times> unit result"
  vcDeleteBridge :: "string \<Rightarrow> 'w \<Rightarrow> 'w \<times> unit result"
  vcAddPort :: "string \<Rightarrow> string \<Rightarrow> 'w \<Rightarrow> 'w \<times> unit result"
  vcDeletePort :: "string \<Rightarrow> string \<Rightarrow> 'w \<Rightarrow> 'w \<times> unit result"

definition vs_response :: "'w \<times> unit result \<Rightarrow> 'w \<times> pbResponse result" where
  "vs_response p =
     (case p of (w, Inr ()) \<Rightarrow> (w, Inr (newResponse None))
      | (w, Inl (Err e)) \<Rightarrow> (w, Inr (newResponse (Some e)))
      | (w, Inl (Panic e)) \<Rightarrow> (w, Inl (Panic e)))"

definition rpc_AddBridge :: "'w vswitch_cli \<Rightarrow> string \<Rightarrow> 'w \<Rightarrow> 'w \<times> pbResponse result" where
  "rpc_AddBridge cli br w = vs_response (vcAddBridge cli br w)"

definition rpc_DelBridge :: "'w vswitch_cli \<Rightarrow> string \<Rightarrow> 'w \<Rightarrow> 'w \<times> pbResponse result" where
  "rpc_DelBridge cli br w = vs_response (vcDeleteBridge cli br w)"

definition rpc_AddBridgePort :: "'w vswitch_cli \<Rightarrow> string \<Rightarrow> string \<Rightarrow> 'w \<Rightarrow> 'w \<times> pbResponse result" where
  "rpc_AddBridgePort cli br port w = vs_response (vcAddPort cli br port w)"

definition rpc_DelBridgePort :: "'w vswitch_cli \<Rightarrow> string \<Rightarrow> string \<Rightarrow> 'w \<Rightarrow> 'w \<times> pbResponse result" where
  "rpc_DelBridgePort cli br port w = vs_response (vcDeletePort cli br port w)"

text \<open>\<open>W\<close> of the client: an error of the transport, or a code of the server, as an error.\<close>

definition client_W :: "pbResponse result \<Rightarrow> unit result" where
  "client_W r =
     (case r of Inl e \<Rightarrow> Inl e
      | Inr resp \<Rightarrow> if respCode resp \<noteq> 0 then Inl (Err (''err '' @ show_int (respCode resp) @ '': '' @ respMesg resp)) else Inr ())"

section \<open>Commands\<close>

text \<open>The calls that the client makes, over a state \<open>'s\<close> of the server; an \<open>Inl\<close> is an error of the transport.\<close>

record 's openflow_client =
  ocAddFlow :: "string \<Rightarrow> pbFlow \<Rightarrow> 's \<Rightarrow> 's \<times> pbResponse result"
  ocDelFlow :: "string \<Rightarrow> pbFlow \<Rightarrow> 's \<Rightarrow> 's \<times> pbResponse result"
  ocSyncFlows :: "string \<Rightarrow> 's \<Rightarrow> 's \<times> pbResponse result"
  ocDumpBridgePort :: "string \<Rightarrow> string \<Rightarrow> 's \<Rightarrow> 's \<times> pbPortResponse result"

record cli_out =
  coLog :: "string list"
  coStdout :: "string list"

fun error_text :: "go_error \<Rightarrow> string" where
  "error_text (Err e) = e"
| "error_text (Panic e) = e"

text \<open>\<open>handleResponse\<close>: whether the call succeeded, with the line that it logs.\<close>

definition handleResponse :: "'a pbResponse_scheme result \<Rightarrow> string \<Rightarrow> bool \<times> string list" where
  "handleResponse r prefix =
     (case r of
        Inl e \<Rightarrow> (False, [''rpc failure: '' @ error_text e])
      | Inr resp \<Rightarrow> if respCode resp \<noteq> 0 then (False, [prefix @ respMesg resp]) else (True, []))"

definition cli_logged :: "'s \<times> pbResponse result \<Rightarrow> string \<Rightarrow> 's \<times> cli_out result" where
  "cli_logged p prefix = (fst p, Inr \<lparr>coLog = snd (handleResponse (snd p) prefix), coStdout = []\<rparr>)"

definition NewClient :: "(string \<Rightarrow> 'c result) \<Rightarrow> string \<Rightarrow> 'c result" where
  "NewClient dial sockPath = dial (''unix://'' @ sockPath)"

text \<open>\<open>DoCmd\<close>: \<open>dial\<close> connects to the socket; \<open>log.Fatalf\<close> ends the process.\<close>

definition DoCmd ::
  "(string \<Rightarrow> 's openflow_client result) \<Rightarrow> string \<Rightarrow> flag_set \<Rightarrow> 's \<Rightarrow> 's \<times> cli_out result" where
  "DoCmd dial cmd fs s =
     (case GetString fs ''sock'' of
        (_, Some e) \<Rightarrow> (s, Inl (Panic (''get sock option: '' @ error_text e)))
      | (sockPath, None) \<Rightarrow>
          (case NewClient dial sockPath of
             Inl e \<Rightarrow> (s, Inl (Panic (''client failure: '' @ error_text e)))
           | Inr c \<Rightarrow>
               let br = flagSetMustGet (GetString fs ''bridge'')
               in if cmd = ''addFlow'' then cli_logged (ocAddFlow c br (flagSetToFlowArgs fs) s) ''addFlow failure: ''
                  else if cmd = ''delFlow'' then cli_logged (ocDelFlow c br (flagSetToFlowArgs fs) s) ''delFlow failure: ''
                  else if cmd = ''syncFlows'' then cli_logged (ocSyncFlows c br s) ''syncFlows failure: ''
                  else if cmd = ''dumpBridgePort'' then
                    (let (s', r) = ocDumpBridgePort c br (flagSetMustGet (GetString fs ''port'')) s;
                         (ok, lines) = handleResponse r ''dumpBridgePort failure: ''
                     in if \<not> ok then (s', Inr \<lparr>coLog = lines, coStdout = []\<rparr>)
                        else case map_sum id respPortNo r of
                               Inr (Some no) \<Rightarrow> (s', Inr \<lparr>coLog = lines, coStdout = [show_int (uint no)]\<rparr>)
                             | _ \<Rightarrow> (s', Inl (Panic ''nil pointer dereference'')))
                  else (s, Inr \<lparr>coLog = [], coStdout = []\<rparr>)))"

text \<open>The agent behind the calls: its table of managers and the commands sent to them.  A call whose
  procedure panics has no answer.\<close>

definition answered :: "'r result \<Rightarrow> 'r result" where
  "answered r = (case r of Inl _ \<Rightarrow> Inl (Err ''transport is closing'') | Inr x \<Rightarrow> Inr x)"

definition serve ::
  "(agentServer \<Rightarrow> rpc_out) \<Rightarrow> agentServer \<times> (string \<times> flowManCmd) list \<Rightarrow> (agentServer \<times> (string \<times> flowManCmd) list) \<times> pbResponse result" where
  "serve call st = (let (s', cmds, r) = call (fst st) in ((s', snd st @ cmds), answered r))"

definition agent_client ::
  "(string \<Rightarrow> flow result) \<Rightarrow> (string \<Rightarrow> unit result) \<Rightarrow> int \<Rightarrow> (string \<Rightarrow> string \<Rightarrow> int result)
    \<Rightarrow> (agentServer \<times> (string \<times> flowManCmd) list) openflow_client" where
  "agent_client um ex now ofCli =
     \<lparr>ocAddFlow = (\<lambda>br f. serve (rpc_AddFlow um ex now br f)),
      ocDelFlow = (\<lambda>br f. serve (rpc_DelFlow um ex now br f)),
      ocSyncFlows = (\<lambda>br. serve (rpc_SyncFlows ex now br)),
      ocDumpBridgePort = (\<lambda>br port st. (st, answered (rpc_DumpBridgePort ofCli br port)))\<rparr>"

section \<open>From the command line to the flow manager\<close>

text \<open>The default flags have the types that the command asks for.\<close>

lemma default_flags_typed:
  "flagSetToFlowArgs (default_flags ''addFlow'') =
     \<lparr>pbCookie = 0, pbTable = 0, pbPriority = 0, pbMatches = '''', pbActions = ''normal''\<rparr>"
  "\<forall>cmd \<in> {''addFlow'', ''delFlow'', ''syncFlows'', ''dumpBridgePort''}.
     snd (GetString (default_flags cmd) ''sock'') = None \<and> snd (GetString (default_flags cmd) ''bridge'') = None"
  by (code_simp, simp add: default_flags_def InitCmdFlags_def sockFlag_def GetString_def)

lemma managed_call:
  assumes "agent_reach s" "gm_get (asFlowMans s) br = Some fm" "um (OvsFlow_text f) = Inr fl"
  shows "rpc_AddFlow um ex now br f s = (s, [(br, AddFlowCmd fl)], Inr (newResponse None))"
    "rpc_DelFlow um ex now br f s = (s, [(br, DelFlowCmd fl)], Inr (newResponse None))"
    "rpc_SyncFlows ex now br s = (s, [(br, SyncFlowsCmd)], Inr (newResponse None))"
  using assms agent_reach_bridge [OF assms(1,2)]
  by (simp_all add: rpc_AddFlow_def rpc_DelFlow_def rpc_SyncFlows_def OvsFlow_def send_to_def GetFlowMan_def)

lemma cli_logged_ok: "cli_logged (st, Inr (newResponse None)) p = (st, Inr \<lparr>coLog = [], coStdout = []\<rparr>)"
  by (simp add: cli_logged_def handleResponse_def newResponse_def)

lemma DoCmd_managed:
  assumes "agent_reach s" "gm_get (asFlowMans s) br = Some fm" "um (OvsFlow_text (flagSetToFlowArgs fs)) = Inr fl"
    and "GetString fs ''sock'' = (sock, None)" "GetString fs ''bridge'' = (br, None)"
    and "dial (''unix://'' @ sock) = Inr (agent_client um ex now ofCli)"
  shows "DoCmd dial ''addFlow'' fs (s, cs) = ((s, cs @ [(br, AddFlowCmd fl)]), Inr \<lparr>coLog = [], coStdout = []\<rparr>)"
    "DoCmd dial ''delFlow'' fs (s, cs) = ((s, cs @ [(br, DelFlowCmd fl)]), Inr \<lparr>coLog = [], coStdout = []\<rparr>)"
    "DoCmd dial ''syncFlows'' fs (s, cs) = ((s, cs @ [(br, SyncFlowsCmd)]), Inr \<lparr>coLog = [], coStdout = []\<rparr>)"
  using assms(4-) managed_call [OF assms(1,2), where um = um and f = "flagSetToFlowArgs fs" and fl = fl, OF assms(3)]
  by (simp_all add: DoCmd_def NewClient_def agent_client_def serve_def answered_def flagSetMustGet_def cli_logged_ok newResponse_def)
    (simp_all add: cli_logged_def handleResponse_def)

text \<open>C15: \<open>sdncli addFlow\<close> on a bridge with a manager, with flags whose text is a flow, gives the manager one
  command, prints and logs nothing, and the manager then has that flow; \<open>sdncli delFlow\<close> with the same flags
  after it takes the flow out again and leaves the manager with the flows it had.\<close>

theorem cli_flow_roundtrip:
  assumes "agent_reach s" "gm_get (asFlowMans s) br = Some fm" "um (OvsFlow_text (flagSetToFlowArgs fs)) = Inr fl"
    and "GetString fs ''sock'' = (sock, None)" "GetString fs ''bridge'' = (br, None)"
    and "dial (''unix://'' @ sock) = Inr (agent_client um ex now ofCli)"
    and "theman_strict m" "fm_abs m THEMAN = Some K" "flow_key fl \<notin> K"
  shows "let quiet = Inr \<lparr>coLog = [], coStdout = []\<rparr>;
             (st1, out1) = DoCmd dial ''addFlow'' fs (s, []);
             (st2, out2) = DoCmd dial ''delFlow'' fs st1
         in out1 = quiet \<and> out2 = quiet \<and> snd st1 = [(br, AddFlowCmd fl)] \<and> fst st2 = s
          \<and> (\<exists>m1 m2. run_cmds cli w m (map snd (snd st1)) = Done m1 w \<and> fm_abs m1 = (fm_abs m)(THEMAN \<mapsto> insert (flow_key fl) K)
               \<and> run_cmds cli w m (map snd (snd st2)) = Done m2 w \<and> fm_abs m2 = fm_abs m)"
proof -
  obtain F where F: "gm_get (flowSets m) THEMAN = Some F" using assms(7) by (auto simp: theman_strict_def)
  then obtain m1 where m1: "run_cmds cli w m [AddFlowCmd fl] = Done m1 w" by simp
  from run_cmds_abs [OF assms(7) _ m1] have a1: "fm_abs m1 = (fm_abs m)(THEMAN \<mapsto> insert (flow_key fl) K)" "theman_strict m1"
    using assms(8) by auto
  then obtain F1 where "gm_get (flowSets m1) THEMAN = Some F1" by (auto simp: theman_strict_def)
  then obtain m2 where m2: "run_cmds cli w m [AddFlowCmd fl, DelFlowCmd fl] = Done m2 w" using m1 F by auto
  from run_cmds_abs [OF assms(7) _ m2] have "fm_abs m2 = fm_abs m"
    using assms(8,9) by (auto simp: fun_eq_iff)
  with m1 m2 a1 show ?thesis by (simp add: DoCmd_managed [OF assms(1,2), where um = um and fs = fs and fl = fl and dial = dial and ex = ex and now = now and ofCli = ofCli and sock = sock, OF assms(3-6)])
qed

text \<open>\<open>sdncli dumpBridgePort\<close> against the agent prints the number of the port, or logs why not; it never uses
  an answer without a number.\<close>

lemma cli_dump_port:
  assumes "GetString fs ''sock'' = (sock, None)" "dial (''unix://'' @ sock) = Inr (agent_client um ex now ofCli)"
    and "ofCli (fst (GetString fs ''bridge'')) (fst (GetString fs ''port'')) = r"
    and "\<And>no. r = Inr no \<Longrightarrow> 0 \<le> no \<and> no < 2 ^ 32"
  shows "DoCmd dial ''dumpBridgePort'' fs st =
    (st, Inr (case r of
       Inr no \<Rightarrow> \<lparr>coLog = [], coStdout = [show_int no]\<rparr>
     | Inl (Err e) \<Rightarrow> \<lparr>coLog = [''dumpBridgePort failure: '' @ e], coStdout = []\<rparr>
     | Inl (Panic e) \<Rightarrow> \<lparr>coLog = [''rpc failure: transport is closing''], coStdout = []\<rparr>))"
  using assms
  by (auto simp: DoCmd_def NewClient_def agent_client_def rpc_DumpBridgePort_def answered_def handleResponse_def flagSetMustGet_def
      unsigned_of_int take_bit_int_eq_self split: sum.split go_error.split)

text \<open>On a bridge that the switch does not have the agent ends; the client logs the failed call and ends
  like after a success.\<close>

lemma cli_unknown_bridge:
  assumes "gm_get (asFlowMans s) br = None" "\<not> is_ok (ex br)"
    and "GetString fs ''sock'' = (sock, None)" "GetString fs ''bridge'' = (br, None)"
    and "dial (''unix://'' @ sock) = Inr (agent_client um ex now ofCli)"
  shows "\<exists>s'. DoCmd dial ''syncFlows'' fs (s, cs) = ((s', cs), Inr \<lparr>coLog = [''rpc failure: transport is closing''], coStdout = []\<rparr>)"
proof -
  have "\<not> is_ok (NewFlowMan ex br)" using assms(2) by (cases "ex br") (auto simp: NewFlowMan_def)
  then obtain s1 where "GetFlowMan ex now br s = (s1, None)"
    using assms(1) by (cases rule: GetFlowMan_cases [of s br ex now]) auto
  then have "rpc_SyncFlows ex now br s = (s1, [], Inl (Panic ''nil pointer dereference''))"
    by (simp add: rpc_SyncFlows_def send_to_def)
  then show ?thesis using assms(3-)
    by (simp add: DoCmd_def NewClient_def agent_client_def serve_def answered_def flagSetMustGet_def cli_logged_def handleResponse_def)
qed

section \<open>The agent with its managers at work\<close>

text \<open>
  The table of managers while the agent runs.  A manager that \<open>GetFlowMan\<close> creates is started
  (\<open>failsafeInit\<close>); the command channel of a manager has no buffer, so a command that is sent is the next one it
  executes; the timers expire and the callers that wait change the wait count.  The switch changes only
  through the managers or by itself.
\<close>

definition agent_put :: "string \<Rightarrow> flow_man \<Rightarrow> agentServer \<Rightarrow> agentServer" where
  "agent_put br fm s = s\<lparr>asFlowMans := gm_set (asFlowMans s) br fm\<rparr>"

definition agent_cmd ::
  "('w, 'mf) ovs_cli \<Rightarrow> 'w \<Rightarrow> string \<Rightarrow> fm_event \<Rightarrow> agentServer \<Rightarrow> (agentServer \<times> 'w) result" where
  "agent_cmd cli w br ev s =
     (case gm_get (asFlowMans s) br of
        None \<Rightarrow> Inl (Panic ''nil pointer dereference'')
      | Some fm \<Rightarrow>
          (case fm_turn cli w fm ev of
             Some (Done fm' w') \<Rightarrow> Inr (agent_put br fm' s, w')
           | Some (Stopped w') \<Rightarrow> Inr (s, w')
           | Some (Exit e) \<Rightarrow> Inl (Panic e)
           | Some Blocked \<Rightarrow> Inl (Err ''blocked'')
           | None \<Rightarrow> Inr (s, w)))"

fun event_ok :: "fm_event \<Rightarrow> bool" where
  "event_ok (Cmd c) = cmd_ok c"
| "event_ok _ = True"

inductive sys_reach ::
  "('w, 'mf) ovs_cli \<Rightarrow> (int \<Rightarrow> int \<Rightarrow> string \<Rightarrow> string \<Rightarrow> flow) \<Rightarrow> agentServer \<Rightarrow> 'w \<Rightarrow> bool" for cli F where
  sys_new: "sys_reach cli F newAgentServer w"
| sys_get: "sys_reach cli F s w \<Longrightarrow> sys_reach cli F (fst (GetFlowMan ex now br s)) w"
| sys_start: "sys_reach cli F s w \<Longrightarrow> gm_get (asFlowMans s) br = Some fm \<Longrightarrow> sys_reach cli F (agent_put br (failsafeInit F fm) s) w"
| sys_turn: "sys_reach cli F s w \<Longrightarrow> event_ok ev \<Longrightarrow> agent_cmd cli w br ev s = Inr (s', w') \<Longrightarrow> sys_reach cli F s' w'"
| sys_wait: "sys_reach cli F s w \<Longrightarrow> gm_get (asFlowMans s) br = Some fm \<Longrightarrow>
    sys_reach cli F (agent_put br (fm\<lparr>waitCount := n\<rparr>) s) w"
| sys_switch: "sys_reach cli F s w \<Longrightarrow> sys_reach cli F s w'"

text \<open>The type of a manager in the table: it has the name it is stored under, a timer that can be stopped
  without blocking, a map of clients with one sorted flow set each, and the set of \<open>THEMAN\<close> without duplicates.\<close>

definition man_typed :: "string \<Rightarrow> flow_man \<Rightarrow> bool" where
  "man_typed br fm \<longleftrightarrow> bridge fm = br \<and> br \<noteq> '''' \<and> fm_inv fm \<and> theman_strict fm"

definition agent_typed :: "agentServer \<Rightarrow> bool" where
  "agent_typed s \<longleftrightarrow> (\<forall>br fm. gm_get (asFlowMans s) br = Some fm \<longrightarrow> man_typed br fm)"

lemma agent_typed_put: "agent_typed s \<Longrightarrow> man_typed br fm \<Longrightarrow> agent_typed (agent_put br fm s)"
  by (auto simp: agent_typed_def agent_put_def)

lemma NewFlowMan_typed: "NewFlowMan ex br = Inr fm \<Longrightarrow> man_typed br fm"
  by (auto simp: NewFlowMan_def res_bind_Inr_iff man_typed_def fm_inv_def theman_strict_def gm_wf_def
      THEMAN_def FAILSAFE_def NewFlowSet_def fs_strict_def fs_sorted_def split: if_splits)

lemma failsafeInit_typed: "man_typed br fm \<Longrightarrow> man_typed br (failsafeInit F fm)"
  by (auto simp: man_typed_def failsafeInit_def fm_inv_def theman_strict_def THEMAN_def FAILSAFE_def NewFlowSetFromList_sorted)

lemma doCmd_bridge: "doCmd cli w fm c = Done fm' w' \<Longrightarrow> bridge fm' = bridge fm"
  by (cases c) (auto split: option.splits dest!: check_and_schedule_Done)

lemma fm_turn_typed:
  assumes "man_typed br fm" "event_ok ev" "fm_turn cli w fm ev = Some (Done fm' w')"
  shows "man_typed br fm'"
proof -
  have "bridge fm' = bridge fm \<and> theman_strict fm'"
  proof (cases ev)
    case (Cmd c)
    with assms show ?thesis using doCmd_refines(2) [of fm c cli w fm' w'] doCmd_bridge [of cli w fm c fm' w']
      by (auto simp: fm_turn_def man_typed_def)
  qed (use assms in \<open>auto simp: fm_turn_def man_typed_def theman_strict_def split: if_splits sum.splits go_error.splits
      dest!: check_and_schedule_Done\<close>)
  with fm_turn_inv [OF _ assms(3)] assms(1) show ?thesis by (simp add: man_typed_def)
qed

lemma sys_reach_typed: "sys_reach cli F s w \<Longrightarrow> agent_typed s"
proof (induction rule: sys_reach.induct)
  case (sys_get s w ex now br)
  then show ?case
    by (cases rule: GetFlowMan_cases [of s br ex now]) (auto simp: agent_typed_def dest: NewFlowMan_typed)
next
  case (sys_start s w br fm)
  then show ?case by (intro agent_typed_put failsafeInit_typed) (auto simp: agent_typed_def)
next
  case (sys_turn s w ev br s' w')
  then obtain fm where fm: "gm_get (asFlowMans s) br = Some fm" by (auto simp: agent_cmd_def split: option.splits)
  with sys_turn have "man_typed br fm" by (simp add: agent_typed_def)
  with sys_turn fm show ?case
    by (auto simp: agent_cmd_def agent_typed_put split: option.splits outcome.splits dest: fm_turn_typed)
next
  case (sys_wait s w br fm n)
  then show ?case
    by (intro agent_typed_put) (auto simp: agent_typed_def man_typed_def fm_inv_def theman_strict_def)
qed (simp_all add: agent_typed_def newAgentServer_def)

text \<open>C5: in every state that the agent reaches with its managers at work, every manager in the table is well
  formed, and a well formed manager cannot go wrong: as long as the database socket exists and the client
  library does not panic, no event of a manager in the table ends the agent or blocks it.\<close>

theorem agent_managers_typed:
  assumes "sys_reach cli F s w"
  shows "agent_typed s
    \<and> (\<forall>br fm ev. gm_get (asFlowMans s) br = Some fm \<longrightarrow> DbSockExists cli w \<longrightarrow>
         (\<nexists>p. DumpBridgeFlows cli w br = Inl (Panic p)) \<longrightarrow> is_ok (agent_cmd cli w br ev s))"
proof (intro conjI allI impI)
  show t: "agent_typed s" using assms by (rule sys_reach_typed)
  fix br fm ev
  assume fm: "gm_get (asFlowMans s) br = Some fm" and w: "DbSockExists cli w" "\<nexists>p. DumpBridgeFlows cli w br = Inl (Panic p)"
  with t have m: "bridge fm = br" "fm_inv fm" by (auto simp: agent_typed_def man_typed_def)
  show "is_ok (agent_cmd cli w br ev s)"
    using fm_turn_outcome [OF m(2) w(1), of ev] w(2) m(1) fm
    by (cases "fm_turn cli w fm ev") (auto simp: agent_cmd_def split: outcome.splits)
qed

section \<open>Examples\<close>

definition demo_agent :: agentServer where
  "demo_agent = fst (GetFlowMan demo_exists 0 ''br0'' newAgentServer)"

definition demo_um :: "string \<Rightarrow> flow result" where
  "demo_um txt = Inr (ex_flow 3)"

definition demo_dial :: "string \<Rightarrow> (agentServer \<times> (string \<times> flowManCmd) list) openflow_client result" where
  "demo_dial path = Inr (agent_client demo_um demo_exists 0 (\<lambda>_ _. Inr 7))"

theorem cli_flow_roundtrip_witness:
  "snd (fst (DoCmd demo_dial ''addFlow'' (default_flags ''addFlow'') (demo_agent, []))) = [(''br0'', AddFlowCmd (ex_flow 3))]
   \<and> (\<exists>m2. run_cmds list_switch [] ex_started [AddFlowCmd (ex_flow 3), DelFlowCmd (ex_flow 3)] = Done m2 []
        \<and> fm_abs m2 = fm_abs ex_started)"
proof -
  obtain fm where fm: "gm_get (asFlowMans demo_agent) ''br0'' = Some fm"
    by (simp add: demo_agent_def GetFlowMan_def newAgentServer_def error_recent_def NewFlowMan_def demo_exists_def)
  have r: "agent_reach demo_agent" unfolding demo_agent_def by (rule agent_get [OF agent_new])
  have fl: "GetString (default_flags ''addFlow'') ''sock'' = (''/var/run/yunion-sdnagent.sock'', None)"
    "GetString (default_flags ''addFlow'') ''bridge'' = (''br0'', None)" by code_simp+
  have st: "theman_strict ex_started" "fm_abs ex_started THEMAN = Some {}"
    by (simp_all add: theman_strict_def fm_abs_def ex_started_def failsafeInit_def THEMAN_def FAILSAFE_def NewFlowSet_def fs_strict_def fs_keys_def)
  have d: "demo_dial (''unix://'' @ ''/var/run/yunion-sdnagent.sock'') = Inr (agent_client demo_um demo_exists 0 (\<lambda>_ _. Inr 7))"
    by (simp add: demo_dial_def)
  have um: "demo_um (OvsFlow_text (flagSetToFlowArgs (default_flags ''addFlow''))) = Inr (ex_flow 3)" by (simp add: demo_um_def)
  note dm = DoCmd_managed [OF r fm, where um = demo_um and dial = demo_dial and ex = demo_exists and now = 0 and ofCli = "\<lambda>_ _. Inr 7"
      and fs = "default_flags ''addFlow''", OF um fl d]
  from cli_flow_roundtrip [OF r fm, where um = demo_um and dial = demo_dial and ex = demo_exists and now = 0 and ofCli = "\<lambda>_ _. Inr 7"
      and fs = "default_flags ''addFlow''", OF um fl d st, of list_switch "[]"]
  show ?thesis by (simp add: dm del: run_cmds.simps) blast
qed

theorem agent_managers_typed_witness:
  "agent_typed demo_agent \<and> is_ok (agent_cmd list_switch [] ''br0'' (Cmd (AddFlowCmd (ex_flow 3))) demo_agent)"
proof -
  obtain fm where fm: "gm_get (asFlowMans demo_agent) ''br0'' = Some fm"
    by (simp add: demo_agent_def GetFlowMan_def newAgentServer_def error_recent_def NewFlowMan_def demo_exists_def)
  have r: "sys_reach list_switch (\<lambda>t p m a. ex_flow t) demo_agent []" unfolding demo_agent_def by (rule sys_get [OF sys_new])
  have w: "DbSockExists list_switch []" "\<nexists>p. DumpBridgeFlows list_switch [] ''br0'' = Inl (Panic p)"
    by (simp_all add: list_switch_def)
  from agent_managers_typed [OF r] fm w show ?thesis by blast
qed

end
