(* ===== verification/Requests.thy ===== *)
theory Requests
  imports Prelude
begin

text \<open>
  The requests between goroutines: \<open>SetGuestNICs\<close> of the VPC manager (\<open>ovn.go\<close>) and of the VPC metadata manager
  (\<open>ovn-md.go\<close>), \<open>FindGuestDescByNetIdIP\<close> and \<open>FindGuestDescByHostLocalIp\<close> of the watcher (\<open>watch.go\<close>), and the calls
  on forwards, \<open>Do\<close>, \<open>RespPb\<close> and \<open>RespErr\<close> of \<open>grpc_fwd.go\<close>.

  In each of them a client sends a request on a channel without buffer to the loop of a manager, the manager
  handles it and sends the answer on a second channel.  They differ in which of the three channel operations
  also wait for the end of a context, in whether the manager closes its channel when its context ends, and in
  whether client and manager have the same context.  The model is the system of one client and one manager
  for an arbitrary such protocol; the protocols of the agent are values of it.
\<close>

section \<open>Protocols\<close>

record protocol =
  sendCtx :: bool
  recvCtx :: bool
  replyCtx :: bool
  closeOnExit :: bool
  sameCtx :: bool

definition ovn_SetGuestNICs :: protocol where
  "ovn_SetGuestNICs = \<lparr>sendCtx = False, recvCtx = False, replyCtx = False, closeOnExit = True, sameCtx = True\<rparr>"

definition ovnMd_SetGuestNICs :: protocol where
  "ovnMd_SetGuestNICs = \<lparr>sendCtx = True, recvCtx = True, replyCtx = False, closeOnExit = False, sameCtx = True\<rparr>"

definition FindGuestDescByNetIdIP :: protocol where
  "FindGuestDescByNetIdIP = \<lparr>sendCtx = False, recvCtx = False, replyCtx = False, closeOnExit = False, sameCtx = False\<rparr>"

definition FindGuestDescByHostLocalIp :: protocol where
  "FindGuestDescByHostLocalIp = \<lparr>sendCtx = False, recvCtx = False, replyCtx = False, closeOnExit = False, sameCtx = False\<rparr>"

text \<open>The requests of the VPC metadata manager to one of its servers, \<open>Request\<close> with the list of forwards as the
  answer.\<close>

definition ovnMdServer_Request :: protocol where
  "ovnMdServer_Request = \<lparr>sendCtx = True, recvCtx = True, replyCtx = True, closeOnExit = False, sameCtx = True\<rparr>"

definition ovnMdFwdReq_Do :: protocol where
  "ovnMdFwdReq_Do = \<lparr>sendCtx = True, recvCtx = True, replyCtx = True, closeOnExit = False, sameCtx = False\<rparr>"

section \<open>The system of a client and a manager\<close>

datatype client = CIdle | CSending | CWaiting | CAnswered | CGone

datatype manager = MLoop | MHandling | MReplying | MExited

record rdv =
  rvClient :: client
  rvManager :: manager
  rvClosed :: bool
  rvClientCtx :: bool
  rvManagerCtx :: bool
  rvPanic :: bool

text \<open>A client does not call when it sees that the manager's channel is gone (\<open>man.c == nil\<close> in \<open>ovn.go\<close>).  \<open>rvClientCtx\<close> and \<open>rvManagerCtx\<close> say that the context of the client and of the manager has ended.\<close>

definition rdv_init :: rdv where
  "rdv_init = \<lparr>rvClient = CIdle, rvManager = MLoop, rvClosed = False, rvClientCtx = False, rvManagerCtx = False, rvPanic = False\<rparr>"

datatype rdv_act =
    Calls
  | Takes
  | SendGivesUp
  | SendOnClosed
  | Handled
  | Replies
  | ReplyGivesUp
  | RecvGivesUp
  | Exits
  | EndClientCtx
  | EndManagerCtx

fun rdv_enabled :: "protocol \<Rightarrow> rdv_act \<Rightarrow> rdv \<Rightarrow> bool" where
  "rdv_enabled p Calls r \<longleftrightarrow> (rvClient r = CIdle \<or> rvClient r = CAnswered) \<and> \<not> rvClosed r"
| "rdv_enabled p Takes r \<longleftrightarrow> rvClient r = CSending \<and> rvManager r = MLoop"
| "rdv_enabled p SendGivesUp r \<longleftrightarrow> rvClient r = CSending \<and> sendCtx p \<and> rvClientCtx r"
| "rdv_enabled p SendOnClosed r \<longleftrightarrow> rvClient r = CSending \<and> rvClosed r"
| "rdv_enabled p Handled r \<longleftrightarrow> rvManager r = MHandling"
| "rdv_enabled p Replies r \<longleftrightarrow> rvManager r = MReplying \<and> rvClient r = CWaiting"
| "rdv_enabled p ReplyGivesUp r \<longleftrightarrow> rvManager r = MReplying \<and> replyCtx p \<and> rvManagerCtx r"
| "rdv_enabled p RecvGivesUp r \<longleftrightarrow> rvClient r = CWaiting \<and> recvCtx p \<and> rvClientCtx r"
| "rdv_enabled p Exits r \<longleftrightarrow> rvManager r = MLoop \<and> rvManagerCtx r"
| "rdv_enabled p EndClientCtx r \<longleftrightarrow> \<not> rvClientCtx r"
| "rdv_enabled p EndManagerCtx r \<longleftrightarrow> \<not> rvManagerCtx r"

fun rdv_effect :: "protocol \<Rightarrow> rdv_act \<Rightarrow> rdv \<Rightarrow> rdv" where
  "rdv_effect p Calls r = r\<lparr>rvClient := CSending\<rparr>"
| "rdv_effect p Takes r = r\<lparr>rvClient := CWaiting, rvManager := MHandling\<rparr>"
| "rdv_effect p SendGivesUp r = r\<lparr>rvClient := CGone\<rparr>"
| "rdv_effect p SendOnClosed r = r\<lparr>rvPanic := True\<rparr>"
| "rdv_effect p Handled r = r\<lparr>rvManager := MReplying\<rparr>"
| "rdv_effect p Replies r = r\<lparr>rvClient := CAnswered, rvManager := MLoop\<rparr>"
| "rdv_effect p ReplyGivesUp r = r\<lparr>rvManager := MLoop\<rparr>"
| "rdv_effect p RecvGivesUp r = r\<lparr>rvClient := CGone\<rparr>"
| "rdv_effect p Exits r = r\<lparr>rvManager := MExited, rvClosed := closeOnExit p\<rparr>"
| "rdv_effect p EndClientCtx r = r\<lparr>rvClientCtx := True, rvManagerCtx := (rvManagerCtx r \<or> sameCtx p)\<rparr>"
| "rdv_effect p EndManagerCtx r = r\<lparr>rvManagerCtx := True, rvClientCtx := (rvClientCtx r \<or> sameCtx p)\<rparr>"

definition rdv_do :: "protocol \<Rightarrow> rdv_act \<Rightarrow> rdv \<Rightarrow> rdv option" where
  "rdv_do p a r = (if \<not> rvPanic r \<and> rdv_enabled p a r then Some (rdv_effect p a r) else None)"

fun rdv_run :: "protocol \<Rightarrow> rdv_act list \<Rightarrow> rdv \<Rightarrow> rdv option" where
  "rdv_run p [] r = Some r"
| "rdv_run p (a # as) r = (case rdv_do p a r of None \<Rightarrow> None | Some r' \<Rightarrow> rdv_run p as r')"

inductive rdv_reach :: "protocol \<Rightarrow> rdv \<Rightarrow> bool" for p where
  rdv_start: "rdv_reach p rdv_init"
| rdv_step: "rdv_reach p r \<Longrightarrow> rdv_do p a r = Some r' \<Longrightarrow> rdv_reach p r'"

lemma rdv_run_reach: "rdv_run p as r = Some r' \<Longrightarrow> rdv_reach p r \<Longrightarrow> rdv_reach p r'"
  by (induction as arbitrary: r) (auto split: option.splits intro: rdv_step)

lemma rdv_do_Some: "rdv_do p a r = Some r' \<longleftrightarrow> \<not> rvPanic r \<and> rdv_enabled p a r \<and> r' = rdv_effect p a r"
  by (auto simp: rdv_do_def)

section \<open>What every protocol keeps\<close>

text \<open>The manager works on a request only for a client that waits for it or has given up waiting, and a client
  that waits is being served.  A panic needs a manager that closes its channel.\<close>

definition rdv_ok :: "protocol \<Rightarrow> rdv \<Rightarrow> bool" where
  "rdv_ok p r \<longleftrightarrow> (rvClient r = CWaiting \<longrightarrow> rvManager r = MHandling \<or> rvManager r = MReplying \<or> (replyCtx p \<and> rvManagerCtx r))
     \<and> (rvManager r = MHandling \<or> rvManager r = MReplying \<longrightarrow> rvClient r = CWaiting \<or> (rvClient r = CGone \<and> rvClientCtx r \<and> recvCtx p))
     \<and> (rvManager r = MExited \<longrightarrow> rvManagerCtx r)
     \<and> (rvClient r = CGone \<longrightarrow> rvClientCtx r)
     \<and> (sameCtx p \<longrightarrow> rvClientCtx r = rvManagerCtx r)
     \<and> (rvClosed r \<longrightarrow> closeOnExit p \<and> rvManager r = MExited) \<and> (rvPanic r \<longrightarrow> closeOnExit p)"

lemma rdv_ok_step: "rdv_do p a r = Some r' \<Longrightarrow> rdv_ok p r \<Longrightarrow> rdv_ok p r'"
  by (cases a) (auto simp: rdv_do_Some rdv_ok_def)

lemma rdv_reach_ok: "rdv_reach p r \<Longrightarrow> rdv_ok p r"
  by (induction rule: rdv_reach.induct) (simp add: rdv_ok_def rdv_init_def, rule rdv_ok_step)

text \<open>While no context has ended every call is answered: a client that has called gets its answer in at most
  three actions, whatever state the manager is in, and is the only one served.\<close>

lemma rdv_answers:
  assumes "rdv_reach p r" "\<not> rvClientCtx r" "\<not> rvManagerCtx r" "\<not> rvPanic r" "rvClient r = CSending \<or> rvClient r = CWaiting"
  shows "\<exists>as r'. length as \<le> 3 \<and> rdv_run p as r = Some r' \<and> rvClient r' = CAnswered \<and> rvManager r' = MLoop"
proof -
  have ok: "rdv_ok p r" by (rule rdv_reach_ok [OF assms(1)])
  consider "rvClient r = CSending" "rvManager r = MLoop" | "rvClient r = CWaiting" "rvManager r = MHandling"
    | "rvClient r = CWaiting" "rvManager r = MReplying"
    using assms ok by (cases "rvManager r") (auto simp: rdv_ok_def)
  then show ?thesis
  proof cases
    case 1
    then show ?thesis using assms(4) by (intro exI [of _ "[Takes, Handled, Replies]"]) (simp add: rdv_do_def)
  next
    case 2
    then show ?thesis using assms(4) by (intro exI [of _ "[Handled, Replies]"]) (simp add: rdv_do_def)
  next
    case 3
    then show ?thesis using assms(4) by (intro exI [of _ "[Replies]"]) (simp add: rdv_do_def)
  qed
qed

section \<open>Protocols that can be shut down\<close>

text \<open>A protocol whose operations all wait for their contexts too: when the contexts have ended neither side
  can be stuck.\<close>

locale careful_protocol =
  fixes p :: protocol
  assumes send_ctx: "sendCtx p" and recv_ctx: "recvCtx p" and reply_ctx: "replyCtx p" and no_close: "\<not> closeOnExit p"
begin

lemma no_panic: "rdv_reach p r \<Longrightarrow> \<not> rvPanic r"
  using rdv_reach_ok no_close by (auto simp: rdv_ok_def)

lemma manager_ends:
  assumes "rdv_reach p r" "rvManagerCtx r" "rvManager r \<noteq> MExited"
  shows "\<exists>a. rdv_do p a r \<noteq> None"
proof -
  have "rdv_enabled p (case rvManager r of MLoop \<Rightarrow> Exits | MHandling \<Rightarrow> Handled | _ \<Rightarrow> ReplyGivesUp) r"
    using assms(2,3) reply_ctx by (cases "rvManager r") auto
  then show ?thesis using no_panic [OF assms(1)] unfolding rdv_do_def by (metis option.discI)
qed

lemma client_ends:
  assumes "rdv_reach p r" "rvClientCtx r" "rvClient r = CSending \<or> rvClient r = CWaiting"
  shows "rdv_do p (if rvClient r = CSending then SendGivesUp else RecvGivesUp) r \<noteq> None"
  using assms(2,3) send_ctx recv_ctx no_panic [OF assms(1)] by (auto simp: rdv_do_def)

end

interpretation fwd_calls: careful_protocol ovnMdFwdReq_Do
  by unfold_locales (simp_all add: ovnMdFwdReq_Do_def)

interpretation md_server: careful_protocol ovnMdServer_Request
  by unfold_locales (simp_all add: ovnMdServer_Request_def)

section \<open>Protocols that cannot\<close>

text \<open>A manager that waits for a client that has gone waits for ever.\<close>

lemma reply_stuck:
  assumes "rvManager r = MReplying" "rvClient r = CGone" "\<not> replyCtx p" "rdv_run p as r = Some r'"
  shows "rvManager r' = MReplying \<and> rvClient r' = CGone"
  using assms
proof (induction as arbitrary: r)
  case (Cons a as)
  then obtain r1 where r1: "rdv_do p a r = Some r1" "rdv_run p as r1 = Some r'" by (auto split: option.splits)
  then have "rvManager r1 = MReplying" "rvClient r1 = CGone"
    using Cons.prems by (cases a; auto simp: rdv_do_Some)+
  with Cons.IH r1 Cons.prems(3) show ?case by blast
qed simp

definition shutdown_run :: "rdv_act list" where
  "shutdown_run = [Calls, Takes, EndClientCtx, RecvGivesUp, Handled]"



text \<open>A shutdown between the start of the watcher's request to the VPC manager and its delivery: the manager
  closes the channel on which the watcher is sending, which panics.\<close>

lemma ovn_request_panics:
  "\<exists>r. rdv_run ovn_SetGuestNICs [Calls, EndManagerCtx, Exits, SendOnClosed] rdv_init = Some r \<and> rvPanic r"
  by (simp add: ovn_SetGuestNICs_def rdv_init_def rdv_do_def)

text \<open>A metadata request that asks the watcher for a guest after the watcher has ended waits for ever.\<close>

lemma find_guest_stuck:
  assumes "\<not> sendCtx p" "rvClient r = CSending" "rvManager r = MExited" "\<not> rvClosed r" "rdv_run p as r = Some r'"
  shows "rvClient r' = CSending \<and> rvManager r' = MExited \<and> \<not> rvClosed r'"
  using assms(2-)
proof (induction as arbitrary: r)
  case (Cons a as)
  then obtain r1 where r1: "rdv_do p a r = Some r1" "rdv_run p as r1 = Some r'" by (auto split: option.splits)
  then have "rvClient r1 = CSending" "rvManager r1 = MExited" "\<not> rvClosed r1"
    using Cons.prems assms(1) by (cases a; auto simp: rdv_do_Some)+
  with Cons.IH r1 show ?case by blast
qed simp

lemma find_guest_hangs:
  assumes "p = FindGuestDescByNetIdIP \<or> p = FindGuestDescByHostLocalIp"
  shows "\<exists>r. rdv_run p [EndManagerCtx, Exits, Calls] rdv_init = Some r
     \<and> (\<forall>as r'. rdv_run p as r = Some r' \<longrightarrow> rvClient r' = CSending)"
proof -
  define r where "r = rdv_init\<lparr>rvClient := CSending, rvManager := MExited, rvManagerCtx := True\<rparr>"
  have p: "\<not> sendCtx p" "\<not> sameCtx p" "\<not> closeOnExit p"
    using assms by (auto simp: FindGuestDescByNetIdIP_def FindGuestDescByHostLocalIp_def)
  then have "rdv_run p [EndManagerCtx, Exits, Calls] rdv_init = Some r"
    by (simp add: rdv_init_def rdv_do_def r_def)
  then show ?thesis using find_guest_stuck [OF p(1), of r] by (auto simp: r_def rdv_init_def)
qed

end
