(* ===== verification/Lifecycle.thy ===== *)
theory Lifecycle
  imports GoStr Requests
begin

text \<open>
  How the agent starts and stops: \<open>StartService\<close> with the pid file of \<open>pkg/agent/server/service.go\<close>, \<open>Start\<close>
  and \<open>Stop\<close> of \<open>pkg/agent/server/server.go\<close>, the goroutines that \<open>Start\<close> of the watcher (\<open>watch.go\<close>), of the
  elastic address manager (\<open>eip.go\<close>) and \<open>GetFlowMan\<close> start, and the calls that the gRPC server has in progress.

  The state is the wait group, the context, the goroutines that have called \<open>wg.Add\<close> and not \<open>wg.Done\<close> yet, the
  calls in progress, and how far \<open>Start\<close>, the watcher and \<open>Stop\<close> have come; \<open>life_do\<close> performs one action of one
  of them.  A goroutine ends when it sees that the context is cancelled; the watcher also ends on an error.  The
  VPC metadata manager does not end when it is caught in a request that its client has left (\<open>Requests\<close>).
\<close>

section \<open>The pid file\<close>

text \<open>The file is opened without truncation and written from its beginning.\<close>

definition write_at_start :: "string \<Rightarrow> string \<Rightarrow> string" where
  "write_at_start new old = new @ drop (length new) old"

definition pid_line :: "int \<Rightarrow> string" where
  "pid_line pid = show_int pid @ [CHR 0x0A]"

text \<open>\<open>lockPidFile\<close>: the content of the file if there is one, whether another process holds the lock, and
  whether the file can be opened and written.  The result is the new content and whether the lock is held.\<close>

record pid_env =
  peOpen :: "unit result"
  peFlock :: "unit result"
  peWrite :: "unit result"
  pePid :: int

definition lockPidFile :: "pid_env \<Rightarrow> string option \<Rightarrow> string option \<times> unit result" where
  "lockPidFile env old =
     (case peOpen env of
        Inl e \<Rightarrow> (old, Inl e)
      | Inr _ \<Rightarrow>
          let old' = (case old of None \<Rightarrow> '''' | Some c \<Rightarrow> c)
          in case peFlock env of
               Inl e \<Rightarrow> (Some old', Inl e)
             | Inr _ \<Rightarrow>
                 (case peWrite env of
                    Inl e \<Rightarrow> (Some old', Inl e)
                  | Inr _ \<Rightarrow> (Some (write_at_start (pid_line (pePid env)) old'), Inr ())))"

definition unlockPidFile :: "string option \<Rightarrow> string option" where
  "unlockPidFile content = None"

text \<open>A pid file that is empty, missing or not longer than the new line holds the pid afterwards; the tail of a
  longer one stays.\<close>

lemma lockPidFile_content:
  assumes "peOpen env = Inr ()" "peFlock env = Inr ()" "peWrite env = Inr ()"
  shows "lockPidFile env None = (Some (pid_line (pePid env)), Inr ())"
    "lockPidFile env (Some old) = (Some (pid_line (pePid env)), Inr ()) \<longleftrightarrow> length old \<le> length (pid_line (pePid env))"
  using assms by (auto simp: lockPidFile_def write_at_start_def)

section \<open>Goroutines\<close>

datatype goroutine = GWatcher | GJanitor | GTcMan | GOvnMan | GOvnMdMan | GEipMan | GApiHelper | GTapMan | GFlowMan string

text \<open>The options of the host configuration that decide what is started.\<close>

record life_cfg =
  SdnEnableGuestMan :: bool
  SdnEnableTcManOpt :: bool
  DisableLocalVpcOpt :: bool
  SdnEnableEipMan :: bool
  SdnEnableTapMan :: bool

text \<open>The steps of \<open>Start\<close>: the context and its cancel function, the gRPC server with its socket, and the
  goroutines, each with its \<open>wg.Add\<close>.  At the end comes the deferred \<open>wg.Wait\<close>.\<close>

datatype start_step = SetCtx | NewRpcServer | Go "goroutine list"

definition server_Start_steps :: "life_cfg \<Rightarrow> start_step list" where
  "server_Start_steps cfg =
     [SetCtx]
     @ (if SdnEnableGuestMan cfg then [NewRpcServer, Go [GWatcher, GJanitor]] else [])
     @ (if \<not> DisableLocalVpcOpt cfg \<and> SdnEnableEipMan cfg then [Go [GEipMan]] else [])
     @ (if SdnEnableTapMan cfg then [Go [GTapMan]] else [])"

definition watcher_gos :: "life_cfg \<Rightarrow> goroutine list" where
  "watcher_gos cfg =
     (if SdnEnableTcManOpt cfg then [GTcMan] else [])
     @ (if DisableLocalVpcOpt cfg then [] else [GOvnMan, GOvnMdMan])"

text \<open>The calls of the gRPC server: one on flows is done when a flow manager has taken its command, one on
  forwards when the loop of the VPC metadata manager has answered it.\<close>

datatype rpc_call = FlowCall | ForwardCall

text \<open>\<open>lfStop\<close> is where the function of \<open>s.once\<close> is: not called, called, done; with whether there was a server to be
  stopped, which then takes no more calls.\<close>

datatype stop_state = NotStopped | Stopping bool | Stopped bool

record life =
  lfMain :: "start_step list"
  lfWatcher :: "goroutine list"
  lfEip :: "goroutine list"
  lfCtx :: bool
  lfCancelled :: bool
  lfRpc :: bool
  lfWg :: int
  lfRun :: "goroutine list"
  lfCalls :: "rpc_call list"
  lfStop :: stop_state
  lfMdStuck :: bool
  lfDead :: "string option"
  lfReturned :: bool

definition life_init :: "life_cfg \<Rightarrow> life" where
  "life_init cfg = \<lparr>lfMain = server_Start_steps cfg, lfWatcher = watcher_gos cfg, lfEip = [GApiHelper], lfCtx = False,
     lfCancelled = False, lfRpc = False, lfWg = 0, lfRun = [], lfCalls = [], lfStop = NotStopped, lfMdStuck = False, lfDead = None,
     lfReturned = False\<rparr>"

text \<open>\<open>wg.Add\<close> and the goroutines; \<open>wg.Done\<close> of a goroutine that ends.\<close>

definition spawn :: "goroutine list \<Rightarrow> life \<Rightarrow> life" where
  "spawn gs l = l\<lparr>lfWg := lfWg l + int (length gs), lfRun := lfRun l @ gs\<rparr>"

definition finish :: "goroutine \<Rightarrow> life \<Rightarrow> life" where
  "finish g l = l\<lparr>lfWg := lfWg l - 1, lfRun := remove1 g (lfRun l)\<rparr>"

datatype life_act =
    MainStep bool
  | MainReturn
  | WatcherGo
  | EipGo
  | NewManager string
  | EndOf goroutine
  | MdManBlocks
  | WatcherFails
  | CallStop
  | StopReturns
  | CallBegins rpc_call
  | CallEnds rpc_call
  | ClientGivesUp rpc_call

text \<open>A step of \<open>Start\<close>; the socket may not open, which ends the process.\<close>

fun server_Start_do :: "bool \<Rightarrow> life \<Rightarrow> life option" where
  "server_Start_do ok l =
     (case lfMain l of
        [] \<Rightarrow> None
      | SetCtx # p \<Rightarrow> Some (l\<lparr>lfMain := p, lfCtx := True\<rparr>)
      | NewRpcServer # p \<Rightarrow>
          if ok then Some (l\<lparr>lfMain := p, lfRpc := True\<rparr>) else Some (l\<lparr>lfDead := Some ''listen failed''\<rparr>)
      | Go gs # p \<Rightarrow> Some (spawn gs (l\<lparr>lfMain := p\<rparr>)))"

text \<open>\<open>Stop\<close>: only the first call of it does anything.\<close>

definition server_Stop_begin :: "life \<Rightarrow> life option" where
  "server_Stop_begin l = (if lfStop l = NotStopped then Some (l\<lparr>lfStop := Stopping (lfRpc l)\<rparr>) else Some l)"

definition server_Stop_end :: "life \<Rightarrow> life option" where
  "server_Stop_end l =
     (case lfStop l of
        Stopping graceful \<Rightarrow>
          if graceful \<and> lfCalls l \<noteq> [] then None
          else if lfCtx l then Some (l\<lparr>lfStop := Stopped graceful, lfCancelled := True\<rparr>)
          else Some (l\<lparr>lfDead := Some ''nil function call''\<rparr>)
      | _ \<Rightarrow> None)"

definition call_ends :: "rpc_call \<Rightarrow> life \<Rightarrow> life" where
  "call_ends c l = l\<lparr>lfCalls := remove1 c (lfCalls l)\<rparr>"

fun life_do :: "life_act \<Rightarrow> life \<Rightarrow> life option" where
  "life_do a l =
     (if lfDead l \<noteq> None \<or> lfReturned l then None
      else case a of
        MainStep ok \<Rightarrow> server_Start_do ok l
      | MainReturn \<Rightarrow> if lfMain l = [] \<and> lfWg l = 0 then Some (l\<lparr>lfReturned := True\<rparr>) else None
      | WatcherGo \<Rightarrow>
          (case lfWatcher l of
             g # gs \<Rightarrow> if GWatcher \<in> set (lfRun l) then Some (spawn [g] (l\<lparr>lfWatcher := gs\<rparr>)) else None
           | [] \<Rightarrow> None)
      | EipGo \<Rightarrow>
          (case lfEip l of
             g # gs \<Rightarrow> if GEipMan \<in> set (lfRun l) then Some (spawn [g] (l\<lparr>lfEip := gs\<rparr>)) else None
           | [] \<Rightarrow> None)
      | NewManager br \<Rightarrow>
          if (GWatcher \<in> set (lfRun l) \<or> GEipMan \<in> set (lfRun l) \<or> GTapMan \<in> set (lfRun l) \<or> FlowCall \<in> set (lfCalls l))
             \<and> GFlowMan br \<notin> set (lfRun l)
          then Some (spawn [GFlowMan br] l) else None
      | EndOf g \<Rightarrow> if lfCancelled l \<and> g \<in> set (lfRun l) \<and> (g = GOvnMdMan \<longrightarrow> \<not> lfMdStuck l) then Some (finish g l) else None
      | MdManBlocks \<Rightarrow> if lfCancelled l \<and> GOvnMdMan \<in> set (lfRun l) then Some (l\<lparr>lfMdStuck := True\<rparr>) else None
      | WatcherFails \<Rightarrow> if GWatcher \<in> set (lfRun l) then server_Stop_begin (finish GWatcher l) else None
      | CallStop \<Rightarrow> server_Stop_begin l
      | StopReturns \<Rightarrow> server_Stop_end l
      | CallBegins c \<Rightarrow>
          if lfRpc l \<and> lfStop l \<noteq> Stopping True \<and> lfStop l \<noteq> Stopped True then Some (l\<lparr>lfCalls := lfCalls l @ [c]\<rparr>) else None
      | CallEnds c \<Rightarrow>
          if c \<in> set (lfCalls l) \<and> (c = ForwardCall \<longrightarrow> GOvnMdMan \<in> set (lfRun l)) then Some (call_ends c l) else None
      | ClientGivesUp c \<Rightarrow> if c \<in> set (lfCalls l) then Some (call_ends c l) else None)"

fun life_run :: "life_act list \<Rightarrow> life \<Rightarrow> life option" where
  "life_run [] l = Some l"
| "life_run (a # as) l = (case life_do a l of None \<Rightarrow> None | Some l' \<Rightarrow> life_run as l')"

inductive life_reach :: "life_cfg \<Rightarrow> life \<Rightarrow> bool" for cfg where
  life_start: "life_reach cfg (life_init cfg)"
| life_step: "life_reach cfg l \<Longrightarrow> life_do a l = Some l' \<Longrightarrow> life_reach cfg l'"

lemma life_run_reach: "life_run as l = Some l' \<Longrightarrow> life_reach cfg l \<Longrightarrow> life_reach cfg l'"
  by (induction as arbitrary: l) (auto simp del: life_do.simps split: option.splits intro: life_step)

text \<open>One case for every action that is possible.\<close>

lemma life_do_cases:
  assumes "life_do a l = Some l'"
  obtains (setctx) p where "lfMain l = SetCtx # p" "l' = l\<lparr>lfMain := p, lfCtx := True\<rparr>"
  | (rpc) p where "lfMain l = NewRpcServer # p" "l' = l\<lparr>lfMain := p, lfRpc := True\<rparr>"
  | (dead) e where "l' = l\<lparr>lfDead := Some e\<rparr>"
  | (go) gs p where "lfMain l = Go gs # p" "l' = spawn gs (l\<lparr>lfMain := p\<rparr>)"
  | (return) "a = MainReturn" "lfMain l = []" "lfWg l = 0" "l' = l\<lparr>lfReturned := True\<rparr>"
  | (watcher) g gs where "lfWatcher l = g # gs" "l' = spawn [g] (l\<lparr>lfWatcher := gs\<rparr>)"
  | (eip) g gs where "lfEip l = g # gs" "l' = spawn [g] (l\<lparr>lfEip := gs\<rparr>)"
  | (manager) br where "l' = spawn [GFlowMan br] l"
  | (ends) g where "lfCancelled l" "g \<in> set (lfRun l)" "g = GOvnMdMan \<longrightarrow> \<not> lfMdStuck l" "l' = finish g l"
  | (mdblocks) "lfCancelled l" "GOvnMdMan \<in> set (lfRun l)" "l' = l\<lparr>lfMdStuck := True\<rparr>"
  | (fails) "GWatcher \<in> set (lfRun l)" "server_Stop_begin (finish GWatcher l) = Some l'"
  | (stop) "server_Stop_begin l = Some l'"
  | (stopped) graceful where "lfStop l = Stopping graceful" "graceful \<longrightarrow> lfCalls l = []" "lfCtx l"
      "l' = l\<lparr>lfStop := Stopped graceful, lfCancelled := True\<rparr>"
  | (begins) c where "lfRpc l" "l' = l\<lparr>lfCalls := lfCalls l @ [c]\<rparr>"
  | (callends) c where "c = ForwardCall \<longrightarrow> GOvnMdMan \<in> set (lfRun l)" "l' = call_ends c l"
  | (gives_up) c where "a = ClientGivesUp c" "l' = call_ends c l"
proof -
  from assms have alive: "\<not> (lfDead l \<noteq> None \<or> lfReturned l)" by (auto split: if_splits)
  show thesis
  proof (cases a)
    case (MainStep ok)
    with assms alive have "server_Start_do ok l = Some l'" by simp
    then show ?thesis using setctx rpc dead go by (auto split: list.splits start_step.splits if_splits)
  next
    case StopReturns
    with assms alive have "server_Stop_end l = Some l'" by simp
    then show ?thesis using stopped dead by (auto simp: server_Stop_end_def split: stop_state.splits if_splits)
  next
    case MainReturn
    with assms alive return show ?thesis by (auto split: if_splits)
  next
    case WatcherGo
    with assms alive watcher show ?thesis by (auto split: if_splits list.splits)
  next
    case EipGo
    with assms alive eip show ?thesis by (auto split: if_splits list.splits)
  next
    case (NewManager br)
    with assms alive manager [of br] show ?thesis by (auto split: if_splits)
  next
    case (EndOf g)
    with assms alive ends [of g] show ?thesis by (auto split: if_splits)
  next
    case MdManBlocks
    with assms alive mdblocks show ?thesis by (auto split: if_splits)
  next
    case WatcherFails
    with assms alive fails show ?thesis by (auto split: if_splits)
  next
    case CallStop
    with assms alive stop show ?thesis by auto
  next
    case (CallBegins c)
    with assms alive begins [of c] show ?thesis by (auto split: if_splits)
  next
    case (CallEnds c)
    with assms alive callends [of c] show ?thesis by (auto split: if_splits)
  next
    case (ClientGivesUp c)
    with assms alive gives_up [of c] show ?thesis by (auto split: if_splits)
  qed
qed

section \<open>The wait group\<close>

definition wg_ok :: "life \<Rightarrow> bool" where
  "wg_ok l \<longleftrightarrow> lfWg l = int (length (lfRun l))"

lemma wg_ok_spawn [simp]: "wg_ok (spawn gs l) = wg_ok l"
  by (auto simp: wg_ok_def spawn_def)

lemma wg_ok_finish: "wg_ok l \<Longrightarrow> g \<in> set (lfRun l) \<Longrightarrow> wg_ok (finish g l)"
  by (cases "length (lfRun l)") (auto simp: wg_ok_def finish_def length_remove1)

lemma wg_ok_other [simp]:
  "wg_ok (l\<lparr>lfMain := p\<rparr>) = wg_ok l" "wg_ok (l\<lparr>lfWatcher := gs\<rparr>) = wg_ok l" "wg_ok (l\<lparr>lfEip := gs\<rparr>) = wg_ok l"
  "wg_ok (l\<lparr>lfCtx := b\<rparr>) = wg_ok l" "wg_ok (l\<lparr>lfRpc := b\<rparr>) = wg_ok l" "wg_ok (l\<lparr>lfDead := d\<rparr>) = wg_ok l"
  "wg_ok (l\<lparr>lfReturned := b\<rparr>) = wg_ok l" "wg_ok (l\<lparr>lfStop := st\<rparr>) = wg_ok l" "wg_ok (l\<lparr>lfCancelled := b\<rparr>) = wg_ok l"
  "wg_ok (l\<lparr>lfCalls := cs\<rparr>) = wg_ok l" "wg_ok (l\<lparr>lfMdStuck := b\<rparr>) = wg_ok l"
  by (simp_all add: wg_ok_def)

lemma Stop_begin_cases:
  "server_Stop_begin l = Some l' \<Longrightarrow> l' = l \<or> (lfStop l = NotStopped \<and> l' = l\<lparr>lfStop := Stopping (lfRpc l)\<rparr>)"
  by (auto simp: server_Stop_begin_def split: if_splits)

lemma wg_ok_step: "life_do a l = Some l' \<Longrightarrow> wg_ok l \<Longrightarrow> wg_ok l'"
  by (erule life_do_cases) (auto simp: call_ends_def dest!: Stop_begin_cases intro: wg_ok_finish)

lemma life_reach_wg: "life_reach cfg l \<Longrightarrow> wg_ok l"
  by (induction rule: life_reach.induct) (simp add: wg_ok_def life_init_def, rule wg_ok_step)

text \<open>With the context cancelled the goroutines can end one by one, and \<open>Start\<close> can return.\<close>

lemma all_end:
  "lfCancelled l \<Longrightarrow> lfDead l = None \<Longrightarrow> \<not> lfReturned l \<Longrightarrow> lfMain l = [] \<Longrightarrow> wg_ok l \<Longrightarrow> \<not> lfMdStuck l \<Longrightarrow>
   life_run (map EndOf (lfRun l) @ [MainReturn]) l = Some (l\<lparr>lfRun := [], lfWg := 0, lfReturned := True\<rparr>)"
proof (induction "lfRun l" arbitrary: l)
  case Nil
  then show ?case by (simp add: wg_ok_def)
next
  case (Cons g gs)
  have f: "finish g l = l\<lparr>lfWg := lfWg l - 1, lfRun := gs\<rparr>" by (simp add: finish_def flip: Cons.hyps(2))
  have s: "life_do (EndOf g) l = Some (finish g l)" using Cons.prems by (simp flip: Cons.hyps(2))
  have "wg_ok (finish g l)" using Cons.prems(5) by (rule wg_ok_finish) (simp flip: Cons.hyps(2))
  then have "life_run (map EndOf gs @ [MainReturn]) (finish g l) = Some ((finish g l)\<lparr>lfRun := [], lfWg := 0, lfReturned := True\<rparr>)"
    using Cons.hyps(1) [of "finish g l"] Cons.prems by (simp add: f del: life_do.simps)
  then show ?case using s by (simp add: f del: life_do.simps flip: Cons.hyps(2))
qed

lemma main_ends:
  "lfCancelled l \<Longrightarrow> lfDead l = None \<Longrightarrow> \<not> lfReturned l \<Longrightarrow> wg_ok l \<Longrightarrow> \<not> lfMdStuck l \<Longrightarrow>
   \<exists>as l'. life_run as l = Some l' \<and> lfReturned l' \<and> lfRun l' = []"
proof (induction "length (lfMain l)" arbitrary: l)
  case 0
  then have "lfMain l = []" by simp
  from all_end [OF 0(2-4) this 0(5,6)] show ?case
    by (intro exI [of _ "map EndOf (lfRun l) @ [MainReturn]"]) simp
next
  case (Suc n)
  then obtain st p where p: "lfMain l = st # p" by (cases "lfMain l") auto
  define l1 where "l1 = (case st of SetCtx \<Rightarrow> l\<lparr>lfMain := p, lfCtx := True\<rparr> | NewRpcServer \<Rightarrow> l\<lparr>lfMain := p, lfRpc := True\<rparr>
      | Go gs \<Rightarrow> spawn gs (l\<lparr>lfMain := p\<rparr>))"
  have d: "life_do (MainStep True) l = Some l1" using Suc.prems p by (cases st) (simp_all add: l1_def)
  have "lfMain l1 = p" "lfCancelled l1" "lfDead l1 = None" "\<not> lfReturned l1" "\<not> lfMdStuck l1"
    using Suc.prems by (cases st; simp add: l1_def spawn_def)+
  moreover have "wg_ok l1" using wg_ok_step [OF d Suc.prems(4)] .
  ultimately obtain as l' where "life_run as l1 = Some l'" "lfReturned l'" "lfRun l' = []"
    using Suc.hyps(1) [of l1] Suc.hyps(2) p by auto
  then show ?case using d by (intro exI [of _ "MainStep True # as"] exI [of _ l']) (simp del: life_do.simps)
qed


text \<open>With the VPC metadata manager caught in a request \<open>Start\<close> never returns.\<close>

lemma md_stuck_stays:
  "life_do a l = Some l' \<Longrightarrow> lfMdStuck l \<Longrightarrow> GOvnMdMan \<in> set (lfRun l) \<Longrightarrow> wg_ok l \<Longrightarrow>
   lfMdStuck l' \<and> GOvnMdMan \<in> set (lfRun l') \<and> \<not> (\<not> lfReturned l \<and> lfReturned l')"
  by (erule life_do_cases) (auto simp: spawn_def finish_def call_ends_def wg_ok_def dest!: Stop_begin_cases)

lemma md_stuck_never_returns:
  "life_run as l = Some l' \<Longrightarrow> lfMdStuck l \<Longrightarrow> GOvnMdMan \<in> set (lfRun l) \<Longrightarrow> wg_ok l \<Longrightarrow> \<not> lfReturned l \<Longrightarrow> \<not> lfReturned l'"
proof (induction as arbitrary: l)
  case (Cons a as)
  then obtain l1 where l1: "life_do a l = Some l1" "life_run as l1 = Some l'" by (auto simp del: life_do.simps split: option.splits)
  from md_stuck_stays [OF l1(1) Cons.prems(2-4)] wg_ok_step [OF l1(1) Cons.prems(4)] Cons.IH [OF l1(2)] Cons.prems(5)
  show ?case by blast
qed simp

section \<open>Stopping\<close>

text \<open>A stop before \<open>Start\<close> has set the cancel function, which the signal handler and the watch of the
  configuration can cause, ends the process with a nil function call.\<close>

lemma stop_before_start_panics:
  "\<exists>l. life_run [CallStop, StopReturns] (life_init cfg) = Some l \<and> lfDead l = Some ''nil function call''"
  by (simp add: life_init_def server_Stop_begin_def server_Stop_end_def)

text \<open>What keeps a stop from coming to its end: a call on forwards while nothing runs, or will run, that
  answers it.\<close>

definition no_md_man :: "life \<Rightarrow> bool" where
  "no_md_man l \<longleftrightarrow> GOvnMdMan \<notin> set (lfRun l) \<and> GOvnMdMan \<notin> set (lfWatcher l) \<and> GOvnMdMan \<notin> set (lfEip l)
     \<and> (\<forall>gs. Go gs \<in> set (lfMain l) \<longrightarrow> GOvnMdMan \<notin> set gs)"

text \<open>The janitor runs from the start of the server, or is started with it, until the context is cancelled.\<close>

abbreviation janitor_step :: start_step where
  "janitor_step \<equiv> Go [GWatcher, GJanitor]"

definition janitor_on :: "life \<Rightarrow> bool" where
  "janitor_on l \<longleftrightarrow> (\<forall>p q. lfMain l = p @ NewRpcServer # q \<longrightarrow> janitor_step \<in> set q)
     \<and> (lfRpc l \<and> \<not> lfCancelled l \<longrightarrow> GJanitor \<in> set (lfRun l) \<or> janitor_step \<in> set (lfMain l))"

definition stop_ok :: "life \<Rightarrow> bool" where
  "stop_ok l \<longleftrightarrow> (lfStop l = NotStopped \<longrightarrow> \<not> lfCancelled l) \<and> (lfCalls l \<noteq> [] \<longrightarrow> lfRpc l)"

lemma no_md_man_step: "life_do a l = Some l' \<Longrightarrow> no_md_man l \<Longrightarrow> no_md_man l'"
  by (erule life_do_cases)
     (auto simp: no_md_man_def spawn_def finish_def call_ends_def dest!: Stop_begin_cases dest: notin_set_remove1)

lemma janitor_on_main:
  "lfMain l = x # p \<Longrightarrow> janitor_on l \<Longrightarrow> p = q @ NewRpcServer # r \<Longrightarrow> janitor_step \<in> set r"
  unfolding janitor_on_def by (metis append_Cons)

lemma janitor_on_rpc: "lfMain l = NewRpcServer # p \<Longrightarrow> janitor_on l \<Longrightarrow> janitor_step \<in> set p"
  unfolding janitor_on_def by (metis append_Nil)

lemma janitor_on_step:
  assumes "life_do a l = Some l'" "janitor_on l"
  shows "janitor_on l'"
  using assms(1)
proof (cases rule: life_do_cases)
  case (setctx p)
  then show ?thesis using janitor_on_main [OF setctx(1) assms(2)] assms(2) by (auto simp: janitor_on_def)
next
  case (rpc p)
  then show ?thesis using janitor_on_main [OF rpc(1) assms(2)] janitor_on_rpc [OF rpc(1) assms(2)] by (auto simp: janitor_on_def)
next
  case (go gs p)
  then show ?thesis using janitor_on_main [OF go(1) assms(2)] assms(2) by (auto simp: janitor_on_def spawn_def)
qed (use assms(2) in \<open>auto simp: janitor_on_def spawn_def finish_def call_ends_def dest!: Stop_begin_cases\<close>)

lemma stop_ok_step: "life_do a l = Some l' \<Longrightarrow> stop_ok l \<Longrightarrow> stop_ok l'"
  by (erule life_do_cases) (auto simp: stop_ok_def spawn_def finish_def call_ends_def dest!: Stop_begin_cases)

lemma life_reach_stop_ok: "life_reach cfg l \<Longrightarrow> stop_ok l"
  by (induction rule: life_reach.induct) (simp add: stop_ok_def life_init_def, rule stop_ok_step)

lemma janitor_on_init: "janitor_on (life_init cfg)"
  by (auto simp: janitor_on_def life_init_def server_Start_steps_def Cons_eq_append_conv)

lemma life_reach_janitor: "life_reach cfg l \<Longrightarrow> janitor_on l"
  by (induction rule: life_reach.induct) (rule janitor_on_init, rule janitor_on_step)

lemma life_reach_no_md: "life_reach cfg l \<Longrightarrow> DisableLocalVpcOpt cfg \<Longrightarrow> no_md_man l"
  by (induction rule: life_reach.induct)
     (simp add: no_md_man_def life_init_def server_Start_steps_def watcher_gos_def, rule no_md_man_step)

definition blocked :: "life \<Rightarrow> bool" where
  "blocked l \<longleftrightarrow> ForwardCall \<in> set (lfCalls l) \<and> no_md_man l \<and> janitor_on l \<and> wg_ok l
     \<and> lfRpc l \<and> \<not> lfCancelled l \<and> (lfStop l = NotStopped \<or> lfStop l = Stopping True) \<and> \<not> lfReturned l"

lemma call_remains: "life_do a l = Some l' \<Longrightarrow> ForwardCall \<in> set (lfCalls l) \<Longrightarrow> no_md_man l \<Longrightarrow> (\<And>c. a \<noteq> ClientGivesUp c) \<Longrightarrow>
   ForwardCall \<in> set (lfCalls l')"
  by (erule life_do_cases) (auto simp: no_md_man_def spawn_def finish_def call_ends_def dest!: Stop_begin_cases)

lemma blocked_stays:
  assumes "life_do a l = Some l'" "blocked l"
  shows "lfRpc l' \<and> \<not> lfCancelled l' \<and> (lfStop l' = NotStopped \<or> lfStop l' = Stopping True) \<and> \<not> lfReturned l'"
  using assms(1)
proof (cases rule: life_do_cases)
  case return
  then show ?thesis using assms(2) by (auto simp: blocked_def janitor_on_def wg_ok_def)
next
  case fails
  then show ?thesis using assms(2) by (auto simp: blocked_def finish_def dest!: Stop_begin_cases)
next
  case stop
  then show ?thesis using assms(2) by (auto simp: blocked_def dest!: Stop_begin_cases)
qed (use assms(2) in \<open>auto simp: blocked_def spawn_def call_ends_def\<close>)

lemma blocked_step:
  assumes "life_do a l = Some l'" "blocked l" "\<And>c. a \<noteq> ClientGivesUp c"
  shows "blocked l'"
  using blocked_stays [OF assms(1,2)] call_remains [OF assms(1) _ _ assms(3)] no_md_man_step [OF assms(1)]
    janitor_on_step [OF assms(1)] wg_ok_step [OF assms(1)] assms(2)
  by (simp add: blocked_def)

lemma blocked_run:
  "life_run as l = Some l' \<Longrightarrow> blocked l \<Longrightarrow> \<forall>c. ClientGivesUp c \<notin> set as \<Longrightarrow> blocked l'"
  by (induction as arbitrary: l) (auto simp del: life_do.simps split: option.splits dest: blocked_step)


section \<open>The service\<close>

text \<open>\<open>StartService\<close> up to \<open>Start\<close>: what each of its calls returns decides how far it comes.  \<open>log.Fatalln\<close> ends the
  process, an error of the pid file or the socket makes it return; after the pid file is locked a return
  removes it.\<close>

record service_env =
  seHostConfig :: "unit result"
  seMacReady :: "unit result"
  seAuth :: "unit result"
  sePid :: pid_env
  seRemoveSock :: "unit result"
  seSockMissing :: bool

datatype service_out = ServiceFatal string | ServiceReturns | ServiceStarts

definition StartService :: "service_env \<Rightarrow> string option \<Rightarrow> string option \<times> service_out" where
  "StartService env pidfile =
     (if \<not> is_ok (seHostConfig env) then (pidfile, ServiceFatal ''host config'')
      else if \<not> is_ok (seMacReady env) then (pidfile, ServiceFatal ''wait addr ready'')
      else if \<not> is_ok (seAuth env) then (pidfile, ServiceFatal ''keystone auth'')
      else case lockPidFile (sePid env) pidfile of
             (content, Inl e) \<Rightarrow> (content, ServiceReturns)
           | (content, Inr _) \<Rightarrow>
               if \<not> is_ok (seRemoveSock env) \<and> \<not> seSockMissing env then (unlockPidFile content, ServiceReturns)
               else (content, ServiceStarts))"

text \<open>A second instance, which does not get the lock, leaves the content of the pid file alone.\<close>

lemma second_instance:
  assumes "peFlock (sePid env) = Inl e"
  shows "snd (StartService env (Some c)) \<noteq> ServiceStarts \<and> fst (StartService env (Some c)) = Some c"
  using assms by (auto simp: StartService_def lockPidFile_def split: sum.split)

lemma pid_file_keeps_tail:
  "fst (lockPidFile \<lparr>peOpen = Inr (), peFlock = Inr (), peWrite = Inr (), pePid = 77\<rparr> (Some (pid_line 12345))) =
     Some (pid_line 77 @ pid_line 45)"
  by code_simp

section \<open>Examples\<close>

definition demo_life_cfg :: life_cfg where
  "demo_life_cfg = \<lparr>SdnEnableGuestMan = True, SdnEnableTcManOpt = True, DisableLocalVpcOpt = True, SdnEnableEipMan = True, SdnEnableTapMan = True\<rparr>"

definition demo_life_run :: "life_act list" where
  "demo_life_run = [MainStep True, MainStep True, MainStep True, WatcherGo, CallBegins ForwardCall]"

definition demo_life :: life where
  "demo_life = (case life_run demo_life_run (life_init demo_life_cfg) of Some l \<Rightarrow> l | None \<Rightarrow> life_init demo_life_cfg)"

lemma demo_life_run: "life_run demo_life_run (life_init demo_life_cfg) = Some demo_life"
  by (simp add: demo_life_def demo_life_run_def life_init_def demo_life_cfg_def server_Start_steps_def watcher_gos_def spawn_def)

lemma demo_life_reach: "life_reach demo_life_cfg demo_life"
  by (rule life_run_reach [OF demo_life_run life_start])



end
