(* ===== verification/Spec2Isabelle.thy ===== *)
theory Spec2Isabelle
  imports FlowMan ZoneMan TcMan SecurityRules Route SecGroup Watcher OvnMan OvnMd EipMan TapMan Janitor Agent
    Forward Cli Requests Lifecycle
begin

text \<open>
  Verification of the sdnagent, the network agent of a host: it installs OpenFlow flows, traffic
  control and routes for the guests of the host, keeps the patch ports and translation flows of
  VPC networks and elastic addresses, serves metadata, and maintains taps and mirrors.

  \<^bold>\<open>The program.\<close>  A watcher follows the directory of guest descriptions.  Each guest is loaded,
  its cards get conntrack zones, and its flows are generated and sent to the flow manager of each
  bridge; traffic control goes to the tc manager, VPC cards to the VPC manager and the metadata
  manager.  A flow manager merges the flows of its clients into sorted sets and from time to time
  makes the tables of the switch equal to them.  Independently of guests, the manager of elastic
  addresses follows the data of the region, the tap manager its configuration, and a janitor
  deletes ports that nobody knows.  The managers and servers are goroutines of one wait group, started and
  stopped together; \<open>sdncli\<close> asks the agent for flows, ports and forwards.

  \<^bold>\<open>The theories\<close>, with the files below \<open>src/pkg\<close> that they model:

  \<^item> \<open>Prelude\<close>, \<open>GoStr\<close>, \<open>GoPath\<close>: results with errors and panics, Go maps as association lists,
    comparisons, sorting, and what the program uses of \<open>strings\<close>, \<open>strconv\<close>, \<open>net\<close> and \<open>path\<close>.  The
    prelude has the interfaces between components as locales: comparisons by a key (interpreted
    for flows, strings, qdiscs, classes and filters), sets kept as sorted lists (flow sets),
    allocators of unique ids (conntrack zones), keys of two parts (addresses of networks, ports of
    bridges), and names of patch ports (VPC cards and elastic addresses).
  \<^item> \<open>FlowSet\<close>, \<open>FlowMan\<close>: \<open>agent/utils/utils.go\<close>, \<open>flowset.go\<close>, \<open>agent/server/flowman.go\<close>.  The
    comparison of flows is a total preorder; the binary search, insertion, removal and difference
    on sorted slices are the set operations and the smallest patch; the loop never blocks; a check
    makes the switch equal to the merged flows and the next one has nothing to do.
  \<^item> \<open>ZoneMan\<close>: \<open>agent/utils/ct_zone.go\<close>.  Zones are unique and in range in every reachable state, and
    allocation ends, with zones kept as 16-bit words.
  \<^item> \<open>TcUnits\<close>, \<open>TcObjs\<close>, \<open>TcTree\<close>, \<open>TcMan\<close>: \<open>tc\<close>, \<open>agent/utils/tcdata.go\<close>, \<open>agent/server/tcman.go\<close>.
    Parsing and printing of handles and rates, the difference of two trees against a reference
    definition, and the manager's book of sections.
  \<^item> \<open>SecurityRules\<close>, \<open>Route\<close>, \<open>HostConfig\<close>: \<open>agent/utils/securityrules.go\<close>, \<open>route.go\<close>,
    \<open>hostconfig.go\<close>, \<open>hostlocal.go\<close>, \<open>cls_md.go\<close>.  Port ranges as masks, longest prefix match, the
    networks of the host and the addresses of metadata clients.
  \<^item> \<open>Guest\<close>, \<open>FlowSource\<close>, \<open>GuestFlows\<close>, \<open>SecGroup\<close>: \<open>agent/utils/guest.go\<close>, \<open>flowsource.go\<close>.  Loading
    of descriptions, the flows of hosts and guests, and that the tables of a card decide packets by
    the first rule that matches.
  \<^item> \<open>GuestSync\<close>, \<open>Watcher\<close>: \<open>agent/server/guest.go\<close>, \<open>watch.go\<close>, \<open>hostlocal.go\<close>.  Reloading and clearing of
    guests, the events and the loop of the watcher, with the invariant of its reachable states.
  \<^item> \<open>OvnMan\<close>, \<open>OvnMd\<close>, \<open>EipMan\<close>: \<open>agent/server/ovn.go\<close>, \<open>ovn-md.go\<close> with \<open>grpc_fwd.go\<close>, \<open>eip.go\<close>.  What the
    cleanups delete, exactly; which networks have a metadata server and which addresses it knows;
    forwards that open, are listed and close; the flows of elastic addresses; the fields of the
    answers to address requests.
  \<^item> \<open>TapMan\<close>, \<open>Janitor\<close>: \<open>agent/server/tap.go\<close>, \<open>ifaces.go\<close>.  The ports of the tap bridge after a
    synchronisation, whatever was there before; names of mirrors; the tables read from the switch;
    which ports the janitor deletes.
  \<^item> \<open>Agent\<close>: \<open>GetFlowMan\<close> of \<open>agent/server/server.go\<close>, \<open>openflow.go\<close>, \<open>agent/proto/flow.go\<close>,
    \<open>agent/utils/cache_port_stats.go\<close>, \<open>ovsctl.go\<close>.  One manager per bridge, the calls on flows, and how old
    an answer of the port cache can be.
  \<^item> \<open>Forward\<close>: \<open>nsRun\<close>, \<open>Serve\<close> and \<open>serveConn\<close> of \<open>ovn-md.go\<close>.  The two ends and the copying
    goroutines of a forwarded connection as a transition system: bytes arrive in order, the connection
    ends, and what is lost when one side closes.
  \<^item> \<open>Cli\<close>: \<open>src/cmd/sdncli\<close>, \<open>agent/client.go\<close>, \<open>agent/server/vswitch.go\<close>.  Flags and commands of the client,
    the calls that they make and the server's answers, down to the flow managers of the agent.
  \<^item> \<open>Requests\<close>: the calls that other goroutines make to the loops of \<open>ovn-md.go\<close>, \<open>ovn.go\<close> and \<open>watch.go\<close> over
    pairs of channels.  The locale \<open>careful_protocol\<close> says when such a call always ends; the calls of the forwarding
    service satisfy it, and the lemmas show which other calls do not.
  \<^item> \<open>Lifecycle\<close>: \<open>Start\<close>, \<open>Stop\<close> and the wait group of \<open>server.go\<close>, the pid file and
    \<open>StartService\<close> of \<open>service.go\<close>.  \<open>Start\<close> returns after every goroutine of the group, and what keeps it
    from returning.

  The theorems of this theory span components: the flows generated for a guest are the flows that
  the flow manager holds for it, the removal of a guest takes them away again, and the flows of the
  elastic addresses of the region end in the tables of the switch.

  \<^bold>\<open>State and effects.\<close>  A struct is a record, an operation a function that returns it updated; loops are
  structural recursions, or functions with a measure where they are not.  The only
  fuel is that of the search for a free zone, one unit per zone id; that it is enough is part of the
  theorem that allocation ends.  Commands to the switch, the kernel, iptables and other goroutines are values in the order
  in which they are given; what such a command returns is a field of an environment record.  The
  tap manager asks the switch again after it has changed it, so there the state of the switch is
  passed through, with its documented laws (\<open>switch_laws\<close>) as a hypothesis.  Goroutines that serve
  requests one at a time are step functions; reachable states are inductive predicates over them.  Where
  the interleaving of goroutines matters, each atomic action is a constructor and the program a partial
  step function on the shared state: \<open>fwd_do\<close> for a forwarded connection, \<open>rdv_do\<close> for calls over
  channels, \<open>life_do\<close> for starting and stopping; the theorems hold for every schedule.

  \<^bold>\<open>Parameters.\<close>  The text parser of the OVS library, the parsers of IPv6 addresses and JSON, the
  region's API, the switch and the kernel are parameters.  Hypotheses on them are named and have a
  witness with a concrete function: for instance \<open>rejects_bad_nw_dst\<close> for a parser that reads the
  argument of an IPv4 action as an IPv4 address.

  \<^bold>\<open>Not modelled.\<close>  Generated messages, the insides of the cobra, viper and gRPC libraries, the execution of
  processes and system calls, the HTTP handlers of the metadata service (a package outside the
  repository), log messages, and races on memory that two goroutines write without a lock.
\<close>

section \<open>From the watcher to the flow managers\<close>

lemma sent_to_flow_cmds:
  assumes "gm_wf bfs"
  shows "sent_to br (flow_cmds env who bfs) =
    (case gm_get bfs br of Some fs \<Rightarrow> if seFlowMan env br then [UpdateFlowsCmd who fs] else [] | None \<Rightarrow> [])"
  using assms
  by (induction bfs) (auto simp: flow_cmds_def sent_to_def gm_wf_def map_of_eq_None_iff image_iff split: option.splits)

lemma append_flows_wf: "gm_wf fm \<Longrightarrow> gm_wf (append_flows fm b fs)"
  by (simp add: append_flows_def split: option.split)

lemma merge_flows_map_wf: "gm_wf r \<Longrightarrow> gm_wf (merge_flows_map r fm)"
  by (induction r fm rule: merge_flows_map.induct) (auto simp: append_flows_wf)

lemma FlowsMap_loop_wf:
  "FlowsMap_loop env mdPort g hc r good nics = (hc', Inr (fm, b)) \<Longrightarrow> gm_wf r \<Longrightarrow> gm_wf fm"
  by (induction nics arbitrary: hc r good)
     (auto simp: merge_flows_map_wf split: prod.splits sum.splits go_error.splits)

lemma built_flows_get:
  assumes "built_flows env fm = Inr bfs" "gm_wf fm"
  shows "gm_wf bfs" "gm_get fm br = Some specs \<Longrightarrow>
    \<exists>fs. res_map (F (seUnmarshal env)) specs = Inr fs \<and> gm_get bfs br = Some fs"
proof -
  have "map fst bfs = map fst fm \<and> (gm_get fm br = Some specs \<longrightarrow>
      (\<exists>fs. res_map (F (seUnmarshal env)) specs = Inr fs \<and> gm_get bfs br = Some fs))"
    using assms(1) unfolding built_flows_def
    by (induction fm arbitrary: bfs) (auto simp: res_bind_Inr_iff)
  with assms(2) show "gm_wf bfs" "gm_get fm br = Some specs \<Longrightarrow>
    \<exists>fs. res_map (F (seUnmarshal env)) specs = Inr fs \<and> gm_get bfs br = Some fs"
    by (auto simp: gm_wf_def)
qed

text \<open>The commands that an update of the classic flows of a guest sends to a bridge.\<close>

lemma updateClassicFlows_sends:
  assumes "updateClassicFlows env st g = Inr st'"
    and "FlowsMap (seFlow env) (md_ports st) g (ssHostConfig st) = (hc', Inr (m, r))"
    and "gm_get m br = Some specs" "seFlowMan env br"
  shows "\<exists>fs. res_map (F (seUnmarshal env)) specs = Inr fs
    \<and> sent_to br (drop (length (ssOut st)) (ssOut st')) = [UpdateFlowsCmd (gId g) fs]"
proof -
  have "gm_wf m"
    using assms(2) FlowsMap_loop_wf [of "seFlow env" "md_ports st" g "ssHostConfig st" "[]" True "gNICs g"]
    by (auto simp: FlowsMap_def res_bind_Inr_iff split: prod.splits)
  moreover obtain bfs where b: "built_flows env m = Inr bfs"
    and st': "st' = emit (flow_cmds env (gId g) bfs) (st\<lparr>ssHostConfig := hc'\<rparr>)"
    using assms(1,2) by (auto simp: updateClassicFlows_def res_bind_Inr_iff)
  ultimately obtain fs where "res_map (F (seUnmarshal env)) specs = Inr fs" "gm_get bfs br = Some fs" "gm_wf bfs"
    using built_flows_get [OF b] assms(3) by blast
  with assms(4) show ?thesis by (auto simp: st' emit_def sent_to_flow_cmds)
qed

text \<open>C7: updating the flows of a guest reaches the flow managers: a manager of a bridge for which
  flows were generated, once it has executed the commands it was sent, holds for the guest
  exactly those flows, as the OVS library reads their texts, and for every other client what it
  held before.\<close>

theorem guest_flows_reach_flowman:
  assumes "updateClassicFlows env st g = Inr st'"
    and "FlowsMap (seFlow env) (md_ports st) g (ssHostConfig st) = (hc', Inr (m, r))"
    and "gm_get m (bridge fm) = Some specs" "seFlowMan env (bridge fm)"
    and "theman_strict fm" "gId g \<noteq> THEMAN"
    and "run_cmds cli s fm (sent_to (bridge fm) (drop (length (ssOut st)) (ssOut st'))) = Done fm' s'"
  shows "\<exists>fs. res_map (F (seUnmarshal env)) specs = Inr fs \<and> fm_abs fm' = (fm_abs fm)(gId g \<mapsto> fs_keys fs)"
proof -
  from updateClassicFlows_sends [OF assms(1-4)] obtain fs where
    fs: "res_map (F (seUnmarshal env)) specs = Inr fs"
    "sent_to (bridge fm) (drop (length (ssOut st)) (ssOut st')) = [UpdateFlowsCmd (gId g) fs]" by blast
  from run_cmds_abs [OF assms(5) _ assms(7)] fs assms(6) show ?thesis by auto
qed

text \<open>C8: the removal of a guest reaches the flow managers: the manager of every bridge of its cards,
  once it has executed the commands it was sent in that turn, holds no flow for the guest and
  for every other client what it held before.\<close>

theorem removal_reaches_flowman:
  assumes "gm_get (wGuests w) gid = Some g" "watch_event (ServersPath w) ev = Some wev"
    and "weType wev = watchEventTypeDelServerDir" "weGuestId wev = gid" "zone_ok (ssZoneMan (wSync w))"
    and "watcher_turn env w (InEvent ev) = WGo w'"
    and "bridge fm \<in> nicBridge ` set (gNICs (sgGuest g))" "seFlowMan (weSync env) (bridge fm)"
    and "theman_strict fm" "gId (sgGuest g) \<noteq> THEMAN"
    and "run_cmds cli s fm (sent_to (bridge fm) (drop (length (ssOut (wSync w))) (ssOut (wSync w')))) = Done fm' s'"
  shows "fm_abs fm' = (fm_abs fm)(gId (sgGuest g) \<mapsto> {})"
proof -
  let ?bs = "filter (seFlowMan (weSync env)) (remdups (map nicBridge (gNICs (sgGuest g))))"
  have one: "sent_to br (map (\<lambda>b. FlowCmd b c) bs) = (if br \<in> set bs then [c] else [])" if "distinct bs" for br c bs
    using that by (induction bs) (auto simp: sent_to_def)
  have "sent_to (bridge fm) (drop (length (ssOut (wSync w))) (ssOut (wSync w'))) =
    [UpdateFlowsCmd (gId (sgGuest g)) []]"
    using removal_effect [OF assms(1-5), of env] assms(6-8)
    by (auto simp: one) (auto simp: sent_to_def)
  with run_cmds_abs [OF assms(9) _ assms(11)] assms(10) show ?thesis by (auto simp: fs_keys_def)
qed

text \<open>A guest with one card on \<open>br0\<close>, and a switch library that reads every text as the same flow.\<close>

definition demo_up_env :: sync_env where
  "demo_up_env = demo_sync_env\<lparr>seFlow := demo_env, seUnmarshal := \<lambda>_. Inr (ex_flow 0)\<rparr>"

definition demo_up_state :: sync_state where
  "demo_up_state = demo_state\<lparr>ssHostConfig := demo_hc, ssHostLocals := [(''br0'', \<lparr>hlNetIndex = 0, hlPort = 9886\<rparr>)]\<rparr>"

lemma ex_started_strict: "theman_strict ex_started"
  by (simp add: theman_strict_def ex_started_def failsafeInit_def THEMAN_def FAILSAFE_def NewFlowSet_def fs_strict_def)

lemma run_cmds_Done:
  "(case run_cmds cli s fm cs of Done fm' s' \<Rightarrow> True | _ \<Rightarrow> False) \<Longrightarrow> \<exists>fm' s'. run_cmds cli s fm cs = Done fm' s'"
  by (simp split: outcome.splits)

theorem removal_reaches_flowman_witness:
  "\<exists>w' fm' s'. watcher_turn demo_watch_env
       \<lparr>wSync = demo_state, wGuests = [(demo_uuid, demo_sg)], wNetIdIpNicCache = Map.empty,
        wBridgeIpNicCache = Map.empty, wBridgeMap = []\<rparr>
       (InEvent \<lparr>evName = ''/opt/servers/01234567-89ab-cdef-0123-456789abcdef'',
         evCreate = False, evWrite = False, evRemove = True\<rparr>) = WGo w'
     \<and> run_cmds list_switch [] ex_started (sent_to ''br0'' (ssOut (wSync w'))) = Done fm' s'
     \<and> fm_abs fm' = (fm_abs ex_started)(''g1'' \<mapsto> {})"
proof -
  let ?w = "\<lparr>wSync = demo_state, wGuests = [(demo_uuid, demo_sg)], wNetIdIpNicCache = Map.empty,
        wBridgeIpNicCache = Map.empty, wBridgeMap = []\<rparr> :: (string \<rightharpoonup> string) serversWatcher"
  let ?ev = "\<lparr>evName = ''/opt/servers/01234567-89ab-cdef-0123-456789abcdef'',
         evCreate = False, evWrite = False, evRemove = True\<rparr>"
  have ev: "watch_event (ServersPath ?w) ?ev = Some \<lparr>weType = watchEventTypeDelServerDir, weGuestId = demo_uuid,
     weGuestPath = ''/opt/servers/01234567-89ab-cdef-0123-456789abcdef''\<rparr>" by code_simp
  have "case watcher_turn demo_watch_env ?w (InEvent ?ev) of
      WGo w' \<Rightarrow> (case run_cmds list_switch [] ex_started (sent_to ''br0'' (ssOut (wSync w'))) of Done fm' s' \<Rightarrow> True | _ \<Rightarrow> False)
    | _ \<Rightarrow> False" by code_simp
  then obtain w' fm' s' where t: "watcher_turn demo_watch_env ?w (InEvent ?ev) = WGo w'"
    and run: "run_cmds list_switch [] ex_started (sent_to ''br0'' (ssOut (wSync w'))) = Done fm' s'"
    by (auto split: w_result.splits dest!: run_cmds_Done)
  have br: "bridge ex_started = ''br0''" "ssOut demo_state = []" "gId (sgGuest demo_sg) = ''g1''"
    "seFlowMan (weSync demo_watch_env) ''br0''" "''br0'' \<in> nicBridge ` set (gNICs (sgGuest demo_sg))"
    by code_simp+
  have "fm_abs fm' = (fm_abs ex_started)(gId (sgGuest demo_sg) \<mapsto> {})"
    by (rule removal_reaches_flowman [OF _ ev _ _ _ t])
       (use run br demo_zone_ok ex_started_strict in \<open>simp_all add: THEMAN_def\<close>)
  with t run br(3) show ?thesis by auto
qed

theorem guest_flows_reach_flowman_witness:
  "\<exists>st' fm' s' fs. updateClassicFlows demo_up_env demo_up_state demo_running = Inr st'
     \<and> run_cmds list_switch [] ex_started (sent_to ''br0'' (ssOut st')) = Done fm' s'
     \<and> fm_abs fm' = (fm_abs ex_started)(''g1'' \<mapsto> fs_keys fs)"
proof -
  have "case FlowsMap (seFlow demo_up_env) (md_ports demo_up_state) demo_running (ssHostConfig demo_up_state) of
      (hc, Inr (m, r)) \<Rightarrow> gm_get m ''br0'' \<noteq> None | _ \<Rightarrow> False" by code_simp
  then obtain hc' m r specs where
    m: "FlowsMap (seFlow demo_up_env) (md_ports demo_up_state) demo_running (ssHostConfig demo_up_state) = (hc', Inr (m, r))"
    "gm_get m ''br0'' = Some specs" by (auto split: prod.splits sum.splits)
  have "case updateClassicFlows demo_up_env demo_up_state demo_running of
      Inr st' \<Rightarrow> (case run_cmds list_switch [] ex_started (sent_to ''br0'' (ssOut st')) of Done fm' s' \<Rightarrow> True | _ \<Rightarrow> False)
    | _ \<Rightarrow> False" by code_simp
  then obtain st' fm' s' where u: "updateClassicFlows demo_up_env demo_up_state demo_running = Inr st'"
    and run: "run_cmds list_switch [] ex_started (sent_to ''br0'' (ssOut st')) = Done fm' s'"
    by (auto split: sum.splits dest!: run_cmds_Done)
  have br: "bridge ex_started = ''br0''" "ssOut demo_up_state = []" "gId demo_running = ''g1''"
    "seFlowMan demo_up_env ''br0''"
    by code_simp+
  have "\<exists>fs. res_map (F (seUnmarshal demo_up_env)) specs = Inr fs
      \<and> fm_abs fm' = (fm_abs ex_started)(gId demo_running \<mapsto> fs_keys fs)"
    by (rule guest_flows_reach_flowman [OF u m(1)])
       (use run br m(2) ex_started_strict in \<open>simp_all add: THEMAN_def\<close>)
  with u run br(3) show ?thesis by auto
qed

section \<open>From the elastic addresses to the switch\<close>

text \<open>The flows that the elastic addresses of a region's data want, on the ports that the switch has now.\<close>

definition eip_wanted :: "eip_env \<Rightarrow> (string, eipEntry) gomap \<Rightarrow> flow_spec list" where
  "eip_wanted env entries =
     eip_drop # concat (map (\<lambda>e. case eeDumpPort env (eeEipBridge env) (''ev-'' @ take 10 (eeVpcId e)) of
       Inl _ \<Rightarrow> [] | Inr n \<Rightarrow> eip_flows VpcEipGatewayMac3 n (eeVpcIp e) (eeEipIp e)) (map snd entries))"

abbreviation with_client :: "flow_man \<Rightarrow> string \<Rightarrow> flow list \<Rightarrow> flow_man" where
  "with_client fm who fs \<equiv> fm\<lparr>flowSets := gm_set (flowSets fm) who (NewFlowSetFromList fs)\<rparr>"

lemma graph_set_client:
  "Map.graph (map_of (gm_set m k v)) = insert (k, v) {(k', v') \<in> Map.graph (map_of m). k' \<noteq> k}"
  by (auto simp: graph_def split: if_splits)

lemma with_client_keys:
  assumes "gm_wf (flowSets fm)"
  shows "fs_keys (mergeFlows (with_client fm who fs)) = fs_keys fs \<union> \<Union>{K. \<exists>c. c \<noteq> who \<and> fm_abs fm c = Some K}"
proof -
  have f: "flowSets (with_client fm who fs) = gm_set (flowSets fm) who (NewFlowSetFromList fs)" by simp
  have wf: "gm_wf (flowSets (with_client fm who fs))" using assms by simp
  have "fs_keys (mergeFlows (with_client fm who fs)) =
      (\<Union>(c, f)\<in>insert (who, NewFlowSetFromList fs) {(c, f) \<in> Map.graph (map_of (flowSets fm)). c \<noteq> who}. fs_keys f)"
    unfolding mergeFlows_by_client [OF wf] f graph_set_client ..
  also have "\<dots> = fs_keys fs \<union> \<Union>{K. \<exists>c. c \<noteq> who \<and> fm_abs fm c = Some K}"
    by (auto simp: NewFlowSetFromList_sorted fm_abs_def graph_def)
  finally show ?thesis .
qed

text \<open>C9: elastic addresses reach the switch.  In every reachable state of the elastic address manager, a run on
  the data of the region ends with a command to the flow manager of the bridge; when that has executed it,
  the managed tables of the switch hold exactly the flows of the elastic addresses and those of the other
  clients of the bridge, and the excluded tables are as they were.\<close>

theorem eip_flows_reach_switch:
  assumes "eip_reach E man" "eip_run env mss man = Inr man'" "eeHasFlowMan env" "\<And>args. is_ok (eeRunOvsctl env args)"
    and "prepEipEntries mss = Inr entries" "res_map (F (eeUnmarshal env)) (eip_wanted env entries) = Inr fs"
    and "bridge fm = eeEipBridge env" "fm_inv fm" "waitCount fm = 0" "DbSockExists cli w"
    and "DumpBridgeFlows cli w (bridge fm) = Inr fl0" "distinct (map flow_id fl0)"
    and "distinct (map flow_id (mergeFlows (with_client fm ''eipman'' fs)))"
    and "\<forall>f \<in> set (mergeFlows (with_client fm ''eipman'' fs)). Table f \<notin> set excludeOvsTables"
    and "ovs_bundle_spec cli w (bridge fm)" "\<forall>adds dels. \<exists>w'. doCommitChange cli w fm adds dels = (w', Inr ())"
  shows "\<exists>cmd fm' w' fl1. last (emOut man') = EipFlow (bridge fm) cmd \<and> doCmd cli w fm cmd = Done fm' w'
    \<and> DumpBridgeFlows cli w' (bridge fm) = Inr fl1
    \<and> fs_keys (managed fl1) = fs_keys fs \<union> \<Union>{K. \<exists>c. c \<noteq> ''eipman'' \<and> fm_abs fm c = Some K}
    \<and> fs_keys (unmanaged fl1) = fs_keys (unmanaged fl0)"
proof -
  have l: "last (emOut man') = EipFlow (bridge fm) (UpdateFlowsCmd ''eipman'' fs)"
    using eip_run_sends [OF assms(1-4), folded eip_wanted_def] unfolding assms(5,7) sum.inject using assms(6) by auto
  have i: "idleTimer fm \<noteq> Drained" "gm_wf (flowSets fm)" using assms(8) by (auto simp: fm_inv_def)
  from update_switch [OF i(1) assms(9-16)] obtain w' fl1 where
    u: "doCmd cli w fm (UpdateFlowsCmd ''eipman'' fs) = Done ((with_client fm ''eipman'' fs)\<lparr>idleTimer := timer.Running\<rparr>) w'"
    "DumpBridgeFlows cli w' (bridge fm) = Inr fl1"
    "fs_keys (managed fl1) = fs_keys (mergeFlows (with_client fm ''eipman'' fs))" "fs_keys (unmanaged fl1) = fs_keys (unmanaged fl0)"
    by (elim exE conjE)
  show ?thesis
    by (intro exI conjI) (rule l, rule u(1), rule u(2), rule trans [OF u(3) with_client_keys [OF i(2)]], rule u(4))
qed

definition demo_eip_fm :: flow_man where
  "demo_eip_fm = \<lparr>bridge = ''breip'', flowSets = [(THEMAN, NewFlowSet), (FAILSAFE, NewFlowSet)], idleTimer = timer.Running, waitCount = 0\<rparr>"

theorem eip_flows_reach_switch_witness:
  "\<exists>man cmd fm' w' fl1. demo_eip_run = Inr man \<and> last (emOut man) = EipFlow ''breip'' cmd
     \<and> doCmd list_switch [ex_flow 2] demo_eip_fm cmd = Done fm' w' \<and> DumpBridgeFlows list_switch w' ''breip'' = Inr fl1
     \<and> fs_keys (managed fl1) = {flow_key (ex_flow 0)}"
proof -
  obtain man where man: "demo_eip_run = Inr man" using is_okE [OF demo_eip_runs(2)] by blast
  have e: "eeHasFlowMan demo_eip_env" "\<And>args. is_ok (eeRunOvsctl demo_eip_env args)" "bridge demo_eip_fm = eeEipBridge demo_eip_env"
    by (simp_all add: demo_eip_env_def demo_eip_fm_def)
  let ?en = "[(''e1'', \<lparr>eeVpcId = ''01234567-89ab'', eeVpcIp = ''192.168.0.5'', eeEipIp = ''120.0.0.9''\<rparr>)]"
  let ?fs = "replicate 4 (ex_flow 0)"
  have fs: "res_map (F (eeUnmarshal demo_eip_env)) (eip_wanted demo_eip_env ?en) = Inr ?fs"
    by (simp add: eip_wanted_def demo_eip_env_def eip_flows_def F_def eip_drop_def numeral_eq_Suc)
  have inv: "fm_inv demo_eip_fm" "waitCount demo_eip_fm = 0"
    by (auto simp: fm_inv_def demo_eip_fm_def gm_wf_def THEMAN_def FAILSAFE_def NewFlowSet_def fs_sorted_def split: if_splits)
  have sw: "DbSockExists list_switch [ex_flow 2]" "DumpBridgeFlows list_switch [ex_flow 2] (bridge demo_eip_fm) = Inr [ex_flow 2]"
    "distinct (map flow_id [ex_flow 2])" "\<forall>adds dels. \<exists>w'. doCommitChange list_switch [ex_flow 2] demo_eip_fm adds dels = (w', Inr ())"
    by (simp_all add: list_switch_def doCommitChange_def)
  have m: "distinct (map flow_id (mergeFlows (with_client demo_eip_fm ''eipman'' ?fs)))"
    "\<forall>f \<in> set (mergeFlows (with_client demo_eip_fm ''eipman'' ?fs)). Table f \<notin> set excludeOvsTables" by code_simp+
  have none: "\<Union>{K. \<exists>c. c \<noteq> ''eipman'' \<and> fm_abs demo_eip_fm c = Some K} = {}"
    by (auto simp: fm_abs_def demo_eip_fm_def NewFlowSet_def fs_keys_def split: if_splits)
  from eip_flows_reach_switch [OF demo_eip_runs(1) man [unfolded demo_eip_run_def] e(1,2) demo_eip_runs(4) fs e(3) inv sw(1-3) m
      list_switch_spec [OF sw(3)] sw(4), unfolded none]
  have "\<exists>cmd fm' w' fl1. last (emOut man) = EipFlow (bridge demo_eip_fm) cmd \<and> doCmd list_switch [ex_flow 2] demo_eip_fm cmd = Done fm' w'
     \<and> DumpBridgeFlows list_switch w' (bridge demo_eip_fm) = Inr fl1 \<and> fs_keys (managed fl1) = fs_keys ?fs"
    by blast
  moreover have "fs_keys ?fs = {flow_key (ex_flow 0)}" by (simp add: fs_keys_def)
  moreover have "bridge demo_eip_fm = ''breip''" by (simp add: demo_eip_fm_def)
  ultimately show ?thesis using man by auto
qed

end
